(* ===== verification/Prelude.thy ===== *)
theory Prelude
  imports Main "HOL-Library.Word"
begin

text \<open>
  Shared vocabulary of the development: bytes and machine words with their little- and
  big-endian byte images (\<open>crypto/common.h\<close>: \<open>ReadLE16\<close> to \<open>WriteBE64\<close>), readers
  that consume a byte stream and may fail, and the generic list lemmas the components use.
\<close>

unbundle bit_operations_syntax

named_theorems wire_simps \<open>byte images of machine words and how readers consume them\<close>

type_synonym byte = "8 word"
type_synonym bytes = "8 word list"
type_synonym u16 = "16 word"
type_synonym u32 = "32 word"
type_synonym u64 = "64 word"
type_synonym uint256 = "256 word"
type_synonym uint160 = "160 word"

section \<open>Byte images of machine words\<close>

primrec le_bytes :: "nat \<Rightarrow> 'a::len word \<Rightarrow> bytes" where
  "le_bytes 0 w = []"
| "le_bytes (Suc n) w = ucast w # le_bytes n (drop_bit 8 w)"

primrec le_word :: "bytes \<Rightarrow> 'a::len word" where
  "le_word [] = 0"
| "le_word (b # bs) = ucast b OR push_bit 8 (le_word bs)"

definition be_bytes :: "nat \<Rightarrow> 'a::len word \<Rightarrow> bytes" where
  "be_bytes n w = rev (le_bytes n w)"

definition be_word :: "bytes \<Rightarrow> 'a::len word" where
  "be_word bs = le_word (rev bs)"

lemma length_le_bytes [simp, wire_simps]: "length (le_bytes n w) = n"
  by (induction n arbitrary: w) simp_all

lemma length_be_bytes [simp, wire_simps]: "length (be_bytes n w) = n"
  by (simp add: be_bytes_def)

lemma bit_le_word:
  "bit (le_word bs :: 'a::len word) i \<longleftrightarrow>
     i < LENGTH('a) \<and> i div 8 < length bs \<and> bit (bs ! (i div 8)) (i mod 8)"
proof (induction bs arbitrary: i)
  case Nil
  then show ?case by simp
next
  case (Cons b bs)
  show ?case
  proof (cases "i < 8")
    case True
    then show ?thesis by (auto simp: bit_simps)
  next
    case False
    then have "\<not> bit b i" using bit_imp_le_length [of b i] by auto
    moreover have "i div 8 = Suc ((i - 8) div 8)" "i mod 8 = (i - 8) mod 8"
      using False by (simp_all add: le_div_geq le_mod_geq)
    ultimately show ?thesis
      using False Cons.IH [of "i - 8"] by (auto simp: bit_simps)
  qed
qed

lemma bit_le_bytes_nth:
  "i < n \<Longrightarrow> bit (le_bytes n w ! i) j \<longleftrightarrow> j < 8 \<and> bit w (8 * i + j)"
proof (induction n arbitrary: w i)
  case 0
  then show ?case by simp
next
  case (Suc n)
  then show ?case
    by (cases i) (auto simp: bit_simps ac_simps)
qed

lemma le_word_le_bytes [simp, wire_simps]:
  fixes w :: "'a::len word"
  assumes "LENGTH('a) \<le> 8 * n"
  shows "le_word (le_bytes n w) = w"
proof (rule bit_word_eqI)
  fix i
  assume i: "i < LENGTH('a)"
  with assms have "i div 8 < n" by simp
  then show "bit (le_word (le_bytes n w) :: 'a word) i = bit w i"
    using i by (simp add: bit_le_word bit_le_bytes_nth)
qed

lemma le_bytes_le_word:
  fixes bs :: bytes
  assumes "8 * length bs \<le> LENGTH('a::len)"
  shows "le_bytes (length bs) (le_word bs :: 'a word) = bs"
proof (rule nth_equalityI)
  show "length (le_bytes (length bs) (le_word bs :: 'a word)) = length bs" by simp
  fix i
  assume "i < length (le_bytes (length bs) (le_word bs :: 'a word))"
  then have i: "i < length bs" by simp
  show "le_bytes (length bs) (le_word bs :: 'a word) ! i = bs ! i"
  proof (rule bit_word_eqI)
    fix j
    assume "j < LENGTH(8)"
    then have j: "j < 8" by simp
    with i assms have "8 * i + j < LENGTH('a)" by simp
    with i j show "bit (le_bytes (length bs) (le_word bs :: 'a word) ! i) j = bit (bs ! i) j"
      by (simp add: bit_le_bytes_nth bit_le_word)
  qed
qed

lemma le_word_inject:
  assumes "length bs = length bs'" "8 * length bs \<le> LENGTH('a::len)"
    and "(le_word bs :: 'a word) = le_word bs'"
  shows "bs = bs'"
  using assms le_bytes_le_word [where 'a = 'a] by metis

lemma be_word_be_bytes [simp, wire_simps]:
  fixes w :: "'a::len word"
  assumes "LENGTH('a) \<le> 8 * n"
  shows "be_word (be_bytes n w) = w"
  using assms by (simp add: be_word_def be_bytes_def)

lemma be_bytes_be_word:
  assumes "8 * length bs \<le> LENGTH('a::len)"
  shows "be_bytes (length bs) (be_word bs :: 'a word) = bs"
proof -
  have "le_bytes (length (rev bs)) (le_word (rev bs) :: 'a word) = rev bs"
    using assms by (intro le_bytes_le_word) simp
  then show ?thesis by (simp add: be_word_def be_bytes_def)
qed

section \<open>Words as numbers\<close>

lemma unat_drop_bit: "unat (drop_bit k w) = unat w div 2 ^ k"
  by (simp only: unat_drop_bit_eq drop_bit_nat_def)

lemma word_le_mask_iff: "(w :: 'a::len word) \<le> mask k \<longleftrightarrow> unat w < 2 ^ k"
proof (cases "LENGTH('a) \<le> k")
  case True
  have "unat w < 2 ^ LENGTH('a)" by simp
  also have "(2::nat) ^ LENGTH('a) \<le> 2 ^ k" using True by simp
  finally have "unat w < 2 ^ k" .
  moreover have "mask k = (- 1 :: 'a word)"
    using True by (intro bit_word_eqI) (simp add: bit_mask_iff)
  ultimately show ?thesis by simp
next
  case False
  then have less: "(2::nat) ^ k - 1 < 2 ^ LENGTH('a)"
    by (intro less_imp_diff_less power_strict_increasing) simp_all
  have "(mask k :: 'a word) = of_nat (2 ^ k - 1)"
    by (simp add: mask_eq_exp_minus_1 of_nat_diff)
  then have "unat (mask k :: 'a word) = (2 ^ k - 1) mod 2 ^ LENGTH('a)"
    by (simp only: unat_of_nat)
  with less have "unat (mask k :: 'a word) = 2 ^ k - 1" by simp
  moreover have "unat w \<le> 2 ^ k - 1 \<longleftrightarrow> unat w < 2 ^ k"
    by (metis One_nat_def Suc_pred less_Suc_eq_le zero_less_numeral zero_less_power)
  ultimately show ?thesis by (simp add: word_le_nat_alt)
qed

lemma word_le_0x7F_iff: "(w :: 'a::len word) \<le> 0x7F \<longleftrightarrow> unat w < 128"
  using word_le_mask_iff [of w 7] by (simp add: mask_eq_decr_exp)

lemma ucast_ucast_id:
  fixes w :: "'a::len word"
  assumes "unat w < 2 ^ LENGTH('b::len)"
  shows "ucast (ucast w :: 'b word) = w"
proof -
  have "unat (ucast (ucast w :: 'b word) :: 'a word) = unat w"
    using assms by (simp add: unsigned_ucast_eq unsigned_take_bit_eq take_bit_nat_eq_self)
  then show ?thesis by (simp only: unsigned_word_eqI)
qed

lemma unat_ucast_le: "unat w < 2 ^ LENGTH('b::len) \<Longrightarrow> unat (ucast w :: 'b word) = unat w"
  by (simp add: unsigned_ucast_eq unsigned_take_bit_eq take_bit_nat_eq_self)

lemma unat_less_pow: "LENGTH('a::len) \<le> k \<Longrightarrow> unat (w :: 'a word) < 2 ^ k"
proof -
  assume "LENGTH('a) \<le> k"
  then have "(2::nat) ^ LENGTH('a) \<le> 2 ^ k" by simp
  moreover have "unat w < 2 ^ LENGTH('a)" by simp
  ultimately show ?thesis by linarith
qed

lemma unat_ucast_up:
  "LENGTH('a::len) \<le> LENGTH('b::len) \<Longrightarrow> unat (ucast (w :: 'a word) :: 'b word) = unat w"
  by (simp add: unat_ucast_le unat_less_pow)

lemma bit_imp_less_of_unat: "unat w < 2 ^ k \<Longrightarrow> bit w i \<Longrightarrow> i < k"
proof -
  assume "unat w < 2 ^ k" "bit w i"
  then have "unat (take_bit k w) = unat w"
    by (simp add: unsigned_take_bit_eq take_bit_nat_eq_self)
  then have "take_bit k w = w" by (simp only: unsigned_word_eqI)
  with \<open>bit w i\<close> show "i < k" by (metis bit_take_bit_iff)
qed

lemma mask_7: "(0x7F :: 'a::len word) = mask 7"
  by (simp add: mask_eq_decr_exp)

lemma bit_128: "bit (128 :: int) i \<longleftrightarrow> i = 7" "bit (128 :: nat) i \<longleftrightarrow> i = 7"
  using bit_exp_iff [of 7 i, where 'a = int] bit_exp_iff [of 7 i, where 'a = nat] by auto

lemma byte_high_bit: "(b :: byte) AND 0x80 = 0 \<longleftrightarrow> \<not> bit b 7"
proof
  assume "b AND 0x80 = 0"
  then have "\<not> bit (b AND 0x80) 7" by simp
  then show "\<not> bit b 7" by (simp add: bit_and_iff)
next
  assume "\<not> bit b 7"
  then show "b AND 0x80 = 0"
    by (intro bit_word_eqI) (auto simp: bit_and_iff bit_128)
qed

lemma byte_clear_high: "(b :: byte) AND 0x80 = 0 \<Longrightarrow> b AND 0x7F = b"
proof (rule bit_word_eqI)
  fix i
  assume "b AND 0x80 = 0" "i < LENGTH(8)"
  then consider "i < 7" | "i = 7" "\<not> bit b 7" by (fastforce simp: byte_high_bit)
  then show "bit (b AND 0x7F) i = bit b i"
    by cases (auto simp: mask_7 bit_and_iff bit_mask_iff)
qed

lemma byte_or_high:
  "((b :: byte) OR 0x80) AND 0x80 \<noteq> 0"
  "(b OR 0x80) AND 0x7F = b AND 0x7F"
  by (simp_all add: byte_high_bit bit_or_iff)
     (intro bit_word_eqI, auto simp: mask_7 bit_and_iff bit_or_iff bit_mask_iff bit_128)

primrec le_nat :: "bytes \<Rightarrow> nat" where
  "le_nat [] = 0"
| "le_nat (b # bs) = unat b + 256 * le_nat bs"

lemma le_nat_less: "le_nat bs < 256 ^ length bs"
proof (induction bs)
  case Nil
  then show ?case by simp
next
  case (Cons b bs)
  moreover have "unat b < 256" using unat_less_pow [of 8 b] by simp
  ultimately show ?case by simp
qed

lemma le_nat_append: "le_nat (xs @ ys) = le_nat xs + 256 ^ length xs * le_nat ys"
  by (induction xs) (simp_all add: algebra_simps)

lemma le_nat_inject: "length xs = length ys \<Longrightarrow> le_nat xs = le_nat ys \<Longrightarrow> xs = ys"
proof (induction xs ys rule: list_induct2)
  case Nil
  then show ?case by simp
next
  case (Cons x xs y ys)
  have xy: "unat x < 256" "unat y < 256"
    using unat_less_pow [of 8 x] unat_less_pow [of 8 y] by simp_all
  with Cons.prems have "unat x = unat y"
    by (metis le_nat.simps(2) mod_less mod_mult_self2)
  with Cons show ?case by (simp add: word_unat_eq_iff)
qed

lemma unat_le_word:
  "8 * length bs \<le> LENGTH('a::len) \<Longrightarrow> unat (le_word bs :: 'a word) = le_nat bs"
proof (induction bs)
  case Nil
  then show ?case by simp
next
  case (Cons b bs)
  let ?w = "le_word bs :: 'a word"
  have IH: "unat ?w = le_nat bs" using Cons by simp
  have "le_nat (b # bs) < 2 ^ (8 * length (b # bs))"
    using le_nat_less [of "b # bs"] by (simp add: power_mult power_add)
  also have "\<dots> \<le> 2 ^ LENGTH('a)" using Cons.prems by (intro power_increasing) simp_all
  finally have small: "unat b + 256 * unat ?w < 2 ^ LENGTH('a)" by (simp add: IH)
  have "(ucast b :: 'a word) AND push_bit 8 ?w = 0"
    by (rule bit_word_eqI) (auto simp: bit_simps dest: bit_imp_le_length)
  then have "(ucast b :: 'a word) OR push_bit 8 ?w = ucast b + push_bit 8 ?w"
    by (rule disjunctive_add_eq_or [symmetric])
  moreover have "unat (push_bit 8 ?w) = 256 * unat ?w"
    using small by (simp add: unsigned_push_bit_eq take_bit_nat_eq_self push_bit_nat_def)
  moreover have "unat (ucast b :: 'a word) = unat b"
    using Cons.prems by (intro unat_ucast_up) simp
  ultimately show ?case
    using small by (simp add: IH unat_word_ariths)
qed

lemma unat_ucast_byte: "unat (ucast (w :: 'a::len word) :: byte) = unat w mod 256"
  by (simp add: unsigned_ucast_eq unsigned_take_bit_eq take_bit_eq_mod)

lemma byte_and_0x7F: "(b :: byte) AND 0x7F = take_bit 7 b"
  by (simp only: mask_7 take_bit_eq_mask)

lemma high_bit_iff: "(b :: byte) AND 0x80 = 0 \<longleftrightarrow> unat b < 128"
proof
  assume "b AND 0x80 = 0"
  then have "b AND 0x7F = b" by (rule byte_clear_high)
  then have "take_bit 7 b = b" by (simp only: mask_7 take_bit_eq_mask)
  then have "unat b = take_bit 7 (unat b)" by (simp flip: unsigned_take_bit_eq)
  then show "unat b < 128" using take_bit_nat_less_exp [of 7 "unat b"] by simp
next
  assume "unat b < 128"
  then show "b AND 0x80 = 0" unfolding byte_high_bit
    using bit_imp_less_of_unat [of b 7 7] by auto
qed


lemma low_bits_zero: "(b :: byte) AND 0x7F = 0 \<Longrightarrow> b = (if b AND 0x80 = 0 then 0 else 0x80)"
proof (rule bit_word_eqI)
  fix i
  assume "b AND 0x7F = 0" "i < LENGTH(8)"
  then have "take_bit 7 b = 0" by (simp only: byte_and_0x7F)
  then have "i < 7 \<Longrightarrow> \<not> bit b i" by (metis bit_0_eq bit_take_bit_iff bot_apply bot_bool_def)
  moreover have "i < 7 \<or> i = 7" using \<open>i < LENGTH(8)\<close> by auto
  ultimately show "bit b i = bit (if b AND 0x80 = 0 then 0 else 0x80 :: byte) i"
    by (auto simp: byte_high_bit bit_128)
qed

lemma byte_low_high: "((b :: byte) AND 0x7F) AND 0x80 = 0"
  by (simp add: byte_and_0x7F byte_high_bit bit_take_bit_iff)

lemma byte_low_or_high: "(b :: byte) AND 0x80 \<noteq> 0 \<Longrightarrow> (b AND 0x7F) OR 0x80 = b"
proof (rule bit_word_eqI)
  fix i
  assume "b AND 0x80 \<noteq> 0" "i < LENGTH(8)"
  moreover from this have "i < 7 \<or> i = 7" by auto
  ultimately show "bit ((b AND 0x7F) OR 0x80) i = bit b i"
    unfolding byte_and_0x7F byte_high_bit by (auto simp: bit_or_iff bit_take_bit_iff bit_128)
qed

lemma le_nat_last:
  "bs \<noteq> [] \<Longrightarrow> le_nat bs = le_nat (butlast bs) + 256 ^ (length bs - 1) * unat (last bs)"
  using le_nat_append [of "butlast bs" "[last bs]"] by simp

section \<open>Readers: consuming a byte stream\<close>

text \<open>
  A deserializer takes the unread bytes of its stream and returns a value with the bytes left,
  or the failure the C++ code throws.
\<close>

datatype ser_error =
    EndOfData
  | NonCanonicalCompactSize
  | CompactSizeTooLarge
  | VarIntTooLarge
  | UnknownOptionalData
  | BadAnyCast
  | TooManyUndoRecords

type_synonym 'a reader = "bytes \<Rightarrow> ser_error + ('a \<times> bytes)"

definition rret :: "'a \<Rightarrow> 'a reader" where
  "rret x bs = Inr (x, bs)"

definition rfail :: "ser_error \<Rightarrow> 'a reader" where
  "rfail e bs = Inl e"

definition rbind :: "'a reader \<Rightarrow> ('a \<Rightarrow> 'b reader) \<Rightarrow> 'b reader" where
  "rbind m f bs = (case m bs of Inl e \<Rightarrow> Inl e | Inr (x, bs') \<Rightarrow> f x bs')"

definition sbind :: "'e + 'a \<Rightarrow> ('a \<Rightarrow> 'e + 'b) \<Rightarrow> 'e + 'b" where
  "sbind m f = (case m of Inl e \<Rightarrow> Inl e | Inr x \<Rightarrow> f x)"

lemma rret_apply [simp]: "rret x bs = Inr (x, bs)"
  by (simp add: rret_def)

lemma rfail_apply [simp]: "rfail e bs = Inl e"
  by (simp add: rfail_def)

lemma rbind_Inr [simp]: "m bs = Inr (x, bs') \<Longrightarrow> rbind m f bs = f x bs'"
  by (simp add: rbind_def)

lemma rbind_Inl [simp]: "m bs = Inl e \<Longrightarrow> rbind m f bs = Inl e"
  by (simp add: rbind_def)

lemma rbind_eq_InrD:
  "rbind m f bs = Inr r \<Longrightarrow> \<exists>x bs'. m bs = Inr (x, bs') \<and> f x bs' = Inr r"
  by (auto simp: rbind_def split: sum.splits)

lemma rbind_eq_InrE [elim]:
  assumes "rbind m f bs = Inr r"
  obtains x bs' where "m bs = Inr (x, bs')" "f x bs' = Inr r"
  using assms rbind_eq_InrD by blast

lemma sbind_simps [simp]:
  "sbind (Inl e) f = Inl e"
  "sbind (Inr x) f = f x"
  by (simp_all add: sbind_def)

lemma sbind_eq_Inr: "sbind m f = Inr y \<longleftrightarrow> (\<exists>x. m = Inr x \<and> f x = Inr y)"
  by (cases m) auto

lemma sbind_eq_InrE [elim]:
  assumes "sbind m f = Inr y"
  obtains x where "m = Inr x" "f x = Inr y"
  using assms by (auto simp: sbind_eq_Inr)

section \<open>Raw stream reads\<close>

text \<open>\<open>CDataStream::read(pch, nSize)\<close>: throws when fewer than \<open>nSize\<close> bytes are left.\<close>

definition stream_read :: "nat \<Rightarrow> bytes reader" where
  "stream_read n bs = (if length bs < n then Inl EndOfData else Inr (take n bs, drop n bs))"

lemma stream_read_append [simp, wire_simps]:
  "length xs = n \<Longrightarrow> stream_read n (xs @ ys) = Inr (xs, ys)"
  by (simp add: stream_read_def)

lemma stream_read_InrD:
  "stream_read n bs = Inr (xs, ys) \<Longrightarrow> bs = xs @ ys \<and> length xs = n"
  by (auto simp: stream_read_def split: if_splits)

lemma stream_read_zero [simp]: "stream_read 0 bs = Inr ([], bs)"
  by (simp add: stream_read_def)

lemma stream_read_add:
  "stream_read (m + n) bs = rbind (stream_read m) (\<lambda>xs. rbind (stream_read n) (\<lambda>ys. rret (xs @ ys))) bs"
  by (auto simp: stream_read_def rbind_def take_add add.commute split: sum.splits if_splits)

section \<open>Generic list facts\<close>

lemma take_append_drop_eq: "xs = ys @ zs \<Longrightarrow> drop (length ys) xs = zs"
  by simp

lemma append_eq_same_length:
  "length xs = length ys \<Longrightarrow> xs @ us = ys @ vs \<longleftrightarrow> xs = ys \<and> us = vs"
  by simp

lemma foldl_append_start: "foldl (\<lambda>acc x. acc @ f x) a xs = a @ concat (map f xs)"
  by (induction xs arbitrary: a) simp_all

end
