(* ===== verification/Serialize.thy ===== *)
theory Serialize
  imports Prelude
begin

text \<open>
  The wire format of \<open>topchain/src/serialize.h\<close>: fixed-width integers, \<open>CompactSize\<close>
  lengths, \<open>VarInt\<close> numbers, byte strings and vectors. Writers return the bytes they append
  to the stream, readers consume a stream. The locale \<open>serializer\<close> is the contract every
  serializable type of the program has to meet (what is written is read back), the locale
  \<open>canonical_serializer\<close> adds that a reader accepts nothing but what the writer produces.
  Both are interpreted on the definitions below; the vector lemmas are proved once in them.
\<close>

section \<open>Fixed-width integers\<close>

definition MAX_SIZE :: nat where
  "MAX_SIZE = 0x02000000"

definition ser_writedata8 :: "byte \<Rightarrow> bytes" where
  "ser_writedata8 obj = le_bytes 1 obj"

definition ser_writedata16 :: "u16 \<Rightarrow> bytes" where
  "ser_writedata16 obj = le_bytes 2 obj"

definition ser_writedata32 :: "u32 \<Rightarrow> bytes" where
  "ser_writedata32 obj = le_bytes 4 obj"

definition ser_writedata64 :: "u64 \<Rightarrow> bytes" where
  "ser_writedata64 obj = le_bytes 8 obj"

definition ser_readdata8 :: "byte reader" where
  "ser_readdata8 = rbind (stream_read 1) (\<lambda>obj. rret (le_word obj))"

definition ser_readdata16 :: "u16 reader" where
  "ser_readdata16 = rbind (stream_read 2) (\<lambda>obj. rret (le_word obj))"

definition ser_readdata32 :: "u32 reader" where
  "ser_readdata32 = rbind (stream_read 4) (\<lambda>obj. rret (le_word obj))"

definition ser_readdata64 :: "u64 reader" where
  "ser_readdata64 = rbind (stream_read 8) (\<lambda>obj. rret (le_word obj))"

lemmas ser_data_defs =
  ser_writedata8_def ser_writedata16_def ser_writedata32_def ser_writedata64_def
  ser_readdata8_def ser_readdata16_def ser_readdata32_def ser_readdata64_def

section \<open>CompactSize\<close>

definition GetSizeOfCompactSize :: "u64 \<Rightarrow> nat" where
  "GetSizeOfCompactSize nSize =
     (if nSize < 253 then 1
      else if nSize \<le> 0xFFFF then 1 + 2
      else if nSize \<le> 0xFFFFFFFF then 1 + 4
      else 1 + 8)"

definition WriteCompactSize :: "u64 \<Rightarrow> bytes" where
  "WriteCompactSize nSize =
     (if nSize < 253 then ser_writedata8 (ucast nSize)
      else if nSize \<le> 0xFFFF then ser_writedata8 253 @ ser_writedata16 (ucast nSize)
      else if nSize \<le> 0xFFFFFFFF then ser_writedata8 254 @ ser_writedata32 (ucast nSize)
      else ser_writedata8 255 @ ser_writedata64 nSize)"

definition check_max_size :: "u64 \<Rightarrow> u64 reader" where
  "check_max_size nSizeRet =
     (if nSizeRet > of_nat MAX_SIZE then rfail CompactSizeTooLarge else rret nSizeRet)"

definition ReadCompactSize :: "u64 reader" where
  "ReadCompactSize = rbind ser_readdata8 (\<lambda>chSize.
     if chSize < 253 then check_max_size (ucast chSize)
     else if chSize = 253 then rbind ser_readdata16 (\<lambda>n.
       if (ucast n :: u64) < 253 then rfail NonCanonicalCompactSize else check_max_size (ucast n))
     else if chSize = 254 then rbind ser_readdata32 (\<lambda>n.
       if (ucast n :: u64) < 0x10000 then rfail NonCanonicalCompactSize else check_max_size (ucast n))
     else rbind ser_readdata64 (\<lambda>n.
       if n < 0x100000000 then rfail NonCanonicalCompactSize else check_max_size n))"

section \<open>VarInt\<close>

text \<open>
  \<open>WriteVarInt\<close> fills \<open>tmp\<close> from the least significant group and then writes it backwards;
  \<open>varint_tmp True n\<close> is the filled part of the array (the flag marks \<open>len = 0\<close>).
\<close>

definition varint_group :: "bool \<Rightarrow> 'a::len word \<Rightarrow> byte" where
  "varint_group first n = (ucast n AND 0x7F) OR (if first then 0 else 0x80)"

lemma varint_step_less:
  fixes n :: "'a::len word"
  assumes "\<not> n \<le> 0x7F"
  shows "unat (drop_bit 7 n - 1) < unat n"
proof -
  from assms have big: "128 \<le> unat n" by (simp add: word_le_0x7F_iff)
  then have "unat (drop_bit 7 n) \<noteq> 0" by (simp add: unat_drop_bit)
  then have "drop_bit 7 n \<noteq> 0" by (metis unat_0)
  then have "unat (drop_bit 7 n - 1) = unat (drop_bit 7 n) - 1" by (rule unat_minus_one)
  with big show ?thesis by (simp add: unat_drop_bit)
qed

function varint_tmp :: "bool \<Rightarrow> 'a::len word \<Rightarrow> bytes" where
  "varint_tmp first n =
     varint_group first n #
     (if n \<le> 0x7F then [] else varint_tmp False (drop_bit 7 n - 1))"
  by pat_completeness auto
termination
  by (relation "measure (\<lambda>(first, n). unat n)") (simp_all add: varint_step_less)

declare varint_tmp.simps [simp del]

definition WriteVarInt :: "'a::len word \<Rightarrow> bytes" where
  "WriteVarInt n = rev (varint_tmp True n)"

function GetSizeOfVarInt :: "'a::len word \<Rightarrow> nat" where
  "GetSizeOfVarInt n = (if n \<le> 0x7F then 1 else 1 + GetSizeOfVarInt (drop_bit 7 n - 1))"
  by pat_completeness auto
termination
  by (relation "measure unat") (simp_all add: varint_step_less)

declare GetSizeOfVarInt.simps [simp del]

fun read_varint_loop :: "'a::len word \<Rightarrow> 'a word reader" where
  "read_varint_loop n [] = Inl EndOfData"
| "read_varint_loop n (chData # bs) =
     (if n > drop_bit 7 (- 1) then Inl VarIntTooLarge
      else let n' = push_bit 7 n OR ucast (chData AND 0x7F)
           in if chData AND 0x80 \<noteq> 0
              then if n' = - 1 then Inl VarIntTooLarge else read_varint_loop (n' + 1) bs
              else Inr (n', bs))"

definition ReadVarInt :: "'a::len word reader" where
  "ReadVarInt = read_varint_loop 0"

section \<open>Byte strings and vectors\<close>

text \<open>Byte vectors, scripts and strings: a length and the raw bytes, read in blocks.\<close>

definition ser_bytes :: "bytes \<Rightarrow> bytes" where
  "ser_bytes v = WriteCompactSize (of_nat (length v)) @ v"

definition max_block :: nat where
  "max_block = 1 + 4999999 div 1"

function read_blocks :: "nat \<Rightarrow> nat \<Rightarrow> bytes \<Rightarrow> bytes reader" where
  "read_blocks nSize i v is =
     (if i < nSize
      then let blk = min (nSize - i) max_block
           in case stream_read blk is of
                Inl e \<Rightarrow> Inl e
              | Inr (d, is') \<Rightarrow> read_blocks nSize (i + blk) (v @ d) is'
      else Inr (v, is))"
  by pat_completeness auto
termination
  by (relation "measure (\<lambda>(nSize, i, v, is). nSize - i)") (auto simp: max_block_def)

declare read_blocks.simps [simp del]

definition unser_bytes :: "bytes reader" where
  "unser_bytes = rbind ReadCompactSize (\<lambda>nSize. read_blocks (unat nSize) 0 [])"

text \<open>
  Vectors of serializable elements. The reader fills the vector in chunks of
  \<open>5000000 / sizeof(T)\<close> elements, a positive number written \<open>Suc k\<close> here.
\<close>

definition ser_vector :: "('a \<Rightarrow> bytes) \<Rightarrow> 'a list \<Rightarrow> bytes" where
  "ser_vector ser v = WriteCompactSize (of_nat (length v)) @ concat (map ser v)"

primrec read_elems :: "'a reader \<Rightarrow> nat \<Rightarrow> 'a list \<Rightarrow> 'a list reader" where
  "read_elems rd 0 v is = Inr (v, is)"
| "read_elems rd (Suc n) v is =
     (case rd is of Inl e \<Rightarrow> Inl e | Inr (x, is') \<Rightarrow> read_elems rd n (v @ [x]) is')"

function read_chunks :: "nat \<Rightarrow> 'a reader \<Rightarrow> nat \<Rightarrow> nat \<Rightarrow> 'a list \<Rightarrow> 'a list reader" where
  "read_chunks k rd nSize nMid v is =
     (if nMid < nSize
      then let nMid' = min (nMid + Suc k) nSize
           in case read_elems rd (nMid' - nMid) v is of
                Inl e \<Rightarrow> Inl e
              | Inr (v', is') \<Rightarrow> read_chunks k rd nSize nMid' v' is'
      else Inr (v, is))"
  by pat_completeness auto
termination
  by (relation "measure (\<lambda>(k, rd, nSize, nMid, v, is). nSize - nMid)") auto

declare read_chunks.simps [simp del]

definition unser_vector :: "nat \<Rightarrow> 'a reader \<Rightarrow> 'a list reader" where
  "unser_vector k rd = rbind ReadCompactSize (\<lambda>nSize. read_chunks k rd (unat nSize) 0 [])"

section \<open>Integers and lengths: read back and canonical\<close>

lemma ser_readdata_writedata [simp, wire_simps]:
  "ser_readdata8 (ser_writedata8 b @ rest) = Inr (b, rest)"
  "ser_readdata16 (ser_writedata16 x @ rest) = Inr (x, rest)"
  "ser_readdata32 (ser_writedata32 y @ rest) = Inr (y, rest)"
  "ser_readdata64 (ser_writedata64 z @ rest) = Inr (z, rest)"
  by (simp_all add: ser_data_defs del: le_bytes.simps)

lemma read_fixed_InrD:
  assumes "rbind (stream_read n) (\<lambda>obj. rret (le_word obj)) bs = Inr (w :: 'a::len word, rest)"
    and "8 * n = LENGTH('a)"
  shows "bs = le_bytes n w @ rest"
proof -
  from assms(1) obtain obj where "stream_read n bs = Inr (obj, rest)" and w: "w = le_word obj"
    by (auto elim!: rbind_eq_InrE)
  then have "bs = obj @ rest" "length obj = n" by (auto dest: stream_read_InrD)
  then show ?thesis using le_bytes_le_word [of obj, where 'a = 'a] assms(2) w by simp
qed

lemma ser_readdata_InrD:
  "ser_readdata8 bs = Inr (b, rest) \<Longrightarrow> bs = ser_writedata8 b @ rest"
  "ser_readdata16 bs = Inr (x, rest) \<Longrightarrow> bs = ser_writedata16 x @ rest"
  "ser_readdata32 bs = Inr (y, rest) \<Longrightarrow> bs = ser_writedata32 y @ rest"
  "ser_readdata64 bs = Inr (z, rest) \<Longrightarrow> bs = ser_writedata64 z @ rest"
  unfolding ser_data_defs by (auto dest!: read_fixed_InrD simp del: le_bytes.simps)

lemma check_max_size_apply:
  "check_max_size n bs = (if MAX_SIZE < unat n then Inl CompactSizeTooLarge else Inr (n, bs))"
  by (simp add: check_max_size_def MAX_SIZE_def word_less_nat_alt)

lemma ReadCompactSize_Write:
  "ReadCompactSize (WriteCompactSize n @ rest) =
     (if unat n \<le> MAX_SIZE then Inr (n, rest) else Inl CompactSizeTooLarge)"
proof -
  consider "unat n < 253" | "253 \<le> unat n" "unat n \<le> 0xFFFF"
    | "0xFFFF < unat n" "unat n \<le> 0xFFFFFFFF" | "0xFFFFFFFF < unat n"
    by linarith
  then show ?thesis
    by cases (simp_all add: ReadCompactSize_def WriteCompactSize_def check_max_size_apply
        word_less_nat_alt word_le_nat_alt ucast_ucast_id unat_ucast_le del: le_bytes.simps)
qed

lemma WriteCompactSize_cases:
  "unat (b :: byte) < 253 \<Longrightarrow> WriteCompactSize (ucast b) = ser_writedata8 b"
  "253 \<le> unat (x :: u16) \<Longrightarrow> WriteCompactSize (ucast x) = ser_writedata8 253 @ ser_writedata16 x"
  "0xFFFF < unat (y :: u32) \<Longrightarrow> WriteCompactSize (ucast y) = ser_writedata8 254 @ ser_writedata32 y"
  "0xFFFFFFFF < unat z \<Longrightarrow> WriteCompactSize z = ser_writedata8 255 @ ser_writedata64 z"
  using unat_less_pow [of 16 x] unat_less_pow [of 32 y]
  by (simp_all add: WriteCompactSize_def word_less_nat_alt word_le_nat_alt ucast_ucast_id
      unat_ucast_up unat_less_pow del: le_bytes.simps)

lemma byte_ge_253_cases: "253 \<le> unat (b :: byte) \<Longrightarrow> b \<noteq> 253 \<Longrightarrow> b \<noteq> 254 \<Longrightarrow> b = 255"
  using unat_less_pow [of 8 b] by (auto simp: word_unat_eq_iff)

lemma ReadCompactSize_InrD:
  assumes "ReadCompactSize bs = Inr (n, rest)"
  shows "bs = WriteCompactSize n @ rest \<and> unat n \<le> MAX_SIZE"
  using assms unfolding ReadCompactSize_def
  by (auto elim!: rbind_eq_InrE split: if_splits dest!: ser_readdata_InrD byte_ge_253_cases
      simp: check_max_size_apply word_less_nat_alt unat_ucast_up WriteCompactSize_cases not_less)

lemma length_WriteCompactSize: "length (WriteCompactSize n) = GetSizeOfCompactSize n"
  by (simp add: WriteCompactSize_def GetSizeOfCompactSize_def ser_data_defs del: le_bytes.simps)

section \<open>VarInt: read back and canonical\<close>

lemma varint_group_high: "varint_group first n AND 0x80 \<noteq> 0 \<longleftrightarrow> \<not> first"
proof -
  have "varint_group first n AND 0x80 = (if first then 0 else 0x80)"
    unfolding varint_group_def mask_7 by (rule bit_word_eqI) (auto simp: bit_and_iff bit_or_iff bit_mask_iff bit_unsigned_iff bit_128)
  then show ?thesis by simp
qed

lemma varint_group_low:
  fixes n :: "'a::len word"
  shows "ucast (varint_group first n AND 0x7F) = take_bit 7 n"
  unfolding varint_group_def mask_7
  by (rule bit_word_eqI) (auto simp: bit_and_iff bit_or_iff bit_mask_iff bit_unsigned_iff bit_take_bit_iff bit_128)

lemma varint_join: "push_bit 7 (drop_bit 7 n) OR take_bit 7 n = (n :: 'a::len word)"
  by (rule bit_word_eqI) (auto simp: bit_simps)

lemma rev_varint_tmp:
  "rev (varint_tmp first n) =
     (if drop_bit 7 n = 0 then [] else rev (varint_tmp False (drop_bit 7 n - 1))) @ [varint_group first n]"
proof -
  have "n \<le> 0x7F \<longleftrightarrow> drop_bit 7 n = 0"
    by (simp add: word_le_0x7F_iff unat_drop_bit flip: unat_0_iff)
       (metis div_greater_zero_iff div_less not_less not_gr_zero zero_less_numeral)
  then show ?thesis
    by (subst varint_tmp.simps) simp
qed

lemma drop_bit_7_bound: "\<not> drop_bit 7 (- 1) < drop_bit 7 (n :: 'a::len word)"
proof -
  have "unat n \<le> unat (- 1 :: 'a word)" using word_order.extremum word_le_nat_alt by blast
  then show ?thesis by (simp only: word_less_nat_alt unat_drop_bit not_less div_le_mono)
qed

lemma read_varint_group:
  "read_varint_loop (drop_bit 7 n) (varint_group first n # rest) =
     (if first then Inr (n, rest)
      else if n = - 1 then Inl VarIntTooLarge else read_varint_loop (n + 1) rest)"
  using drop_bit_7_bound [of n]
  by (simp add: varint_group_high varint_group_low varint_join Let_def)

lemma read_varint_prefix:
  "n \<noteq> - 1 \<Longrightarrow> read_varint_loop 0 (rev (varint_tmp False n) @ rest) = read_varint_loop (n + 1) rest"
proof (induction "False" n arbitrary: rest rule: varint_tmp.induct)
  case (1 n)
  show ?case
  proof (cases "drop_bit 7 n = 0")
    case True
    with 1 read_varint_group [of n False rest] show ?thesis by (simp add: rev_varint_tmp [of False n])
  next
    case False
    moreover have "\<not> n \<le> 0x7F"
    proof
      assume "n \<le> 0x7F"
      then have "unat (drop_bit 7 n) = 0" by (simp add: word_le_0x7F_iff unat_drop_bit)
      with False show False by (simp add: unat_0_iff)
    qed
    moreover have "drop_bit 7 n - 1 \<noteq> - 1" using False by simp
    ultimately show ?thesis
      using 1 read_varint_group [of n False rest] by (simp add: rev_varint_tmp [of False n])
  qed
qed

lemma ReadVarInt_Write: "ReadVarInt (WriteVarInt n @ rest) = Inr (n, rest)"
proof (cases "drop_bit 7 n = 0")
  case True
  with read_varint_group [of n True rest] show ?thesis
    by (simp add: ReadVarInt_def WriteVarInt_def rev_varint_tmp [of True n])
next
  case False
  then have "drop_bit 7 n - 1 \<noteq> - 1" by simp
  with False read_varint_group [of n True rest] show ?thesis
    by (simp add: ReadVarInt_def WriteVarInt_def rev_varint_tmp [of True n] read_varint_prefix)
qed

lemma varint_split:
  fixes acc :: "'a::len word" and ch :: byte
  assumes "7 \<le> LENGTH('a)" and "\<not> acc > drop_bit 7 (- 1)"
  defines "n \<equiv> push_bit 7 acc OR ucast (ch AND 0x7F)"
  shows "drop_bit 7 n = acc" and "varint_group (ch AND 0x80 = 0) n = ch"
proof -
  from assms(2) have "unat acc < 2 ^ (LENGTH('a) - 7)"
    by (simp add: not_less word_le_mask_iff)
  then have "bit acc i \<Longrightarrow> i < LENGTH('a) - 7" for i by (rule bit_imp_less_of_unat)
  then have hi: "bit acc i \<Longrightarrow> 7 + i < LENGTH('a)" for i by fastforce
  show "drop_bit 7 n = acc"
    unfolding n_def mask_7
    by (rule bit_word_eqI) (use hi in \<open>auto simp: bit_simps\<close>)
  have low: "bit (ucast n :: byte) i \<longleftrightarrow> bit ch i" if "i < 7" for i
    using that assms(1) unfolding n_def mask_7 by (auto simp: bit_simps)
  show "varint_group (ch AND 0x80 = 0) n = ch"
  proof (rule bit_word_eqI)
    fix i
    assume "i < LENGTH(8)"
    then consider "i < 7" | "i = 7" by fastforce
    then show "bit (varint_group (ch AND 0x80 = 0) n) i = bit ch i"
      by cases (auto simp: varint_group_def mask_7 byte_high_bit low bit_and_iff bit_or_iff bit_mask_iff bit_128)
  qed
qed

lemma read_varint_canonical:
  fixes acc n :: "'a::len word"
  assumes len: "7 \<le> LENGTH('a)"
  shows "read_varint_loop acc bs = Inr (n, rest) \<Longrightarrow>
     \<exists>sfx. bs = sfx @ rest \<and>
       rev (varint_tmp True n) = (if acc = 0 then [] else rev (varint_tmp False (acc - 1))) @ sfx"
proof (induction acc bs rule: read_varint_loop.induct)
  case (1 acc)
  then show ?case by simp
next
  case (2 acc ch bs)
  let ?n = "push_bit 7 acc OR ucast (ch AND 0x7F)"
  from "2.prems" have ok: "\<not> acc > drop_bit 7 (- 1)" by (auto split: if_splits)
  note sp = varint_split [OF len ok, of ch]
  show ?case
  proof (cases "ch AND 0x80 = 0")
    case True
    with "2.prems" ok have "n = ?n" "rest = bs" by (simp_all add: Let_def)
    then show ?thesis using sp True rev_varint_tmp [of True ?n] by (intro exI [of _ "[ch]"]) simp
  next
    case False
    with "2.prems" ok have ne: "?n \<noteq> - 1" and rd: "read_varint_loop (?n + 1) bs = Inr (n, rest)"
      by (auto simp: Let_def split: if_splits)
    from "2.IH" [OF ok refl False ne rd] obtain sfx where
      "bs = sfx @ rest" "rev (varint_tmp True n) = (if ?n + 1 = 0 then [] else rev (varint_tmp False (?n + 1 - 1))) @ sfx"
      by blast
    moreover have "?n + 1 \<noteq> 0" using ne by (metis add_eq_0_iff2)
    ultimately show ?thesis using sp False rev_varint_tmp [of False ?n]
      by (intro exI [of _ "ch # sfx"]) simp
  qed
qed

lemma ReadVarInt_InrD:
  fixes n :: "'a::len word"
  assumes "7 \<le> LENGTH('a)" and "ReadVarInt bs = Inr (n, rest)"
  shows "bs = WriteVarInt n @ rest"
  using read_varint_canonical [OF assms(1), of 0 bs n rest] assms(2)
  by (auto simp: ReadVarInt_def WriteVarInt_def)

lemma length_varint_tmp:
  "unat n < 2 ^ k \<Longrightarrow> length (varint_tmp first n) \<le> max 1 ((k + 6) div 7)"
proof (induction first n arbitrary: k rule: varint_tmp.induct)
  case (1 first n)
  show ?case
  proof (cases "n \<le> 0x7F")
    case True
    then show ?thesis by (subst varint_tmp.simps) simp
  next
    case False
    then have big: "128 \<le> unat n" by (simp add: word_le_0x7F_iff)
    have "7 < k"
    proof (rule ccontr)
      assume "\<not> 7 < k"
      then have "(2::nat) ^ k \<le> 2 ^ 7" by (intro power_increasing) simp_all
      with big "1.prems" show False by simp
    qed
    then have pow: "(2::nat) ^ k = 2 ^ (k - 7) * 128"
      using power_add [of "2::nat" "k - 7" 7] by simp
    have "unat (drop_bit 7 n) \<noteq> 0" using big by (simp add: unat_drop_bit)
    then have "drop_bit 7 n \<noteq> 0" by (metis unat_0)
    then have "unat (drop_bit 7 n - 1) = unat (drop_bit 7 n) - 1" by (rule unat_minus_one)
    moreover have "unat n div 128 < 2 ^ (k - 7)"
      using "1.prems" pow by (simp add: less_mult_imp_div_less)
    ultimately have "unat (drop_bit 7 n - 1) < 2 ^ (k - 7)"
      by (simp add: unat_drop_bit)
    from "1.IH" [OF False this] \<open>7 < k\<close> False show ?thesis
      by (subst varint_tmp.simps) simp
  qed
qed

lemma length_WriteVarInt: "length (WriteVarInt n) = GetSizeOfVarInt n"
proof -
  have "length (varint_tmp first n) = GetSizeOfVarInt n" for first
    by (induction first n rule: varint_tmp.induct)
       (subst varint_tmp.simps, subst GetSizeOfVarInt.simps, simp)
  then show ?thesis by (simp add: WriteVarInt_def)
qed

section \<open>Block-wise and chunk-wise reading\<close>

lemma read_blocks_eq:
  "i \<le> nSize \<Longrightarrow> read_blocks nSize i v is = rbind (stream_read (nSize - i)) (\<lambda>d. rret (v @ d)) is"
proof (induction nSize i v "is" rule: read_blocks.induct)
  case (1 nSize i v "is")
  show ?case
  proof (cases "i < nSize")
    case False
    with "1.prems" show ?thesis by (subst read_blocks.simps) simp
  next
    case True
    define blk where "blk = min (nSize - i) max_block"
    then have "blk \<le> nSize - i" by simp
    then have sum: "nSize - i = blk + (nSize - (i + blk))" by simp
    have split: "stream_read (nSize - i) is =
        rbind (stream_read blk) (\<lambda>xs. rbind (stream_read (nSize - (i + blk))) (\<lambda>ys. rret (xs @ ys))) is"
      by (subst sum) (rule stream_read_add)
    show ?thesis
    proof (cases "stream_read blk is")
      case (Inl e)
      with True split show ?thesis
        by (subst read_blocks.simps) (simp add: blk_def [symmetric] Let_def rbind_def)
    next
      case (Inr r)
      then obtain d is' where r: "stream_read blk is = Inr (d, is')" by (cases r) auto
      have "read_blocks nSize i v is = read_blocks nSize (i + blk) (v @ d) is'"
        by (subst read_blocks.simps) (simp add: True r Let_def flip: blk_def)
      also have "\<dots> = rbind (stream_read (nSize - (i + blk))) (\<lambda>ys. rret ((v @ d) @ ys)) is'"
        using True \<open>blk \<le> nSize - i\<close> by (intro "1.IH" [OF True blk_def r refl]) simp
      also have "\<dots> = rbind (stream_read (nSize - i)) (\<lambda>d. rret (v @ d)) is"
        unfolding rbind_def split using r by (simp split: sum.split)
      finally show ?thesis .
    qed
  qed
qed

lemma unser_bytes_eq: "unser_bytes = rbind ReadCompactSize (\<lambda>n. stream_read (unat n))"
proof (rule ext)
  fix bs
  show "unser_bytes bs = rbind ReadCompactSize (\<lambda>n. stream_read (unat n)) bs"
    by (auto simp: unser_bytes_def rbind_def read_blocks_eq split: sum.splits)
qed

lemma read_elems_append:
  "read_elems rd (m + n) v is = rbind (read_elems rd m v) (read_elems rd n) is"
  by (induction m arbitrary: v "is") (auto simp: rbind_def split: sum.splits)

lemma read_chunks_eq:
  "nMid \<le> nSize \<Longrightarrow> read_chunks k rd nSize nMid v is = read_elems rd (nSize - nMid) v is"
proof (induction k rd nSize nMid v "is" rule: read_chunks.induct)
  case (1 k rd nSize nMid v "is")
  show ?case
  proof (cases "nMid < nSize")
    case False
    with "1.prems" show ?thesis by (subst read_chunks.simps) simp
  next
    case True
    define m where "m = min (nMid + Suc k) nSize"
    have m: "nMid < m" "m \<le> nSize" using True by (auto simp: m_def)
    then have sum: "nSize - nMid = (m - nMid) + (nSize - m)" by simp
    have IH: "read_chunks k rd nSize m v' is' = read_elems rd (nSize - m) v' is'"
      if "read_elems rd (m - nMid) v is = Inr (v', is')" for v' is'
      using "1.IH" [OF True m_def _ refl] that m by simp
    show ?thesis
      by (subst read_chunks.simps, subst sum, subst read_elems_append, unfold m_def [symmetric] Let_def)
         (use True IH in \<open>auto simp: rbind_def split: sum.splits\<close>)
  qed
qed

lemma unser_vector_eq: "unser_vector k rd = rbind ReadCompactSize (\<lambda>n. read_elems rd (unat n) [])"
proof (rule ext)
  fix bs
  show "unser_vector k rd bs = rbind ReadCompactSize (\<lambda>n. read_elems rd (unat n) []) bs"
    by (auto simp: unser_vector_def rbind_def read_chunks_eq split: sum.splits)
qed

section \<open>The contract of a serializable type\<close>

locale serializer =
  fixes ser :: "'a \<Rightarrow> bytes" and unser :: "'a reader" and wf :: "'a \<Rightarrow> bool"
  assumes unser_ser: "wf x \<Longrightarrow> unser (ser x @ rest) = Inr (x, rest)"
begin

lemma prefix_free:
  assumes "wf x" "wf y" "ser x @ r = ser y @ r'"
  shows "x = y \<and> r = r'"
proof -
  have "Inr (x, r) = unser (ser y @ r')"
    unfolding assms(3) [symmetric] by (rule unser_ser [OF assms(1), symmetric])
  also have "\<dots> = Inr (y, r')" by (rule unser_ser [OF assms(2)])
  finally show ?thesis by simp
qed

lemma read_elems_ser:
  "\<forall>x\<in>set xs. wf x \<Longrightarrow>
     read_elems unser (length xs) v (concat (map ser xs) @ rest) = Inr (v @ xs, rest)"
  by (induction xs arbitrary: v) (simp_all add: unser_ser)

lemma unser_ser_vector:
  assumes "length xs \<le> MAX_SIZE" "\<forall>x\<in>set xs. wf x"
  shows "unser_vector k unser (ser_vector ser xs @ rest) = Inr (xs, rest)"
proof -
  have len: "unat (of_nat (length xs) :: u64) = length xs"
    using assms(1) by (simp add: unat_of_nat MAX_SIZE_def)
  show ?thesis
    using assms read_elems_ser [OF assms(2), of "[]" rest]
    by (simp add: unser_vector_eq ser_vector_def rbind_def ReadCompactSize_Write len)
qed

end

locale canonical_serializer = serializer +
  assumes ser_unser: "unser bs = Inr (x, rest) \<Longrightarrow> bs = ser x @ rest \<and> wf x"
begin

lemma accepts_iff: "(\<exists>rest. unser bs = Inr (x, rest)) \<longleftrightarrow> wf x \<and> (\<exists>rest. bs = ser x @ rest)"
  using ser_unser unser_ser by metis

lemma read_elems_canonical:
  "read_elems unser n v bs = Inr (v', rest) \<Longrightarrow>
     \<exists>xs. v' = v @ xs \<and> length xs = n \<and> (\<forall>x\<in>set xs. wf x) \<and> bs = concat (map ser xs) @ rest"
proof (induction n arbitrary: v bs)
  case 0
  then show ?case by simp
next
  case (Suc n)
  then obtain x bs' where x: "unser bs = Inr (x, bs')"
    and "read_elems unser n (v @ [x]) bs' = Inr (v', rest)"
    by (auto split: sum.splits)
  with Suc.IH obtain xs where "v' = v @ x # xs" "length xs = n" "\<forall>x\<in>set xs. wf x"
    "bs' = concat (map ser xs) @ rest" by fastforce
  with ser_unser [OF x] show ?case by (intro exI [of _ "x # xs"]) simp
qed

lemma unser_vector_canonical:
  assumes "unser_vector k unser bs = Inr (xs, rest)"
  shows "bs = ser_vector ser xs @ rest \<and> length xs \<le> MAX_SIZE \<and> (\<forall>x\<in>set xs. wf x)"
proof -
  from assms obtain n bs' where n: "ReadCompactSize bs = Inr (n, bs')"
    and el: "read_elems unser (unat n) [] bs' = Inr (xs, rest)"
    by (auto simp: unser_vector_eq)
  from read_elems_canonical [OF el] have xs: "length xs = unat n" "\<forall>x\<in>set xs. wf x"
    "bs' = concat (map ser xs) @ rest" by auto
  with ReadCompactSize_InrD [OF n] show ?thesis by (simp add: ser_vector_def)
qed

end

section \<open>The basic types meet the contract\<close>

interpretation u8_ser: canonical_serializer ser_writedata8 ser_readdata8 "\<lambda>_. True"
  by unfold_locales (rule ser_readdata_writedata, intro conjI ser_readdata_InrD TrueI)

interpretation u16_ser: canonical_serializer ser_writedata16 ser_readdata16 "\<lambda>_. True"
  by unfold_locales (rule ser_readdata_writedata, intro conjI ser_readdata_InrD TrueI)

interpretation u32_ser: canonical_serializer ser_writedata32 ser_readdata32 "\<lambda>_. True"
  by unfold_locales (rule ser_readdata_writedata, intro conjI ser_readdata_InrD TrueI)

interpretation u64_ser: canonical_serializer ser_writedata64 ser_readdata64 "\<lambda>_. True"
  by unfold_locales (rule ser_readdata_writedata, intro conjI ser_readdata_InrD TrueI)

interpretation compact: canonical_serializer WriteCompactSize ReadCompactSize "\<lambda>n. unat n \<le> MAX_SIZE"
  by unfold_locales (simp add: ReadCompactSize_Write, rule ReadCompactSize_InrD)

interpretation varint32: canonical_serializer "WriteVarInt :: u32 \<Rightarrow> bytes" ReadVarInt "\<lambda>_. True"
  by unfold_locales (rule ReadVarInt_Write, rule conjI, rule ReadVarInt_InrD, simp_all)

interpretation varint64: canonical_serializer "WriteVarInt :: u64 \<Rightarrow> bytes" ReadVarInt "\<lambda>_. True"
  by unfold_locales (rule ReadVarInt_Write, rule conjI, rule ReadVarInt_InrD, simp_all)

lemma unser_bytes_ser:
  assumes "length v \<le> MAX_SIZE"
  shows "unser_bytes (ser_bytes v @ rest) = Inr (v, rest)"
proof -
  have len: "unat (of_nat (length v) :: u64) = length v"
    using assms by (simp add: unat_of_nat MAX_SIZE_def)
  show ?thesis
    using assms by (simp add: unser_bytes_eq ser_bytes_def rbind_def ReadCompactSize_Write len)
qed

lemma unser_bytes_InrD:
  assumes "unser_bytes bs = Inr (v, rest)"
  shows "bs = ser_bytes v @ rest \<and> length v \<le> MAX_SIZE"
proof -
  from assms obtain n bs' where n: "ReadCompactSize bs = Inr (n, bs')"
    and "stream_read (unat n) bs' = Inr (v, rest)"
    by (auto simp: unser_bytes_eq)
  then have "bs' = v @ rest" "length v = unat n" by (auto dest: stream_read_InrD)
  with ReadCompactSize_InrD [OF n] show ?thesis by (simp add: ser_bytes_def)
qed

interpretation byte_vec: canonical_serializer ser_bytes unser_bytes "\<lambda>v. length v \<le> MAX_SIZE"
  by unfold_locales (simp add: unser_bytes_ser, rule unser_bytes_InrD)

section \<open>The wire format of lengths and byte vectors\<close>

text \<open>
  C15: \<open>ReadCompactSize\<close> succeeds on a stream exactly when the stream starts with
  \<open>WriteCompactSize\<close> of the number it returns and that number is at most \<open>MAX_SIZE\<close>: the
  length prefix round trips, and every longer encoding of a length is refused.
\<close>

theorem ReadCompactSize_iff:
  "ReadCompactSize bs = Inr (n, rest) \<longleftrightarrow> unat n \<le> MAX_SIZE \<and> bs = WriteCompactSize n @ rest"
  using compact.ser_unser [of bs n rest] compact.unser_ser [of n rest] by blast

text \<open>
  C16: the base-128 encoding of 64-bit numbers is a bijection between numbers and the byte strings
  \<open>ReadVarInt\<close> consumes; \<open>GetSizeOfVarInt\<close> is the length of what \<open>WriteVarInt\<close> writes, and it
  never exceeds the ten bytes of its buffer \<open>tmp[(sizeof(n)*8+6)/7]\<close>.
\<close>

theorem ReadVarInt_iff:
  fixes n :: u64
  shows "(ReadVarInt bs = Inr (n, rest) \<longleftrightarrow> bs = WriteVarInt n @ rest) \<and>
         GetSizeOfVarInt n = length (WriteVarInt n) \<and> length (WriteVarInt n) \<le> (64 + 6) div 7"
proof (intro conjI)
  show "ReadVarInt bs = Inr (n, rest) \<longleftrightarrow> bs = WriteVarInt n @ rest"
    using varint64.ser_unser [of bs n rest] varint64.unser_ser [of n rest] by blast
  show "GetSizeOfVarInt n = length (WriteVarInt n)" by (simp add: length_WriteVarInt)
  show "length (WriteVarInt n) \<le> (64 + 6) div 7"
    using length_varint_tmp [of n 64 True] unat_less_pow [of 64 n] by (simp add: WriteVarInt_def)
qed

text \<open>
  C17: reading a byte vector in blocks of five million bytes accepts exactly the streams that start
  with the serialization of the vector returned, whatever the number of blocks.
\<close>

theorem unser_bytes_iff:
  "unser_bytes bs = Inr (v, rest) \<longleftrightarrow> length v \<le> MAX_SIZE \<and> bs = ser_bytes v @ rest"
  using byte_vec.ser_unser [of bs v rest] byte_vec.unser_ser [of v rest] by blast

end
