(* ===== verification/ExtData.thy ===== *)
theory ExtData
  imports Serialize
begin

text \<open>
  \<open>primitives/extdata.h\<close>: the extension record every lightchain transaction carries (nothing, the
  genesis platform fee, the creation of a sub-chain, or the backup of a sub-chain block), with its
  wire format and its verification. A \<open>std::string\<close> is its bytes; the \<open>boost::any\<close> payload is a
  sum of the types stored in it, and a failed \<open>any_cast\<close> is the error \<open>BadAnyCast\<close>. Amounts
  (\<open>amount.h\<close>) are integers with the range of \<open>int64_t\<close> stated where it matters.
\<close>

section \<open>Amounts, hashes and strings on the wire\<close>

type_synonym CAmount = int

definition COIN :: CAmount where
  "COIN = 100000000"

definition MAX_MONEY :: CAmount where
  "MAX_MONEY = 21000000 * COIN"

definition MoneyRange :: "CAmount \<Rightarrow> bool" where
  "MoneyRange nValue \<longleftrightarrow> nValue \<ge> 0 \<and> nValue \<le> MAX_MONEY"

definition int64_range :: "int \<Rightarrow> bool" where
  "int64_range v \<longleftrightarrow> - (2 ^ 63) \<le> v \<and> v < 2 ^ 63"

definition ser_int64 :: "int \<Rightarrow> bytes" where
  "ser_int64 v = ser_writedata64 (of_int v)"

definition unser_int64 :: "int reader" where
  "unser_int64 = rbind ser_readdata64 (\<lambda>w. rret (sint w))"

definition ser_uint256 :: "uint256 \<Rightarrow> bytes" where
  "ser_uint256 h = le_bytes 32 h"

definition unser_uint256 :: "uint256 reader" where
  "unser_uint256 = rbind (stream_read 32) (\<lambda>bs. rret (le_word bs))"

definition ser_string :: "bytes \<Rightarrow> bytes" where
  "ser_string str = WriteCompactSize (of_nat (length str)) @ (if str = [] then [] else str)"

definition unser_string :: "bytes reader" where
  "unser_string = rbind ReadCompactSize (\<lambda>nSize.
     if nSize \<noteq> 0 then stream_read (unat nSize) else rret [])"

section \<open>The extension data types\<close>

definition EXTDATA_NO :: byte where "EXTDATA_NO = 0"
definition EXTDATA_GENESISCOINBASE :: byte where "EXTDATA_GENESISCOINBASE = 1"
definition EXTDATA_CREATESUBCHAIN :: byte where "EXTDATA_CREATESUBCHAIN = 2"
definition EXTDATA_BACKUPSUBBLOCK :: byte where "EXTDATA_BACKUPSUBBLOCK = 3"

lemmas extdata_type_defs =
  EXTDATA_NO_def EXTDATA_GENESISCOINBASE_def EXTDATA_CREATESUBCHAIN_def EXTDATA_BACKUPSUBBLOCK_def

record CGenesisCoinBaseExt =
  nInitPlatformFee :: CAmount
  platformAddress :: bytes

record CCreateSubChainExt =
  subChainId :: uint256
  subChainOwner :: uint256
  subChainName :: bytes
  subCoinName :: bytes
  subChainSeeds :: "bytes list"
  signature :: bytes

record CBackupSubBlockExt =
  backup_subChainId :: uint256
  subBlockHash :: uint256
  subBlockHeight :: u32
  backup_signature :: bytes

datatype boost_any =
    AnyEmpty
  | AnyGenesis CGenesisCoinBaseExt
  | AnyCreate CCreateSubChainExt
  | AnyBackup CBackupSubBlockExt

record CExtData =
  nExtType :: byte
  ext_any :: boost_any

definition CExtData_default :: CExtData where
  "CExtData_default = \<lparr> nExtType = 0, ext_any = AnyEmpty \<rparr>"

fun any_cast_create :: "boost_any \<Rightarrow> ser_error + CCreateSubChainExt" where
  "any_cast_create (AnyCreate ext) = Inr ext"
| "any_cast_create _ = Inl BadAnyCast"

fun any_cast_backup :: "boost_any \<Rightarrow> ser_error + CBackupSubBlockExt" where
  "any_cast_backup (AnyBackup ext) = Inr ext"
| "any_cast_backup _ = Inl BadAnyCast"

fun any_cast_genesis :: "boost_any \<Rightarrow> ser_error + CGenesisCoinBaseExt" where
  "any_cast_genesis (AnyGenesis ext) = Inr ext"
| "any_cast_genesis _ = Inl BadAnyCast"

definition NeedsToSaveMeta :: "CExtData \<Rightarrow> bool" where
  "NeedsToSaveMeta ext \<longleftrightarrow> (if nExtType ext = EXTDATA_CREATESUBCHAIN then True else False)"

definition GetSubChainId :: "CExtData \<Rightarrow> ser_error + uint256" where
  "GetSubChainId ext =
     (if nExtType ext = EXTDATA_CREATESUBCHAIN
      then sbind (any_cast_create (ext_any ext)) (\<lambda>e. Inr (subChainId e))
      else if nExtType ext = EXTDATA_BACKUPSUBBLOCK
      then sbind (any_cast_backup (ext_any ext)) (\<lambda>e. Inr (backup_subChainId e))
      else Inr 0)"

section \<open>Serialization\<close>

definition ser_genesis :: "CGenesisCoinBaseExt \<Rightarrow> bytes" where
  "ser_genesis e = ser_int64 (nInitPlatformFee e) @ ser_string (platformAddress e)"

definition unser_genesis :: "CGenesisCoinBaseExt reader" where
  "unser_genesis = rbind unser_int64 (\<lambda>fee. rbind unser_string (\<lambda>addr.
     rret \<lparr> nInitPlatformFee = fee, platformAddress = addr \<rparr>))"

definition sizeof_string :: nat where
  "sizeof_string = 32"

definition vector_chunk :: "nat \<Rightarrow> nat" where
  "vector_chunk sizeof = 5000000 div sizeof - 1"

definition ser_create :: "CCreateSubChainExt \<Rightarrow> bytes" where
  "ser_create e = ser_uint256 (subChainId e) @ ser_uint256 (subChainOwner e) @
     ser_string (subChainName e) @ ser_string (subCoinName e) @
     ser_vector ser_string (subChainSeeds e) @ ser_bytes (signature e)"

definition unser_create :: "CCreateSubChainExt reader" where
  "unser_create = rbind unser_uint256 (\<lambda>cid. rbind unser_uint256 (\<lambda>owner.
     rbind unser_string (\<lambda>name. rbind unser_string (\<lambda>coin.
     rbind (unser_vector (vector_chunk sizeof_string) unser_string) (\<lambda>seeds.
     rbind unser_bytes (\<lambda>sig.
       rret \<lparr> subChainId = cid, subChainOwner = owner, subChainName = name, subCoinName = coin,
              subChainSeeds = seeds, signature = sig \<rparr>))))))"

definition ser_backup :: "CBackupSubBlockExt \<Rightarrow> bytes" where
  "ser_backup e = ser_uint256 (backup_subChainId e) @ ser_uint256 (subBlockHash e) @
     ser_writedata32 (subBlockHeight e) @ ser_bytes (backup_signature e)"

definition unser_backup :: "CBackupSubBlockExt reader" where
  "unser_backup = rbind unser_uint256 (\<lambda>cid. rbind unser_uint256 (\<lambda>h.
     rbind ser_readdata32 (\<lambda>height. rbind unser_bytes (\<lambda>sig.
       rret \<lparr> backup_subChainId = cid, subBlockHash = h, subBlockHeight = height,
              backup_signature = sig \<rparr>))))"

definition SerializeExtData :: "CExtData \<Rightarrow> ser_error + bytes" where
  "SerializeExtData extdata =
     (let s = ser_writedata8 (nExtType extdata)
      in if nExtType extdata = EXTDATA_NO then Inr s
         else if nExtType extdata = EXTDATA_GENESISCOINBASE
         then sbind (any_cast_genesis (ext_any extdata)) (\<lambda>ext. Inr (s @ ser_genesis ext))
         else if nExtType extdata = EXTDATA_CREATESUBCHAIN
         then sbind (any_cast_create (ext_any extdata)) (\<lambda>ext. Inr (s @ ser_create ext))
         else if nExtType extdata = EXTDATA_BACKUPSUBBLOCK
         then sbind (any_cast_backup (ext_any extdata)) (\<lambda>ext. Inr (s @ ser_backup ext))
         else Inr s)"

text \<open>Reading into an existing object keeps its payload when the type carries none.\<close>

definition UnserializeExtData :: "CExtData \<Rightarrow> CExtData reader" where
  "UnserializeExtData extdata = rbind ser_readdata8 (\<lambda>t.
     let extdata' = extdata\<lparr> nExtType := t \<rparr>
     in if t = EXTDATA_NO then rret extdata'
        else if t = EXTDATA_GENESISCOINBASE
        then rbind unser_genesis (\<lambda>ext. rret (extdata'\<lparr> ext_any := AnyGenesis ext \<rparr>))
        else if t = EXTDATA_CREATESUBCHAIN
        then rbind unser_create (\<lambda>ext. rret (extdata'\<lparr> ext_any := AnyCreate ext \<rparr>))
        else if t = EXTDATA_BACKUPSUBBLOCK
        then rbind unser_backup (\<lambda>ext. rret (extdata'\<lparr> ext_any := AnyBackup ext \<rparr>))
        else rret extdata')"

section \<open>Verification\<close>

definition CCreateSubChainExt_Verify :: "CCreateSubChainExt \<Rightarrow> bool" where
  "CCreateSubChainExt_Verify ext = False"

definition CBackupSubBlockExt_Verify :: "CBackupSubBlockExt \<Rightarrow> bool" where
  "CBackupSubBlockExt_Verify ext = False"

definition VerifyExtData :: "CExtData \<Rightarrow> ser_error + bool" where
  "VerifyExtData extdata =
     (if nExtType extdata = EXTDATA_NO then Inr True
      else if nExtType extdata = EXTDATA_GENESISCOINBASE then Inr True
      else if nExtType extdata = EXTDATA_CREATESUBCHAIN
      then sbind (any_cast_create (ext_any extdata)) (\<lambda>ext. Inr (CCreateSubChainExt_Verify ext))
      else if nExtType extdata = EXTDATA_BACKUPSUBBLOCK
      then sbind (any_cast_backup (ext_any extdata)) (\<lambda>ext. Inr (CBackupSubBlockExt_Verify ext))
      else Inr False)"

section \<open>Well-formed values\<close>

definition wf_str :: "bytes \<Rightarrow> bool" where
  "wf_str s \<longleftrightarrow> length s \<le> MAX_SIZE"

definition wf_genesis :: "CGenesisCoinBaseExt \<Rightarrow> bool" where
  "wf_genesis e \<longleftrightarrow> int64_range (nInitPlatformFee e) \<and> wf_str (platformAddress e)"

definition wf_create :: "CCreateSubChainExt \<Rightarrow> bool" where
  "wf_create e \<longleftrightarrow> wf_str (subChainName e) \<and> wf_str (subCoinName e) \<and>
     length (subChainSeeds e) \<le> MAX_SIZE \<and> (\<forall>s \<in> set (subChainSeeds e). wf_str s) \<and>
     wf_str (signature e)"

definition wf_backup :: "CBackupSubBlockExt \<Rightarrow> bool" where
  "wf_backup e \<longleftrightarrow> wf_str (backup_signature e)"

fun wf_any :: "byte \<Rightarrow> boost_any \<Rightarrow> bool" where
  "wf_any t AnyEmpty \<longleftrightarrow> t \<notin> {EXTDATA_GENESISCOINBASE, EXTDATA_CREATESUBCHAIN, EXTDATA_BACKUPSUBBLOCK}"
| "wf_any t (AnyGenesis e) \<longleftrightarrow> t = EXTDATA_GENESISCOINBASE \<and> wf_genesis e"
| "wf_any t (AnyCreate e) \<longleftrightarrow> t = EXTDATA_CREATESUBCHAIN \<and> wf_create e"
| "wf_any t (AnyBackup e) \<longleftrightarrow> t = EXTDATA_BACKUPSUBBLOCK \<and> wf_backup e"

definition wf_ext :: "CExtData \<Rightarrow> bool" where
  "wf_ext ext \<longleftrightarrow> wf_any (nExtType ext) (ext_any ext)"

section \<open>The wire format of extension data\<close>

lemma of_int_sint_u64 [simp]: "of_int (sint (w :: u64)) = w"
  by simp

lemma sint_of_int64: "int64_range v \<Longrightarrow> sint (of_int v :: u64) = v"
  by (simp add: int64_range_def signed_of_int signed_take_bit_int_eq_self)

lemma int64_range_sint: "int64_range (sint (w :: u64))"
  using sint_ge [of w] sint_lt [of w] by (simp add: int64_range_def)

interpretation int64_ser: canonical_serializer ser_int64 unser_int64 int64_range
proof unfold_locales
  fix v rest
  assume "int64_range v"
  then show "unser_int64 (ser_int64 v @ rest) = Inr (v, rest)"
    by (simp add: unser_int64_def ser_int64_def sint_of_int64)
next
  fix bs v rest
  assume "unser_int64 bs = Inr (v, rest)"
  then show "bs = ser_int64 v @ rest \<and> int64_range v"
    by (auto simp: unser_int64_def ser_int64_def int64_range_sint dest!: u64_ser.ser_unser elim!: rbind_eq_InrE)
qed

interpretation uint256_ser: canonical_serializer ser_uint256 unser_uint256 "\<lambda>_. True"
proof unfold_locales
  fix v rest
  show "unser_uint256 (ser_uint256 v @ rest) = Inr (v, rest)"
    by (simp add: unser_uint256_def ser_uint256_def)
next
  fix bs v rest
  assume "unser_uint256 bs = Inr (v, rest)"
  then obtain h where h: "stream_read 32 bs = Inr (h, rest)" "v = le_word h"
    by (auto simp: unser_uint256_def)
  then have len: "bs = h @ rest" "length h = 32" by (auto dest: stream_read_InrD)
  then show "bs = ser_uint256 v @ rest \<and> True"
    using le_bytes_le_word [of h, where 'a = 256] h(2) by (simp add: ser_uint256_def)
qed

lemma ser_string_eq: "ser_string = ser_bytes"
  by (rule ext) (simp add: ser_string_def ser_bytes_def)

lemma unser_string_eq: "unser_string = unser_bytes"
proof (rule ext)
  fix bs
  show "unser_string bs = unser_bytes bs"
    by (auto simp: unser_string_def unser_bytes_eq rbind_def split: sum.splits)
qed

interpretation string_ser: canonical_serializer ser_string unser_string wf_str
  unfolding ser_string_eq unser_string_eq wf_str_def by unfold_locales

interpretation genesis_ser: canonical_serializer ser_genesis unser_genesis wf_genesis
proof unfold_locales
  fix e rest
  show "wf_genesis e \<Longrightarrow> unser_genesis (ser_genesis e @ rest) = Inr (e, rest)"
    by (simp add: unser_genesis_def ser_genesis_def wf_genesis_def int64_ser.unser_ser
        string_ser.unser_ser)
next
  fix bs e rest
  show "unser_genesis bs = Inr (e, rest) \<Longrightarrow> bs = ser_genesis e @ rest \<and> wf_genesis e"
    by (auto simp: unser_genesis_def ser_genesis_def wf_genesis_def elim!: rbind_eq_InrE
        dest!: int64_ser.ser_unser string_ser.ser_unser)
qed

interpretation create_ser: canonical_serializer ser_create unser_create wf_create
proof unfold_locales
  fix e rest
  show "wf_create e \<Longrightarrow> unser_create (ser_create e @ rest) = Inr (e, rest)"
    by (simp add: unser_create_def ser_create_def wf_create_def uint256_ser.unser_ser
        string_ser.unser_ser string_ser.unser_ser_vector byte_vec.unser_ser wf_str_def)
next
  fix bs e rest
  show "unser_create bs = Inr (e, rest) \<Longrightarrow> bs = ser_create e @ rest \<and> wf_create e"
    by (auto simp: unser_create_def ser_create_def wf_create_def wf_str_def elim!: rbind_eq_InrE
        dest!: uint256_ser.ser_unser string_ser.ser_unser string_ser.unser_vector_canonical
        byte_vec.ser_unser)
qed

interpretation backup_ser: canonical_serializer ser_backup unser_backup wf_backup
proof unfold_locales
  fix e rest
  show "wf_backup e \<Longrightarrow> unser_backup (ser_backup e @ rest) = Inr (e, rest)"
    by (simp add: unser_backup_def ser_backup_def wf_backup_def uint256_ser.unser_ser
        byte_vec.unser_ser wf_str_def)
next
  fix bs e rest
  show "unser_backup bs = Inr (e, rest) \<Longrightarrow> bs = ser_backup e @ rest \<and> wf_backup e"
    by (auto simp: unser_backup_def ser_backup_def wf_backup_def wf_str_def elim!: rbind_eq_InrE
        dest!: uint256_ser.ser_unser u32_ser.ser_unser byte_vec.ser_unser)
qed

lemma SerializeExtData_total: "wf_ext ext \<Longrightarrow> \<exists>bs. SerializeExtData ext = Inr bs"
  by (cases "ext_any ext") (auto simp: wf_ext_def SerializeExtData_def Let_def extdata_type_defs)

definition ext_bytes :: "CExtData \<Rightarrow> bytes" where
  "ext_bytes ext = projr (SerializeExtData ext)"

lemma SerializeExtData_wf: "wf_ext ext \<Longrightarrow> SerializeExtData ext = Inr (ext_bytes ext)"
  using SerializeExtData_total [of ext] by (auto simp: ext_bytes_def)

interpretation ext_ser: canonical_serializer ext_bytes "UnserializeExtData CExtData_default" wf_ext
proof unfold_locales
  fix ext rest
  assume "wf_ext ext"
  then show "UnserializeExtData CExtData_default (ext_bytes ext @ rest) = Inr (ext, rest)"
    by (cases ext; cases "ext_any ext")
       (auto simp: wf_ext_def ext_bytes_def SerializeExtData_def UnserializeExtData_def
         CExtData_default_def Let_def extdata_type_defs genesis_ser.unser_ser
         create_ser.unser_ser backup_ser.unser_ser)
next
  fix bs ext rest
  assume "UnserializeExtData CExtData_default bs = Inr (ext, rest)"
  then show "bs = ext_bytes ext @ rest \<and> wf_ext ext"
    by (auto simp: UnserializeExtData_def CExtData_default_def Let_def wf_ext_def ext_bytes_def
        SerializeExtData_def extdata_type_defs split: if_splits dest!: u8_ser.ser_unser
        genesis_ser.ser_unser create_ser.ser_unser backup_ser.ser_unser elim!: rbind_eq_InrE)
qed

section \<open>What extension data guarantees\<close>

text \<open>
  C21: extension data is read from a stream exactly when it is well formed and the stream starts with
  its serialization; in particular no \<open>any_cast\<close> fails on data that was read from a stream.
\<close>

theorem UnserializeExtData_iff:
  "UnserializeExtData CExtData_default bs = Inr (ext, rest) \<longleftrightarrow>
     wf_ext ext \<and> (\<exists>s. SerializeExtData ext = Inr s \<and> bs = s @ rest)"
proof
  assume "UnserializeExtData CExtData_default bs = Inr (ext, rest)"
  then have "bs = ext_bytes ext @ rest" "wf_ext ext" by (blast dest: ext_ser.ser_unser)+
  with SerializeExtData_wf [of ext]
  show "wf_ext ext \<and> (\<exists>s. SerializeExtData ext = Inr s \<and> bs = s @ rest)" by blast
next
  assume "wf_ext ext \<and> (\<exists>s. SerializeExtData ext = Inr s \<and> bs = s @ rest)"
  then have "wf_ext ext" "bs = ext_bytes ext @ rest" using SerializeExtData_wf [of ext] by auto
  then show "UnserializeExtData CExtData_default bs = Inr (ext, rest)"
    using ext_ser.unser_ser [of ext rest] by (simp only:)
qed



end
