(* ===== verification/Transaction.thy ===== *)
theory Transaction
  imports ExtData
begin

text \<open>
  \<open>primitives/transaction.h\<close> and \<open>transaction.cpp\<close>: outpoints, inputs, outputs and transactions,
  their wire format with and without witnesses, and the sum of the outputs. \<open>int32_t\<close> fields are
  kept as their 32-bit pattern, amounts as integers in the range of \<open>int64_t\<close>.
\<close>

section \<open>Data\<close>

record COutPoint =
  op_hash :: uint256
  op_n :: u32

definition COutPoint_IsNull :: "COutPoint \<Rightarrow> bool" where
  "COutPoint_IsNull p \<longleftrightarrow> op_hash p = 0 \<and> op_n p = - 1"

record CTxIn =
  prevout :: COutPoint
  scriptSig :: bytes
  nSequence :: u32
  scriptWitness :: "bytes list"

definition SEQUENCE_FINAL :: u32 where "SEQUENCE_FINAL = 0xffffffff"
definition SEQUENCE_LOCKTIME_DISABLE_FLAG :: u32 where "SEQUENCE_LOCKTIME_DISABLE_FLAG = 0x80000000"
definition SEQUENCE_LOCKTIME_TYPE_FLAG :: u32 where "SEQUENCE_LOCKTIME_TYPE_FLAG = 0x00400000"
definition SEQUENCE_LOCKTIME_MASK :: u32 where "SEQUENCE_LOCKTIME_MASK = 0x0000ffff"
definition SEQUENCE_LOCKTIME_GRANULARITY :: nat where "SEQUENCE_LOCKTIME_GRANULARITY = 9"

record CTxOut =
  nValue :: CAmount
  scriptPubKey :: bytes

definition CTxOut_default :: CTxOut where
  "CTxOut_default = \<lparr> nValue = - 1, scriptPubKey = [] \<rparr>"

definition CTxOut_IsNull :: "CTxOut \<Rightarrow> bool" where
  "CTxOut_IsNull out \<longleftrightarrow> nValue out = - 1"

record CTransaction =
  nVersion :: u32
  vin :: "CTxIn list"
  vout :: "CTxOut list"
  nLockTime :: u32
  extData :: CExtData

definition CURRENT_VERSION :: u32 where "CURRENT_VERSION = 2"

definition CTransaction_default :: CTransaction where
  "CTransaction_default =
     \<lparr> nVersion = CURRENT_VERSION, vin = [], vout = [], nLockTime = 0, extData = CExtData_default \<rparr>"

definition HasWitness :: "CTransaction \<Rightarrow> bool" where
  "HasWitness tx \<longleftrightarrow> list_ex (\<lambda>i. scriptWitness i \<noteq> []) (vin tx)"

definition IsCoinBase :: "CTransaction \<Rightarrow> bool" where
  "IsCoinBase tx \<longleftrightarrow> length (vin tx) = 1 \<and> COutPoint_IsNull (prevout (vin tx ! 0))"

definition CTransaction_IsNull :: "CTransaction \<Rightarrow> bool" where
  "CTransaction_IsNull tx \<longleftrightarrow> vin tx = [] \<and> vout tx = []"

section \<open>Serialization of the parts\<close>

definition ser_outpoint :: "COutPoint \<Rightarrow> bytes" where
  "ser_outpoint p = ser_uint256 (op_hash p) @ ser_writedata32 (op_n p)"

definition unser_outpoint :: "COutPoint reader" where
  "unser_outpoint = rbind unser_uint256 (\<lambda>h. rbind ser_readdata32 (\<lambda>i.
     rret \<lparr> op_hash = h, op_n = i \<rparr>))"

definition ser_txin :: "CTxIn \<Rightarrow> bytes" where
  "ser_txin i = ser_outpoint (prevout i) @ ser_bytes (scriptSig i) @ ser_writedata32 (nSequence i)"

definition unser_txin :: "CTxIn reader" where
  "unser_txin = rbind unser_outpoint (\<lambda>p. rbind unser_bytes (\<lambda>s. rbind ser_readdata32 (\<lambda>q.
     rret \<lparr> prevout = p, scriptSig = s, nSequence = q, scriptWitness = [] \<rparr>)))"

definition ser_txout :: "CTxOut \<Rightarrow> bytes" where
  "ser_txout out = ser_int64 (nValue out) @ ser_bytes (scriptPubKey out)"

definition unser_txout :: "CTxOut reader" where
  "unser_txout = rbind unser_int64 (\<lambda>v. rbind unser_bytes (\<lambda>s.
     rret \<lparr> nValue = v, scriptPubKey = s \<rparr>))"

definition sizeof_CTxIn :: nat where "sizeof_CTxIn = 96"
definition sizeof_CTxOut :: nat where "sizeof_CTxOut = 40"
definition sizeof_valtype :: nat where "sizeof_valtype = 24"

definition ser_stack :: "bytes list \<Rightarrow> bytes" where
  "ser_stack = ser_vector ser_bytes"

definition unser_stack :: "bytes list reader" where
  "unser_stack = unser_vector (vector_chunk sizeof_valtype) unser_bytes"

definition unser_vin :: "CTxIn list reader" where
  "unser_vin = unser_vector (vector_chunk sizeof_CTxIn) unser_txin"

definition unser_vout :: "CTxOut list reader" where
  "unser_vout = unser_vector (vector_chunk sizeof_CTxOut) unser_txout"

section \<open>Serialization of transactions\<close>

fun read_witnesses :: "CTxIn list \<Rightarrow> CTxIn list reader" where
  "read_witnesses [] = rret []"
| "read_witnesses (i # is) = rbind unser_stack (\<lambda>w. rbind (read_witnesses is) (\<lambda>is'.
     rret (i\<lparr> scriptWitness := w \<rparr> # is')))"

text \<open>
  Reading a transaction: first the flags, inputs and outputs, then the witnesses the flags announce
  (with the flags still unaccounted for), then the rest, into the object \<open>tx\<close>. \<open>fAllowWitness\<close> is
  the stream's version flag.
\<close>

definition read_vin_vout :: "bool \<Rightarrow> (byte \<times> CTxIn list \<times> CTxOut list) reader" where
  "read_vin_vout fAllowWitness = rbind unser_vin (\<lambda>vin0.
     if vin0 = [] \<and> fAllowWitness
     then rbind ser_readdata8 (\<lambda>flags.
            if flags \<noteq> 0
            then rbind unser_vin (\<lambda>vin1. rbind unser_vout (\<lambda>vout1. rret (flags, vin1, vout1)))
            else rret (flags, vin0, []))
     else rbind unser_vout (\<lambda>vout1. rret (0, vin0, vout1)))"

definition read_optional :: "bool \<Rightarrow> byte \<Rightarrow> CTxIn list \<Rightarrow> (byte \<times> CTxIn list) reader" where
  "read_optional fAllowWitness flags vin1 =
     (if flags AND 1 \<noteq> 0 \<and> fAllowWitness
      then rbind (read_witnesses vin1) (\<lambda>vin2. rret (flags XOR 1, vin2))
      else rret (flags, vin1))"

definition UnserializeTransaction :: "bool \<Rightarrow> CTransaction \<Rightarrow> CTransaction reader" where
  "UnserializeTransaction fAllowWitness tx =
     rbind ser_readdata32 (\<lambda>ver.
     rbind (read_vin_vout fAllowWitness) (\<lambda>(flags, vin1, vout1).
     rbind (read_optional fAllowWitness flags vin1) (\<lambda>(flags', vin2).
     if flags' \<noteq> 0 then rfail UnknownOptionalData
     else rbind ser_readdata32 (\<lambda>lock. rbind (UnserializeExtData (extData tx)) (\<lambda>ext.
            rret (tx\<lparr> nVersion := ver, vin := vin2, vout := vout1, nLockTime := lock,
                      extData := ext \<rparr>))))))"

definition SerializeTransaction :: "bool \<Rightarrow> CTransaction \<Rightarrow> ser_error + bytes" where
  "SerializeTransaction fAllowWitness tx =
     (let flags = (if fAllowWitness \<and> HasWitness tx then 1 else 0 :: byte)
      in sbind (SerializeExtData (extData tx)) (\<lambda>ext.
           Inr (ser_writedata32 (nVersion tx) @
                (if flags \<noteq> 0 then ser_vector ser_txin [] @ ser_writedata8 flags else []) @
                ser_vector ser_txin (vin tx) @ ser_vector ser_txout (vout tx) @
                (if flags AND 1 \<noteq> 0
                 then concat (map (\<lambda>i. ser_stack (scriptWitness i)) (vin tx)) else []) @
                ser_writedata32 (nLockTime tx) @ ext)))"

section \<open>Sum of the outputs\<close>

definition wrap64 :: "int \<Rightarrow> int" where
  "wrap64 v = sint (of_int v :: u64)"

fun value_out_loop :: "CAmount \<Rightarrow> CTxOut list \<Rightarrow> CAmount option" where
  "value_out_loop nValueOut [] = Some nValueOut"
| "value_out_loop nValueOut (tx_out # outs) =
     (let nValueOut' = wrap64 (nValueOut + nValue tx_out)
      in if \<not> MoneyRange (nValue tx_out) \<or> \<not> MoneyRange nValueOut' then None
         else value_out_loop nValueOut' outs)"

definition GetValueOut :: "CTransaction \<Rightarrow> CAmount option" where
  "GetValueOut tx = value_out_loop 0 (vout tx)"

section \<open>Well-formed transactions\<close>

definition wf_txin_base :: "CTxIn \<Rightarrow> bool" where
  "wf_txin_base i \<longleftrightarrow> length (scriptSig i) \<le> MAX_SIZE \<and> scriptWitness i = []"

definition wf_stack :: "bytes list \<Rightarrow> bool" where
  "wf_stack st \<longleftrightarrow> length st \<le> MAX_SIZE \<and> (\<forall>b \<in> set st. length b \<le> MAX_SIZE)"

definition wf_txin :: "CTxIn \<Rightarrow> bool" where
  "wf_txin i \<longleftrightarrow> length (scriptSig i) \<le> MAX_SIZE \<and> wf_stack (scriptWitness i)"

definition wf_txout :: "CTxOut \<Rightarrow> bool" where
  "wf_txout out \<longleftrightarrow> int64_range (nValue out) \<and> length (scriptPubKey out) \<le> MAX_SIZE"

definition wf_tx :: "CTransaction \<Rightarrow> bool" where
  "wf_tx tx \<longleftrightarrow> length (vin tx) \<le> MAX_SIZE \<and> (\<forall>i \<in> set (vin tx). wf_txin i) \<and>
     length (vout tx) \<le> MAX_SIZE \<and> (\<forall>out \<in> set (vout tx). wf_txout out) \<and> wf_ext (extData tx)"

definition strip_in :: "CTxIn \<Rightarrow> CTxIn" where
  "strip_in i = i\<lparr> scriptWitness := [] \<rparr>"

definition strip_witness :: "CTransaction \<Rightarrow> CTransaction" where
  "strip_witness tx = tx\<lparr> vin := map strip_in (vin tx) \<rparr>"

section \<open>The parts meet the serialization contract\<close>

interpretation outpoint_ser: canonical_serializer ser_outpoint unser_outpoint "\<lambda>_. True"
proof unfold_locales
  fix p rest
  show "unser_outpoint (ser_outpoint p @ rest) = Inr (p, rest)"
    by (simp add: unser_outpoint_def ser_outpoint_def uint256_ser.unser_ser)
next
  fix bs p rest
  show "unser_outpoint bs = Inr (p, rest) \<Longrightarrow> bs = ser_outpoint p @ rest \<and> True"
    by (auto simp: unser_outpoint_def ser_outpoint_def elim!: rbind_eq_InrE
        dest!: uint256_ser.ser_unser u32_ser.ser_unser)
qed

interpretation txin_ser: canonical_serializer ser_txin unser_txin wf_txin_base
proof unfold_locales
  fix i rest
  show "wf_txin_base i \<Longrightarrow> unser_txin (ser_txin i @ rest) = Inr (i, rest)"
    by (cases i) (simp add: unser_txin_def ser_txin_def wf_txin_base_def outpoint_ser.unser_ser
        byte_vec.unser_ser)
next
  fix bs i rest
  show "unser_txin bs = Inr (i, rest) \<Longrightarrow> bs = ser_txin i @ rest \<and> wf_txin_base i"
    by (auto simp: unser_txin_def ser_txin_def wf_txin_base_def elim!: rbind_eq_InrE
        dest!: outpoint_ser.ser_unser byte_vec.ser_unser u32_ser.ser_unser)
qed

interpretation txout_ser: canonical_serializer ser_txout unser_txout wf_txout
proof unfold_locales
  fix out rest
  show "wf_txout out \<Longrightarrow> unser_txout (ser_txout out @ rest) = Inr (out, rest)"
    by (simp add: unser_txout_def ser_txout_def wf_txout_def int64_ser.unser_ser
        byte_vec.unser_ser)
next
  fix bs out rest
  show "unser_txout bs = Inr (out, rest) \<Longrightarrow> bs = ser_txout out @ rest \<and> wf_txout out"
    by (auto simp: unser_txout_def ser_txout_def wf_txout_def elim!: rbind_eq_InrE
        dest!: int64_ser.ser_unser byte_vec.ser_unser)
qed

interpretation stack_ser: canonical_serializer ser_stack unser_stack wf_stack
proof unfold_locales
  fix st rest
  show "wf_stack st \<Longrightarrow> unser_stack (ser_stack st @ rest) = Inr (st, rest)"
    by (simp add: unser_stack_def ser_stack_def wf_stack_def byte_vec.unser_ser_vector)
next
  fix bs st rest
  show "unser_stack bs = Inr (st, rest) \<Longrightarrow> bs = ser_stack st @ rest \<and> wf_stack st"
    unfolding unser_stack_def ser_stack_def wf_stack_def
    by (blast dest: byte_vec.unser_vector_canonical)
qed

lemma ser_txin_strip [simp]: "ser_txin (strip_in i) = ser_txin i"
  by (simp add: ser_txin_def strip_in_def)

lemma ser_vector_strip: "ser_vector ser_txin (map strip_in xs) = ser_vector ser_txin xs"
  by (simp add: ser_vector_def comp_def)

lemma strip_in_id: "wf_txin_base i \<Longrightarrow> strip_in i = i"
  by (simp add: wf_txin_base_def strip_in_def)

lemma unser_vin_ser:
  assumes "length xs \<le> MAX_SIZE" "\<forall>i \<in> set xs. wf_txin i"
  shows "unser_vin (ser_vector ser_txin xs @ rest) = Inr (map strip_in xs, rest)"
proof -
  have "\<forall>i \<in> set (map strip_in xs). wf_txin_base i"
    using assms(2) by (auto simp: wf_txin_def wf_txin_base_def strip_in_def)
  then have "unser_vin (ser_vector ser_txin (map strip_in xs) @ rest) = Inr (map strip_in xs, rest)"
    unfolding unser_vin_def using assms(1) by (intro txin_ser.unser_ser_vector) simp_all
  then show ?thesis by (simp only: ser_vector_strip)
qed

lemma unser_vin_InrD:
  "unser_vin bs = Inr (xs, rest) \<Longrightarrow>
     bs = ser_vector ser_txin xs @ rest \<and> length xs \<le> MAX_SIZE \<and> (\<forall>i \<in> set xs. wf_txin_base i)"
  unfolding unser_vin_def by (rule txin_ser.unser_vector_canonical)

lemma unser_vout_ser:
  "length xs \<le> MAX_SIZE \<Longrightarrow> \<forall>out \<in> set xs. wf_txout out \<Longrightarrow>
     unser_vout (ser_vector ser_txout xs @ rest) = Inr (xs, rest)"
  unfolding unser_vout_def by (rule txout_ser.unser_ser_vector)

lemma unser_vout_InrD:
  "unser_vout bs = Inr (xs, rest) \<Longrightarrow>
     bs = ser_vector ser_txout xs @ rest \<and> length xs \<le> MAX_SIZE \<and> (\<forall>out \<in> set xs. wf_txout out)"
  unfolding unser_vout_def by (rule txout_ser.unser_vector_canonical)

definition witness_bytes :: "CTxIn list \<Rightarrow> bytes" where
  "witness_bytes xs = concat (map (\<lambda>i. ser_stack (scriptWitness i)) xs)"

lemma read_witnesses_ser:
  "\<forall>i \<in> set xs. wf_stack (scriptWitness i) \<Longrightarrow>
     read_witnesses (map strip_in xs) (witness_bytes xs @ rest) = Inr (xs, rest)"
  by (induction xs) (simp_all add: witness_bytes_def stack_ser.unser_ser strip_in_def)

lemma read_witnesses_InrD:
  "read_witnesses xs bs = Inr (ys, rest) \<Longrightarrow>
     bs = witness_bytes ys @ rest \<and> map strip_in ys = map strip_in xs \<and>
     (\<forall>i \<in> set ys. wf_stack (scriptWitness i))"
proof (induction xs arbitrary: bs ys)
  case Nil
  then show ?case by (simp add: witness_bytes_def)
next
  case (Cons x xs)
  then obtain w bs' zs where w: "unser_stack bs = Inr (w, bs')"
    and zs: "read_witnesses xs bs' = Inr (zs, rest)" "ys = x\<lparr> scriptWitness := w \<rparr> # zs"
    by (auto elim!: rbind_eq_InrE)
  from stack_ser.ser_unser [OF w] Cons.IH [OF zs(1)] zs(2) show ?case
    by (auto simp: witness_bytes_def strip_in_def)
qed

text \<open>The two serialization formats, for a transaction whose extension data is well formed.\<close>

definition tx_bytes :: "bool \<Rightarrow> CTransaction \<Rightarrow> bytes" where
  "tx_bytes extended tx =
     ser_writedata32 (nVersion tx) @
     (if extended then [0, 1] else []) @
     ser_vector ser_txin (vin tx) @ ser_vector ser_txout (vout tx) @
     (if extended then witness_bytes (vin tx) else []) @
     ser_writedata32 (nLockTime tx) @ ext_bytes (extData tx)"

lemma ser_vector_Nil: "ser_vector f [] = [0]"
  by (simp add: ser_vector_def WriteCompactSize_def ser_writedata8_def)

lemma SerializeTransaction_wf:
  "wf_ext (extData tx) \<Longrightarrow>
     SerializeTransaction allow tx = Inr (tx_bytes (allow \<and> HasWitness tx) tx)"
  by (simp add: SerializeTransaction_def tx_bytes_def SerializeExtData_wf ser_vector_Nil
      ser_writedata8_def witness_bytes_def)

lemma ser_readdata8_Cons [simp]: "ser_readdata8 (b # bs) = Inr (b, bs)"
  using u8_ser.unser_ser [of b bs] by (simp add: ser_writedata8_def)

lemma Unserialize_extended:
  assumes "wf_tx tx" "extData tx0 = CExtData_default"
  shows "UnserializeTransaction True tx0 (tx_bytes True tx @ rest) = Inr (tx, rest)"
proof -
  have nil: "unser_vin (0 # bs) = Inr ([], bs)" for bs
    using unser_vin_ser [of "[]" bs] by (simp add: ser_vector_Nil)
  have "\<forall>i \<in> set (vin tx). wf_stack (scriptWitness i)" using assms(1) by (auto simp: wf_tx_def wf_txin_def)
  then show ?thesis
    using assms
    by (cases tx0; cases tx) (simp add: UnserializeTransaction_def read_vin_vout_def
        read_optional_def tx_bytes_def wf_tx_def nil unser_vin_ser
        unser_vout_ser read_witnesses_ser ext_ser.unser_ser)
qed

lemma Unserialize_basic:
  assumes "wf_tx tx" "extData tx0 = CExtData_default" "allow \<longrightarrow> vin tx \<noteq> [] \<or> vout tx = []"
  shows "UnserializeTransaction allow tx0 (tx_bytes False tx @ rest) = Inr (strip_witness tx, rest)"
proof (cases "allow \<and> vin tx = []")
  case True
  have nil: "unser_vin (0 # bs) = Inr ([], bs)" for bs
    using unser_vin_ser [of "[]" bs] by (simp add: ser_vector_Nil)
  show ?thesis
    using True assms
    by (cases tx0; cases tx) (simp add: UnserializeTransaction_def read_vin_vout_def
        read_optional_def tx_bytes_def wf_tx_def nil
        ser_vector_Nil ext_ser.unser_ser strip_witness_def)
next
  case False
  then show ?thesis
    using assms
    by (cases tx0; cases tx) (auto simp: UnserializeTransaction_def read_vin_vout_def
        read_optional_def tx_bytes_def wf_tx_def unser_vin_ser
        unser_vout_ser ext_ser.unser_ser strip_witness_def)
qed

lemma flags_XOR_1: "(flags :: byte) XOR 1 = 0 \<longleftrightarrow> flags = 1"
proof
  assume zero: "flags XOR 1 = 0"
  have "flags = (flags XOR 1) XOR 1" by (simp only: xor.assoc xor_self_eq xor.right_neutral)
  then show "flags = 1" unfolding zero by simp
qed simp

lemma wf_txin_of_strip:
  "map strip_in ys = map strip_in xs \<Longrightarrow> \<forall>i \<in> set xs. wf_txin_base i \<Longrightarrow>
     \<forall>i \<in> set ys. wf_stack (scriptWitness i) \<Longrightarrow> \<forall>i \<in> set ys. wf_txin i"
proof (induction ys arbitrary: xs)
  case (Cons y ys)
  then obtain x xs' where xs: "xs = x # xs'" "strip_in y = strip_in x" by auto
  then have "scriptSig (strip_in y) = scriptSig (strip_in x)" by simp
  then have "scriptSig y = scriptSig x" by (simp add: strip_in_def)
  with Cons xs show ?case by (auto simp: wf_txin_def wf_txin_base_def)
qed simp

lemma read_vin_vout_InrD:
  assumes "read_vin_vout allow bs = Inr ((flags, ins, outs), rest)"
  shows "(\<forall>i \<in> set ins. wf_txin_base i) \<and> length ins \<le> MAX_SIZE \<and>
         (\<forall>out \<in> set outs. wf_txout out) \<and> length outs \<le> MAX_SIZE \<and>
         (if flags = 0 then bs = ser_vector ser_txin ins @ ser_vector ser_txout outs @ rest
          else allow \<and> bs = 0 # flags # ser_vector ser_txin ins @ ser_vector ser_txout outs @ rest)"
proof -
  from assms obtain vin0 bs0 where vin0: "unser_vin bs = Inr (vin0, bs0)" and
    tail: "(if vin0 = [] \<and> allow
     then rbind ser_readdata8 (\<lambda>flags.
            if flags \<noteq> 0
            then rbind unser_vin (\<lambda>vin1. rbind unser_vout (\<lambda>vout1. rret (flags, vin1, vout1)))
            else rret (flags, vin0, []))
     else rbind unser_vout (\<lambda>vout1. rret (0, vin0, vout1))) bs0 = Inr ((flags, ins, outs), rest)"
    unfolding read_vin_vout_def by (rule rbind_eq_InrE)
  note v0 = unser_vin_InrD [OF vin0]
  show ?thesis
  proof (cases "vin0 = [] \<and> allow")
    case False
    with tail have "unser_vout bs0 = Inr (outs, rest)" "ins = vin0" "flags = 0"
      by (auto elim!: rbind_eq_InrE)
    with v0 show ?thesis using unser_vout_InrD [of bs0 outs rest] by auto
  next
    case True
    with tail obtain bs1 where flags: "ser_readdata8 bs0 = Inr (flags, bs1)" and
      tail': "(if flags \<noteq> 0
            then rbind unser_vin (\<lambda>vin1. rbind unser_vout (\<lambda>vout1. rret (flags, vin1, vout1)))
            else rret (flags, [], [])) bs1 = Inr ((flags, ins, outs), rest)"
      by (auto elim!: rbind_eq_InrE split: if_splits)
    have bs: "bs = 0 # flags # bs1"
      using v0 u8_ser.ser_unser [OF flags] True by (simp add: ser_vector_Nil ser_writedata8_def)
    show ?thesis
    proof (cases "flags = 0")
      case z: True
      then have "ins = []" "outs = []" "rest = bs1" using tail' by auto
      then show ?thesis using bs z by (simp add: ser_vector_Nil)
    next
      case False
      with tail' obtain bs2 where "unser_vin bs1 = Inr (ins, bs2)" "unser_vout bs2 = Inr (outs, rest)"
        by (auto elim!: rbind_eq_InrE)
      with bs False True show ?thesis
        using unser_vin_InrD [of bs1 ins bs2] unser_vout_InrD [of bs2 outs rest] by simp
    qed
  qed
qed

lemma read_optional_InrD:
  assumes "read_optional allow flags ins bs = Inr ((0, ins'), rest)"
  shows "(flags = 0 \<and> ins' = ins \<and> bs = rest) \<or>
         (flags = 1 \<and> allow \<and> read_witnesses ins bs = Inr (ins', rest))"
  using assms by (auto simp: read_optional_def flags_XOR_1 elim!: rbind_eq_InrE split: if_splits)

lemma Unserialize_InrD:
  assumes "UnserializeTransaction allow tx0 bs = Inr (tx, rest)" "extData tx0 = CExtData_default"
  shows "wf_tx tx \<and> ((\<not> HasWitness tx \<and> bs = tx_bytes False tx @ rest) \<or>
                    (allow \<and> bs = tx_bytes True tx @ rest))"
proof -
  from assms(1) obtain ver bs0 flags ins0 outs bs1 ins bs2 lock bs3 ext where
    r: "ser_readdata32 bs = Inr (ver, bs0)" "read_vin_vout allow bs0 = Inr ((flags, ins0, outs), bs1)"
       "read_optional allow flags ins0 bs1 = Inr ((0, ins), bs2)"
       "ser_readdata32 bs2 = Inr (lock, bs3)"
       "UnserializeExtData (extData tx0) bs3 = Inr (ext, rest)" and
    tx: "tx = tx0\<lparr> nVersion := ver, vin := ins, vout := outs, nLockTime := lock, extData := ext \<rparr>"
    by (auto simp: UnserializeTransaction_def elim!: rbind_eq_InrE split: if_splits)
  note v = read_vin_vout_InrD [OF r(2)]
  have ext: "bs3 = ext_bytes ext @ rest" "wf_ext ext"
    using ext_ser.ser_unser [of bs3 ext rest] r(5) assms(2) by auto
  have eq: "bs = ser_writedata32 ver @ bs0" "bs2 = ser_writedata32 lock @ bs3"
    using u32_ser.ser_unser [OF r(1)] u32_ser.ser_unser [OF r(4)] by auto
  from read_optional_InrD [OF r(3)] show ?thesis
  proof
    assume "flags = 0 \<and> ins = ins0 \<and> bs1 = bs2"
    then show ?thesis using v ext eq
      by (auto simp: tx wf_tx_def tx_bytes_def HasWitness_def list_ex_iff wf_txin_base_def
          wf_txin_def wf_stack_def)
  next
    assume wit: "flags = 1 \<and> allow \<and> read_witnesses ins0 bs1 = Inr (ins, bs2)"
    then have w: "bs1 = witness_bytes ins @ bs2" "map strip_in ins = map strip_in ins0"
      "\<forall>i \<in> set ins. wf_stack (scriptWitness i)"
      using read_witnesses_InrD [of ins0 bs1 ins bs2] by auto
    then have "length ins = length ins0" by (metis length_map)
    moreover have "ser_vector ser_txin ins = ser_vector ser_txin ins0"
      using w(2) by (metis ser_vector_strip)
    moreover have "\<forall>i \<in> set ins. wf_txin i" using v w wf_txin_of_strip by blast
    ultimately show ?thesis using v w wit ext eq by (simp add: tx wf_tx_def tx_bytes_def)
  qed
qed

lemma strip_witness_id: "\<not> HasWitness tx \<Longrightarrow> strip_witness tx = tx"
  by (auto simp: strip_witness_def strip_in_def HasWitness_def list_ex_iff
      intro!: map_idI CTransaction.equality)

lemma wrap64_id: "int64_range v \<Longrightarrow> wrap64 v = v"
  by (simp add: wrap64_def sint_of_int64)

lemma MoneyRange_add_int64: "MoneyRange a \<Longrightarrow> MoneyRange b \<Longrightarrow> int64_range (a + b)"
  by (simp add: MoneyRange_def int64_range_def MAX_MONEY_def COIN_def)

lemma value_out_loop_iff:
  "MoneyRange a \<Longrightarrow>
     value_out_loop a outs = Some v \<longleftrightarrow>
       (\<forall>out \<in> set outs. MoneyRange (nValue out)) \<and> v = a + (\<Sum>out \<leftarrow> outs. nValue out) \<and> v \<le> MAX_MONEY"
proof (induction outs arbitrary: a)
  case Nil
  then show ?case by (auto simp: MoneyRange_def)
next
  case (Cons out outs)
  show ?case
  proof (cases "MoneyRange (nValue out)")
    case True
    then have wrap: "wrap64 (a + nValue out) = a + nValue out"
      using Cons.prems by (simp add: wrap64_id MoneyRange_add_int64)
    have pos: "\<forall>o' \<in> set outs. MoneyRange (nValue o') \<Longrightarrow> 0 \<le> (\<Sum>o' \<leftarrow> outs. nValue o')"
      by (intro sum_list_nonneg) (auto simp: MoneyRange_def)
    show ?thesis
    proof (cases "MoneyRange (a + nValue out)")
      case m: True
      show ?thesis using Cons.IH [OF m] True m by (auto simp: wrap Let_def)
    next
      case False
      then have "a + nValue out > MAX_MONEY"
        using True Cons.prems by (auto simp: MoneyRange_def)
      then show ?thesis using True False pos by (auto simp: wrap Let_def)
    qed
  qed (simp add: Let_def)
qed

section \<open>What transactions guarantee\<close>

text \<open>
  C23: a well-formed transaction can be serialized and read back: with witnesses it is unchanged,
  without them it loses exactly its witnesses. The one exception is a transaction without inputs
  but with outputs, whose basic format a witness-aware reader takes for the extended one.
\<close>

theorem transaction_roundtrip:
  assumes "wf_tx tx" "allow \<longrightarrow> vin tx \<noteq> [] \<or> vout tx = []"
  shows "\<exists>bs. SerializeTransaction allow tx = Inr bs \<and>
           UnserializeTransaction allow CTransaction_default (bs @ rest)
             = Inr (if allow then tx else strip_witness tx, rest)"
proof -
  have ext: "extData CTransaction_default = CExtData_default" by (simp add: CTransaction_default_def)
  have "SerializeTransaction allow tx = Inr (tx_bytes (allow \<and> HasWitness tx) tx)"
    using assms(1) by (intro SerializeTransaction_wf) (simp add: wf_tx_def)
  moreover have "UnserializeTransaction allow CTransaction_default
      (tx_bytes (allow \<and> HasWitness tx) tx @ rest) = Inr (if allow then tx else strip_witness tx, rest)"
    using Unserialize_extended [OF assms(1) ext, of rest]
      Unserialize_basic [OF assms(1) ext assms(2), of rest] strip_witness_id [of tx]
    by (cases "HasWitness tx") auto
  ultimately show ?thesis by blast
qed

theorem transaction_roundtrip_witness:
  "\<exists>bs. SerializeTransaction True
       \<lparr> nVersion = 2,
         vin = [\<lparr> prevout = \<lparr> op_hash = 5, op_n = 0 \<rparr>, scriptSig = [], nSequence = 7, scriptWitness = [[1, 2]] \<rparr>],
         vout = [\<lparr> nValue = 50, scriptPubKey = [0x51] \<rparr>], nLockTime = 0,
         extData = CExtData_default \<rparr> = Inr bs"
  using transaction_roundtrip [of "\<lparr> nVersion = 2,
         vin = [\<lparr> prevout = \<lparr> op_hash = 5, op_n = 0 \<rparr>, scriptSig = [], nSequence = 7, scriptWitness = [[1, 2]] \<rparr>],
         vout = [\<lparr> nValue = 50, scriptPubKey = [0x51] \<rparr>], nLockTime = 0,
         extData = CExtData_default \<rparr>" True "[]"]
  by (auto simp: wf_tx_def wf_txin_def wf_stack_def wf_txout_def int64_range_def wf_ext_def
      CExtData_default_def MAX_SIZE_def extdata_type_defs)



text \<open>
  C25: \<open>GetValueOut\<close> returns the true sum of the outputs and never wraps around: it succeeds exactly
  when every output and the sum are between zero and \<open>MAX_MONEY\<close>.
\<close>

theorem GetValueOut_iff:
  "GetValueOut tx = Some v \<longleftrightarrow>
     list_all (\<lambda>out. MoneyRange (nValue out)) (vout tx) \<and>
     v = (\<Sum>out \<leftarrow> vout tx. nValue out) \<and> v \<le> MAX_MONEY"
  using value_out_loop_iff [of 0 "vout tx" v]
  by (simp add: GetValueOut_def list_all_iff MoneyRange_def MAX_MONEY_def COIN_def)

end
