(* ===== verification/Opcodes.thy ===== *)
theory Opcodes
  imports Prelude
begin

text \<open>
  The constants of the script language: the opcodes of \<open>script/script.h\<close>, the verification
  flags and signature versions of \<open>script/interpreter.h\<close>, the error codes of
  \<open>script/script_error.h\<close> and the size limits. An \<open>opcodetype\<close> is a byte: the parser
  casts any byte read to the enumeration, so the values without a name occur as well.
\<close>

section \<open>Opcodes\<close>

definition OP_0 :: byte where [simp]: "OP_0 = 0x00"

definition OP_FALSE :: byte where [simp]: "OP_FALSE = OP_0"

definition OP_PUSHDATA1 :: byte where [simp]: "OP_PUSHDATA1 = 0x4c"

definition OP_PUSHDATA2 :: byte where [simp]: "OP_PUSHDATA2 = 0x4d"

definition OP_PUSHDATA4 :: byte where [simp]: "OP_PUSHDATA4 = 0x4e"

definition OP_1NEGATE :: byte where [simp]: "OP_1NEGATE = 0x4f"

definition OP_RESERVED :: byte where [simp]: "OP_RESERVED = 0x50"

definition OP_1 :: byte where [simp]: "OP_1 = 0x51"

definition OP_TRUE :: byte where [simp]: "OP_TRUE = OP_1"

definition OP_2 :: byte where [simp]: "OP_2 = 0x52"

definition OP_3 :: byte where [simp]: "OP_3 = 0x53"

definition OP_4 :: byte where [simp]: "OP_4 = 0x54"

definition OP_5 :: byte where [simp]: "OP_5 = 0x55"

definition OP_6 :: byte where [simp]: "OP_6 = 0x56"

definition OP_7 :: byte where [simp]: "OP_7 = 0x57"

definition OP_8 :: byte where [simp]: "OP_8 = 0x58"

definition OP_9 :: byte where [simp]: "OP_9 = 0x59"

definition OP_10 :: byte where [simp]: "OP_10 = 0x5a"

definition OP_11 :: byte where [simp]: "OP_11 = 0x5b"

definition OP_12 :: byte where [simp]: "OP_12 = 0x5c"

definition OP_13 :: byte where [simp]: "OP_13 = 0x5d"

definition OP_14 :: byte where [simp]: "OP_14 = 0x5e"

definition OP_15 :: byte where [simp]: "OP_15 = 0x5f"

definition OP_16 :: byte where [simp]: "OP_16 = 0x60"

definition OP_NOP :: byte where [simp]: "OP_NOP = 0x61"

definition OP_VER :: byte where [simp]: "OP_VER = 0x62"

definition OP_IF :: byte where [simp]: "OP_IF = 0x63"

definition OP_NOTIF :: byte where [simp]: "OP_NOTIF = 0x64"

definition OP_VERIF :: byte where [simp]: "OP_VERIF = 0x65"

definition OP_VERNOTIF :: byte where [simp]: "OP_VERNOTIF = 0x66"

definition OP_ELSE :: byte where [simp]: "OP_ELSE = 0x67"

definition OP_ENDIF :: byte where [simp]: "OP_ENDIF = 0x68"

definition OP_VERIFY :: byte where [simp]: "OP_VERIFY = 0x69"

definition OP_RETURN :: byte where [simp]: "OP_RETURN = 0x6a"

definition OP_TOALTSTACK :: byte where [simp]: "OP_TOALTSTACK = 0x6b"

definition OP_FROMALTSTACK :: byte where [simp]: "OP_FROMALTSTACK = 0x6c"

definition OP_2DROP :: byte where [simp]: "OP_2DROP = 0x6d"

definition OP_2DUP :: byte where [simp]: "OP_2DUP = 0x6e"

definition OP_3DUP :: byte where [simp]: "OP_3DUP = 0x6f"

definition OP_2OVER :: byte where [simp]: "OP_2OVER = 0x70"

definition OP_2ROT :: byte where [simp]: "OP_2ROT = 0x71"

definition OP_2SWAP :: byte where [simp]: "OP_2SWAP = 0x72"

definition OP_IFDUP :: byte where [simp]: "OP_IFDUP = 0x73"

definition OP_DEPTH :: byte where [simp]: "OP_DEPTH = 0x74"

definition OP_DROP :: byte where [simp]: "OP_DROP = 0x75"

definition OP_DUP :: byte where [simp]: "OP_DUP = 0x76"

definition OP_NIP :: byte where [simp]: "OP_NIP = 0x77"

definition OP_OVER :: byte where [simp]: "OP_OVER = 0x78"

definition OP_PICK :: byte where [simp]: "OP_PICK = 0x79"

definition OP_ROLL :: byte where [simp]: "OP_ROLL = 0x7a"

definition OP_ROT :: byte where [simp]: "OP_ROT = 0x7b"

definition OP_SWAP :: byte where [simp]: "OP_SWAP = 0x7c"

definition OP_TUCK :: byte where [simp]: "OP_TUCK = 0x7d"

definition OP_CAT :: byte where [simp]: "OP_CAT = 0x7e"

definition OP_SUBSTR :: byte where [simp]: "OP_SUBSTR = 0x7f"

definition OP_LEFT :: byte where [simp]: "OP_LEFT = 0x80"

definition OP_RIGHT :: byte where [simp]: "OP_RIGHT = 0x81"

definition OP_SIZE :: byte where [simp]: "OP_SIZE = 0x82"

definition OP_INVERT :: byte where [simp]: "OP_INVERT = 0x83"

definition OP_AND :: byte where [simp]: "OP_AND = 0x84"

definition OP_OR :: byte where [simp]: "OP_OR = 0x85"

definition OP_XOR :: byte where [simp]: "OP_XOR = 0x86"

definition OP_EQUAL :: byte where [simp]: "OP_EQUAL = 0x87"

definition OP_EQUALVERIFY :: byte where [simp]: "OP_EQUALVERIFY = 0x88"

definition OP_RESERVED1 :: byte where [simp]: "OP_RESERVED1 = 0x89"

definition OP_RESERVED2 :: byte where [simp]: "OP_RESERVED2 = 0x8a"

definition OP_1ADD :: byte where [simp]: "OP_1ADD = 0x8b"

definition OP_1SUB :: byte where [simp]: "OP_1SUB = 0x8c"

definition OP_2MUL :: byte where [simp]: "OP_2MUL = 0x8d"

definition OP_2DIV :: byte where [simp]: "OP_2DIV = 0x8e"

definition OP_NEGATE :: byte where [simp]: "OP_NEGATE = 0x8f"

definition OP_ABS :: byte where [simp]: "OP_ABS = 0x90"

definition OP_NOT :: byte where [simp]: "OP_NOT = 0x91"

definition OP_0NOTEQUAL :: byte where [simp]: "OP_0NOTEQUAL = 0x92"

definition OP_ADD :: byte where [simp]: "OP_ADD = 0x93"

definition OP_SUB :: byte where [simp]: "OP_SUB = 0x94"

definition OP_MUL :: byte where [simp]: "OP_MUL = 0x95"

definition OP_DIV :: byte where [simp]: "OP_DIV = 0x96"

definition OP_MOD :: byte where [simp]: "OP_MOD = 0x97"

definition OP_LSHIFT :: byte where [simp]: "OP_LSHIFT = 0x98"

definition OP_RSHIFT :: byte where [simp]: "OP_RSHIFT = 0x99"

definition OP_BOOLAND :: byte where [simp]: "OP_BOOLAND = 0x9a"

definition OP_BOOLOR :: byte where [simp]: "OP_BOOLOR = 0x9b"

definition OP_NUMEQUAL :: byte where [simp]: "OP_NUMEQUAL = 0x9c"

definition OP_NUMEQUALVERIFY :: byte where [simp]: "OP_NUMEQUALVERIFY = 0x9d"

definition OP_NUMNOTEQUAL :: byte where [simp]: "OP_NUMNOTEQUAL = 0x9e"

definition OP_LESSTHAN :: byte where [simp]: "OP_LESSTHAN = 0x9f"

definition OP_GREATERTHAN :: byte where [simp]: "OP_GREATERTHAN = 0xa0"

definition OP_LESSTHANOREQUAL :: byte where [simp]: "OP_LESSTHANOREQUAL = 0xa1"

definition OP_GREATERTHANOREQUAL :: byte where [simp]: "OP_GREATERTHANOREQUAL = 0xa2"

definition OP_MIN :: byte where [simp]: "OP_MIN = 0xa3"

definition OP_MAX :: byte where [simp]: "OP_MAX = 0xa4"

definition OP_WITHIN :: byte where [simp]: "OP_WITHIN = 0xa5"

definition OP_RIPEMD160 :: byte where [simp]: "OP_RIPEMD160 = 0xa6"

definition OP_SHA1 :: byte where [simp]: "OP_SHA1 = 0xa7"

definition OP_SHA256 :: byte where [simp]: "OP_SHA256 = 0xa8"

definition OP_HASH160 :: byte where [simp]: "OP_HASH160 = 0xa9"

definition OP_HASH256 :: byte where [simp]: "OP_HASH256 = 0xaa"

definition OP_CODESEPARATOR :: byte where [simp]: "OP_CODESEPARATOR = 0xab"

definition OP_CHECKSIG :: byte where [simp]: "OP_CHECKSIG = 0xac"

definition OP_CHECKSIGVERIFY :: byte where [simp]: "OP_CHECKSIGVERIFY = 0xad"

definition OP_CHECKMULTISIG :: byte where [simp]: "OP_CHECKMULTISIG = 0xae"

definition OP_CHECKMULTISIGVERIFY :: byte where [simp]: "OP_CHECKMULTISIGVERIFY = 0xaf"

definition OP_NOP1 :: byte where [simp]: "OP_NOP1 = 0xb0"

definition OP_CHECKLOCKTIMEVERIFY :: byte where [simp]: "OP_CHECKLOCKTIMEVERIFY = 0xb1"

definition OP_NOP2 :: byte where [simp]: "OP_NOP2 = OP_CHECKLOCKTIMEVERIFY"

definition OP_CHECKSEQUENCEVERIFY :: byte where [simp]: "OP_CHECKSEQUENCEVERIFY = 0xb2"

definition OP_NOP3 :: byte where [simp]: "OP_NOP3 = OP_CHECKSEQUENCEVERIFY"

definition OP_NOP4 :: byte where [simp]: "OP_NOP4 = 0xb3"

definition OP_NOP5 :: byte where [simp]: "OP_NOP5 = 0xb4"

definition OP_NOP6 :: byte where [simp]: "OP_NOP6 = 0xb5"

definition OP_NOP7 :: byte where [simp]: "OP_NOP7 = 0xb6"

definition OP_NOP8 :: byte where [simp]: "OP_NOP8 = 0xb7"

definition OP_NOP9 :: byte where [simp]: "OP_NOP9 = 0xb8"

definition OP_NOP10 :: byte where [simp]: "OP_NOP10 = 0xb9"

definition OP_SMALLINTEGER :: byte where [simp]: "OP_SMALLINTEGER = 0xfa"

definition OP_PUBKEYS :: byte where [simp]: "OP_PUBKEYS = 0xfb"

definition OP_PUBKEYHASH :: byte where [simp]: "OP_PUBKEYHASH = 0xfd"

definition OP_PUBKEY :: byte where [simp]: "OP_PUBKEY = 0xfe"

definition OP_INVALIDOPCODE :: byte where [simp]: "OP_INVALIDOPCODE = 0xff"

section \<open>Verification flags\<close>

definition SCRIPT_VERIFY_NONE :: u32 where [simp]: "SCRIPT_VERIFY_NONE = 0"

definition SCRIPT_VERIFY_P2SH :: u32 where [simp]: "SCRIPT_VERIFY_P2SH = 0x1"

definition SCRIPT_VERIFY_STRICTENC :: u32 where [simp]: "SCRIPT_VERIFY_STRICTENC = 0x2"

definition SCRIPT_VERIFY_DERSIG :: u32 where [simp]: "SCRIPT_VERIFY_DERSIG = 0x4"

definition SCRIPT_VERIFY_LOW_S :: u32 where [simp]: "SCRIPT_VERIFY_LOW_S = 0x8"

definition SCRIPT_VERIFY_NULLDUMMY :: u32 where [simp]: "SCRIPT_VERIFY_NULLDUMMY = 0x10"

definition SCRIPT_VERIFY_SIGPUSHONLY :: u32 where [simp]: "SCRIPT_VERIFY_SIGPUSHONLY = 0x20"

definition SCRIPT_VERIFY_MINIMALDATA :: u32 where [simp]: "SCRIPT_VERIFY_MINIMALDATA = 0x40"

definition SCRIPT_VERIFY_DISCOURAGE_UPGRADABLE_NOPS :: u32 where [simp]: "SCRIPT_VERIFY_DISCOURAGE_UPGRADABLE_NOPS = 0x80"

definition SCRIPT_VERIFY_CLEANSTACK :: u32 where [simp]: "SCRIPT_VERIFY_CLEANSTACK = 0x100"

definition SCRIPT_VERIFY_CHECKLOCKTIMEVERIFY :: u32 where [simp]: "SCRIPT_VERIFY_CHECKLOCKTIMEVERIFY = 0x200"

definition SCRIPT_VERIFY_CHECKSEQUENCEVERIFY :: u32 where [simp]: "SCRIPT_VERIFY_CHECKSEQUENCEVERIFY = 0x400"

definition SCRIPT_VERIFY_WITNESS :: u32 where [simp]: "SCRIPT_VERIFY_WITNESS = 0x800"

definition SCRIPT_VERIFY_DISCOURAGE_UPGRADABLE_WITNESS_PROGRAM :: u32 where [simp]: "SCRIPT_VERIFY_DISCOURAGE_UPGRADABLE_WITNESS_PROGRAM = 0x1000"

definition SCRIPT_VERIFY_MINIMALIF :: u32 where [simp]: "SCRIPT_VERIFY_MINIMALIF = 0x2000"

definition SCRIPT_VERIFY_NULLFAIL :: u32 where [simp]: "SCRIPT_VERIFY_NULLFAIL = 0x4000"

definition SCRIPT_VERIFY_WITNESS_PUBKEYTYPE :: u32 where [simp]: "SCRIPT_VERIFY_WITNESS_PUBKEYTYPE = 0x8000"

definition flag_set :: "u32 \<Rightarrow> u32 \<Rightarrow> bool" where
  "flag_set flags f \<longleftrightarrow> flags AND f \<noteq> 0"

section \<open>Error codes and signature versions\<close>

datatype ScriptError =
    SCRIPT_ERR_OK
  | SCRIPT_ERR_UNKNOWN_ERROR
  | SCRIPT_ERR_EVAL_FALSE
  | SCRIPT_ERR_OP_RETURN
  | SCRIPT_ERR_SCRIPT_SIZE
  | SCRIPT_ERR_PUSH_SIZE
  | SCRIPT_ERR_OP_COUNT
  | SCRIPT_ERR_STACK_SIZE
  | SCRIPT_ERR_SIG_COUNT
  | SCRIPT_ERR_PUBKEY_COUNT
  | SCRIPT_ERR_VERIFY
  | SCRIPT_ERR_EQUALVERIFY
  | SCRIPT_ERR_CHECKMULTISIGVERIFY
  | SCRIPT_ERR_CHECKSIGVERIFY
  | SCRIPT_ERR_NUMEQUALVERIFY
  | SCRIPT_ERR_BAD_OPCODE
  | SCRIPT_ERR_DISABLED_OPCODE
  | SCRIPT_ERR_INVALID_STACK_OPERATION
  | SCRIPT_ERR_INVALID_ALTSTACK_OPERATION
  | SCRIPT_ERR_UNBALANCED_CONDITIONAL
  | SCRIPT_ERR_NEGATIVE_LOCKTIME
  | SCRIPT_ERR_UNSATISFIED_LOCKTIME
  | SCRIPT_ERR_SIG_HASHTYPE
  | SCRIPT_ERR_SIG_DER
  | SCRIPT_ERR_MINIMALDATA
  | SCRIPT_ERR_SIG_PUSHONLY
  | SCRIPT_ERR_SIG_HIGH_S
  | SCRIPT_ERR_SIG_NULLDUMMY
  | SCRIPT_ERR_PUBKEYTYPE
  | SCRIPT_ERR_CLEANSTACK
  | SCRIPT_ERR_MINIMALIF
  | SCRIPT_ERR_SIG_NULLFAIL
  | SCRIPT_ERR_DISCOURAGE_UPGRADABLE_NOPS
  | SCRIPT_ERR_DISCOURAGE_UPGRADABLE_WITNESS_PROGRAM
  | SCRIPT_ERR_WITNESS_PROGRAM_WRONG_LENGTH
  | SCRIPT_ERR_WITNESS_PROGRAM_WITNESS_EMPTY
  | SCRIPT_ERR_WITNESS_PROGRAM_MISMATCH
  | SCRIPT_ERR_WITNESS_MALLEATED
  | SCRIPT_ERR_WITNESS_MALLEATED_P2SH
  | SCRIPT_ERR_WITNESS_UNEXPECTED
  | SCRIPT_ERR_WITNESS_PUBKEYTYPE
  | SCRIPT_ERR_ERROR_COUNT

datatype SigVersion = SIGVERSION_BASE | SIGVERSION_WITNESS_V0

section \<open>Limits\<close>

definition MAX_SCRIPT_ELEMENT_SIZE :: nat where "MAX_SCRIPT_ELEMENT_SIZE = 520"

definition MAX_OPS_PER_SCRIPT :: int where "MAX_OPS_PER_SCRIPT = 201"

definition MAX_PUBKEYS_PER_MULTISIG :: int where "MAX_PUBKEYS_PER_MULTISIG = 20"

definition MAX_SCRIPT_SIZE :: nat where "MAX_SCRIPT_SIZE = 10000"

definition MAX_STACK_SIZE :: nat where "MAX_STACK_SIZE = 1000"

definition LOCKTIME_THRESHOLD :: int where "LOCKTIME_THRESHOLD = 500000000"

definition MAX_OPCODE :: byte where "MAX_OPCODE = OP_NOP10"

section \<open>Reading flags\<close>

lemma flag_set_mono:
  assumes "flags AND flags' = flags" and "flag_set flags f"
  shows "flag_set flags' f"
proof -
  obtain i where "bit (flags AND f) i"
    using assms(2) by (metis bit_eqI bit_0_eq bot_apply bot_bool_def flag_set_def)
  then have "bit (flags AND flags') i" "bit f i" using assms(1) by (auto simp: bit_and_iff)
  then have "bit (flags' AND f) i" by (simp add: bit_and_iff)
  then show ?thesis by (auto simp: flag_set_def)
qed

end
