(* ===== verification/Script.thy ===== *)
theory Script
  imports Opcodes "HOL-Library.Sublist"
begin

text \<open>
  \<open>script/script.h\<close> and \<open>script/script.cpp\<close>: script numbers (\<open>CScriptNum\<close>), reading and
  appending instructions, \<open>FindAndDelete\<close>, signature-operation counting and the script
  templates. A script is its byte string; an iterator into it is the suffix still to be read.
\<close>

section \<open>Script numbers\<close>

datatype scriptnum_error = ScriptNumOverflow | ScriptNumNonMinimal

text \<open>The loop of \<open>CScriptNum::serialize\<close> that peels off the low bytes of \<open>absvalue\<close>.\<close>

function abs_bytes :: "u64 \<Rightarrow> bytes" where
  "abs_bytes absvalue =
     (if absvalue = 0 then [] else ucast (absvalue AND 0xff) # abs_bytes (drop_bit 8 absvalue))"
  by pat_completeness auto
termination
  by (relation "measure unat") (auto simp: unat_drop_bit unat_gt_0)

declare abs_bytes.simps [simp del]

definition serialize :: "int \<Rightarrow> bytes" where
  "serialize value =
     (if value = 0 then []
      else let neg = value < 0;
               absvalue = (if neg then of_int (- value) else of_int value);
               result = abs_bytes absvalue
           in if last result AND 0x80 \<noteq> 0 then result @ [if neg then 0x80 else 0]
              else if neg then butlast result @ [last result OR 0x80]
              else result)"

definition set_vch :: "bytes \<Rightarrow> int" where
  "set_vch vch =
     (if vch = [] then 0
      else let result = (le_word vch :: u64)
           in if last vch AND 0x80 \<noteq> 0
              then - sint (result AND NOT (push_bit (8 * (length vch - 1)) 0x80))
              else sint result)"

definition nDefaultMaxNumSize :: nat where
  "nDefaultMaxNumSize = 4"

definition CScriptNum :: "bytes \<Rightarrow> bool \<Rightarrow> nat \<Rightarrow> scriptnum_error + int" where
  "CScriptNum vch fRequireMinimal nMaxNumSize =
     (if length vch > nMaxNumSize then Inl ScriptNumOverflow
      else if fRequireMinimal \<and> length vch > 0 \<and> last vch AND 0x7f = 0 \<and>
              (length vch \<le> 1 \<or> vch ! (length vch - 2) AND 0x80 = 0)
      then Inl ScriptNumNonMinimal
      else Inr (set_vch vch))"

definition getint :: "int \<Rightarrow> int" where
  "getint m_value =
     (if m_value > 2 ^ 31 - 1 then 2 ^ 31 - 1
      else if m_value < - (2 ^ 31) then - (2 ^ 31)
      else m_value)"

section \<open>Appending to a script\<close>

definition push_opcode :: "bytes \<Rightarrow> byte \<Rightarrow> bytes" where
  "push_opcode script opcode = script @ [opcode]"

definition push_data :: "bytes \<Rightarrow> bytes \<Rightarrow> bytes" where
  "push_data script b =
     (if length b < unat OP_PUSHDATA1 then script @ [of_nat (length b)] @ b
      else if length b \<le> 0xff then script @ [OP_PUSHDATA1, of_nat (length b)] @ b
      else if length b \<le> 0xffff
      then script @ [OP_PUSHDATA2] @ le_bytes 2 (of_nat (length b) :: u16) @ b
      else script @ [OP_PUSHDATA4] @ le_bytes 4 (of_nat (length b) :: u32) @ b)"

definition push_int64 :: "bytes \<Rightarrow> int \<Rightarrow> bytes" where
  "push_int64 script n =
     (if n = - 1 \<or> (n \<ge> 1 \<and> n \<le> 16) then script @ [of_int (n + (uint OP_1 - 1))]
      else if n = 0 then script @ [OP_0]
      else push_data script (serialize n))"

section \<open>Reading instructions\<close>

text \<open>
  \<open>GetOp2 pc\<close> is the result flag, \<open>opcodeRet\<close>, \<open>*pvchRet\<close> and the iterator after the
  call. A failing call has moved the iterator past what it had read.
\<close>

definition getop_operand :: "byte \<Rightarrow> nat \<Rightarrow> bytes \<Rightarrow> bool \<times> byte \<times> bytes \<times> bytes" where
  "getop_operand opcode nSize pc =
     (if length pc < nSize then (False, OP_INVALIDOPCODE, [], pc)
      else (True, opcode, take nSize pc, drop nSize pc))"

definition GetOp2 :: "bytes \<Rightarrow> bool \<times> byte \<times> bytes \<times> bytes" where
  "GetOp2 pc =
     (case pc of
        [] \<Rightarrow> (False, OP_INVALIDOPCODE, [], pc)
      | opcode # pc' \<Rightarrow>
          if opcode \<le> OP_PUSHDATA4
          then if opcode < OP_PUSHDATA1 then getop_operand opcode (unat opcode) pc'
               else if opcode = OP_PUSHDATA1
               then if length pc' < 1 then (False, OP_INVALIDOPCODE, [], pc')
                    else getop_operand opcode (unat (hd pc')) (drop 1 pc')
               else if opcode = OP_PUSHDATA2
               then if length pc' < 2 then (False, OP_INVALIDOPCODE, [], pc')
                    else getop_operand opcode (unat (le_word (take 2 pc') :: u16)) (drop 2 pc')
               else if length pc' < 4 then (False, OP_INVALIDOPCODE, [], pc')
                    else getop_operand opcode (unat (le_word (take 4 pc') :: u32)) (drop 4 pc')
          else (True, opcode, [], pc'))"

lemma GetOp2_shrinks: "GetOp2 pc = (True, opcode, vch, pc') \<Longrightarrow> length pc' < length pc"
  by (auto simp: GetOp2_def getop_operand_def split: list.splits if_splits)

lemma GetOp2_shrinks_sym: "(True, opcode, vch, pc') = GetOp2 pc \<Longrightarrow> length pc' < length pc"
  by (rule GetOp2_shrinks) (rule sym)

text \<open>\<open>DecodeOP_N\<close> and \<open>EncodeOP_N\<close> assert their range; \<open>None\<close> is the failed assertion.\<close>

definition DecodeOP_N :: "byte \<Rightarrow> int option" where
  "DecodeOP_N opcode =
     (if opcode = OP_0 then Some 0
      else if opcode \<ge> OP_1 \<and> opcode \<le> OP_16 then Some (uint opcode - (uint OP_1 - 1))
      else None)"

definition EncodeOP_N :: "int \<Rightarrow> byte option" where
  "EncodeOP_N n =
     (if n \<ge> 0 \<and> n \<le> 16
      then if n = 0 then Some OP_0 else Some (of_int (uint OP_1 + n - 1))
      else None)"

section \<open>FindAndDelete\<close>

function skip_matches :: "bytes \<Rightarrow> bytes \<Rightarrow> nat \<Rightarrow> bytes \<times> nat" where
  "skip_matches b pc nFound =
     (if b \<noteq> [] \<and> length pc \<ge> length b \<and> take (length b) pc = b
      then skip_matches b (drop (length b) pc) (nFound + 1)
      else (pc, nFound))"
  by pat_completeness auto
termination
proof (relation "measure (\<lambda>(b, pc, nFound). length pc)")
  fix b pc :: bytes and nFound :: nat
  assume "b \<noteq> [] \<and> length pc \<ge> length b \<and> take (length b) pc = b"
  then have "0 < length b" "length b \<le> length pc" by simp_all
  then have "length pc - length b < length pc" by linarith
  then show "((b, drop (length b) pc, nFound + 1), b, pc, nFound) \<in>
      measure (\<lambda>(b, pc, nFound). length pc)" by simp
qed simp

declare skip_matches.simps [simp del]

lemma length_skip_matches: "length (fst (skip_matches b pc n)) \<le> length pc"
proof (induction b pc n rule: skip_matches.induct)
  case (1 b pc n)
  then show ?case by (subst skip_matches.simps) (auto intro: le_trans)
qed

lemma skip_then_GetOp2_shrinks:
  assumes "(pcm, n') = skip_matches b pc n" and "(True, opcode, vch, pc') = GetOp2 pcm"
  shows "length pc' < length pc"
  using length_skip_matches [of b pc n] GetOp2_shrinks_sym [OF assms(2)] assms(1)
  by (metis fst_conv less_le_trans)

text \<open>
  The \<open>do \<dots> while (GetOp(pc, opcode))\<close> loop: \<open>pc2\<close> is where the bytes not yet copied start;
  the result is \<open>(result, pc2, nFound)\<close> when the loop ends.
\<close>

function find_delete_loop :: "bytes \<Rightarrow> bytes \<Rightarrow> bytes \<Rightarrow> bytes \<Rightarrow> nat \<Rightarrow> bytes \<times> bytes \<times> nat" where
  "find_delete_loop b result pc pc2 nFound =
     (let result' = result @ take (length pc2 - length pc) pc2;
          (pcm, nFound') = skip_matches b pc nFound
      in case GetOp2 pcm of
           (ok, opcode, vch, pc') \<Rightarrow>
             if ok then find_delete_loop b result' pc' pcm nFound'
             else (result', pcm, nFound'))"
  by pat_completeness auto
termination
  by (relation "measure (\<lambda>(b, result, pc, pc2, nFound). length pc)")
     (auto intro: skip_then_GetOp2_shrinks)

declare find_delete_loop.simps [simp del]

definition FindAndDelete :: "bytes \<Rightarrow> bytes \<Rightarrow> bytes \<times> nat" where
  "FindAndDelete script b =
     (if b = [] then (script, 0)
      else case find_delete_loop b [] script script 0 of
             (result, pc2, nFound) \<Rightarrow>
               if nFound > 0 then (result @ pc2, nFound) else (script, nFound))"

section \<open>Counting signature operations\<close>

function sigop_loop :: "bool \<Rightarrow> nat \<Rightarrow> byte \<Rightarrow> bytes \<Rightarrow> nat" where
  "sigop_loop fAccurate n lastOpcode pc =
     (case GetOp2 pc of
        (ok, opcode, vch, pc') \<Rightarrow>
          if pc \<noteq> [] \<and> ok
          then sigop_loop fAccurate
                 (if opcode = OP_CHECKSIG \<or> opcode = OP_CHECKSIGVERIFY then n + 1
                  else if opcode = OP_CHECKMULTISIG \<or> opcode = OP_CHECKMULTISIGVERIFY
                  then if fAccurate \<and> lastOpcode \<ge> OP_1 \<and> lastOpcode \<le> OP_16
                       then n + nat (the (DecodeOP_N lastOpcode))
                       else n + nat MAX_PUBKEYS_PER_MULTISIG
                  else n) opcode pc'
          else n)"
  by pat_completeness auto
termination
  by (relation "measure (\<lambda>(fAccurate, n, lastOpcode, pc). length pc)")
     (auto intro: GetOp2_shrinks GetOp2_shrinks_sym)

declare sigop_loop.simps [simp del]

definition GetSigOpCount :: "bytes \<Rightarrow> bool \<Rightarrow> nat" where
  "GetSigOpCount script fAccurate = sigop_loop fAccurate 0 OP_INVALIDOPCODE script"

section \<open>Script templates\<close>

definition IsPayToScriptHash :: "bytes \<Rightarrow> bool" where
  "IsPayToScriptHash script \<longleftrightarrow>
     length script = 23 \<and> script ! 0 = OP_HASH160 \<and> script ! 1 = 0x14 \<and> script ! 22 = OP_EQUAL"

definition IsPayToWitnessScriptHash :: "bytes \<Rightarrow> bool" where
  "IsPayToWitnessScriptHash script \<longleftrightarrow>
     length script = 34 \<and> script ! 0 = OP_0 \<and> script ! 1 = 0x20"

definition IsWitnessProgram :: "bytes \<Rightarrow> (int \<times> bytes) option" where
  "IsWitnessProgram script =
     (if length script < 4 \<or> length script > 42 then None
      else if script ! 0 \<noteq> OP_0 \<and> (script ! 0 < OP_1 \<or> script ! 0 > OP_16) then None
      else if unat (script ! 1) + 2 = length script
      then Some (the (DecodeOP_N (script ! 0)), drop 2 script)
      else None)"

function IsPushOnly :: "bytes \<Rightarrow> bool" where
  "IsPushOnly pc =
     (if pc = [] then True
      else case GetOp2 pc of
             (ok, opcode, vch, pc') \<Rightarrow>
               if \<not> ok then False else if opcode > OP_16 then False else IsPushOnly pc')"
  by pat_completeness auto
termination
  by (relation "measure length") (auto intro: GetOp2_shrinks GetOp2_shrinks_sym)

declare IsPushOnly.simps [simp del]

function HasValidOps :: "bytes \<Rightarrow> bool" where
  "HasValidOps it =
     (if it = [] then True
      else case GetOp2 it of
             (ok, opcode, item, it') \<Rightarrow>
               if \<not> ok \<or> opcode > MAX_OPCODE \<or> length item > MAX_SCRIPT_ELEMENT_SIZE then False
               else HasValidOps it')"
  by pat_completeness auto
termination
  by (relation "measure length") (auto intro: GetOp2_shrinks GetOp2_shrinks_sym)

declare HasValidOps.simps [simp del]

definition IsUnspendable :: "bytes \<Rightarrow> bool" where
  "IsUnspendable script \<longleftrightarrow>
     (length script > 0 \<and> hd script = OP_RETURN) \<or> length script > MAX_SCRIPT_SIZE"

text \<open>
  \<open>GetSigOpCount(const CScript& scriptSig)\<close>: the last item pushed by \<open>scriptSig\<close>;
  \<open>None\<close> is the early \<open>return 0\<close>.
\<close>

function last_push :: "bytes \<Rightarrow> bytes \<Rightarrow> bytes option" where
  "last_push vData pc =
     (if pc = [] then Some vData
      else case GetOp2 pc of
             (ok, opcode, vch, pc') \<Rightarrow>
               if \<not> ok then None else if opcode > OP_16 then None else last_push vch pc')"
  by pat_completeness auto
termination
  by (relation "measure (\<lambda>(vData, pc). length pc)") (auto intro: GetOp2_shrinks GetOp2_shrinks_sym)

declare last_push.simps [simp del]

definition GetSigOpCount_P2SH :: "bytes \<Rightarrow> bytes \<Rightarrow> nat" where
  "GetSigOpCount_P2SH script scriptSig =
     (if \<not> IsPayToScriptHash script then GetSigOpCount script True
      else case last_push [] scriptSig of
             None \<Rightarrow> 0
           | Some vData \<Rightarrow> GetSigOpCount vData True)"

section \<open>Properties of script numbers\<close>

lemma ucast_and_ff: "ucast ((w :: u64) AND 0xff) = (ucast w :: byte)"
proof -
  have mask: "(0xff :: u64) = mask 8" by (simp add: mask_eq_decr_exp)
  show ?thesis unfolding mask by (intro bit_word_eqI) (auto simp: bit_simps)
qed

lemma le_nat_abs_bytes: "le_nat (abs_bytes w) = unat w"
proof (induction w rule: abs_bytes.induct)
  case (1 w)
  then show ?case
    by (subst abs_bytes.simps) (auto simp: ucast_and_ff unat_ucast_byte unat_drop_bit)
qed

lemma abs_bytes_eq_Nil [simp]: "abs_bytes w = [] \<longleftrightarrow> w = 0"
  by (subst abs_bytes.simps) simp

lemma abs_bytes_last: "w \<noteq> 0 \<Longrightarrow> last (abs_bytes w) \<noteq> 0"
proof (induction w rule: abs_bytes.induct)
  case (1 w)
  have eq: "abs_bytes w = ucast w # abs_bytes (drop_bit 8 w)"
    using "1.prems" by (subst abs_bytes.simps) (simp add: ucast_and_ff)
  show ?case
  proof (cases "drop_bit 8 w = 0")
    case True
    then have "unat (drop_bit 8 w) = 0" by simp
    then have "unat w div 256 = 0" by (simp add: unat_drop_bit)
    then have "unat (ucast w :: byte) = unat w" by (simp add: unat_ucast_byte)
    then have "(ucast w :: byte) \<noteq> 0" using "1.prems" by (metis unat_0_iff)
    then show ?thesis using True by (simp add: eq)
  next
    case False
    with 1 show ?thesis by (simp add: eq)
  qed
qed

definition canonical_bytes :: "bytes \<Rightarrow> bool" where
  "canonical_bytes bs \<longleftrightarrow> bs = [] \<or> last bs \<noteq> 0"

lemma canonical_bytes_pos: "canonical_bytes bs \<Longrightarrow> bs \<noteq> [] \<Longrightarrow> 0 < le_nat bs"
proof (induction bs)
  case (Cons b bs)
  then show ?case by (cases "bs = []") (auto simp: canonical_bytes_def unat_gt_0)
qed simp

lemma canonical_bytes_inject:
  "canonical_bytes xs \<Longrightarrow> canonical_bytes ys \<Longrightarrow> le_nat xs = le_nat ys \<Longrightarrow> xs = ys"
proof (induction xs arbitrary: ys)
  case Nil
  then show ?case using canonical_bytes_pos [of ys] by auto
next
  case (Cons x xs)
  then obtain y zs where ys: "ys = y # zs"
    using canonical_bytes_pos [of "x # xs"] by (cases ys) auto
  have xy: "unat x < 256" "unat y < 256"
    using unat_less_pow [of 8 x] unat_less_pow [of 8 y] by simp_all
  have eq: "unat x + 256 * le_nat xs = unat y + 256 * le_nat zs"
    using Cons.prems(3) ys by simp
  from arg_cong [OF eq, of "\<lambda>n. n mod 256"] xy have x: "unat x = unat y" by simp
  with eq have "le_nat xs = le_nat zs" by simp
  moreover have "canonical_bytes xs" "canonical_bytes zs"
    using Cons.prems(1,2) ys by (auto simp: canonical_bytes_def split: if_splits)
  ultimately have "xs = zs" by (rule Cons.IH [rotated 2])
  with x ys show ?case by (simp add: word_unat_eq_iff)
qed

lemma abs_bytes_eqI: "canonical_bytes bs \<Longrightarrow> unat w = le_nat bs \<Longrightarrow> abs_bytes w = bs"
  by (rule canonical_bytes_inject) (auto simp: canonical_bytes_def le_nat_abs_bytes abs_bytes_last)

lemma canonical_bytes_bound:
  assumes "canonical_bytes bs" "le_nat bs < 256 ^ k"
  shows "length bs \<le> k"
proof (cases "bs = []")
  case False
  then have "1 \<le> unat (last bs)" using assms(1) by (simp add: canonical_bytes_def Suc_le_eq unat_gt_0)
  then have "256 ^ (length bs - 1) * 1 \<le> 256 ^ (length bs - 1) * unat (last bs)"
    by (rule mult_le_mono2)
  then have "256 ^ (length bs - 1) \<le> le_nat bs" using le_nat_last [OF False] by linarith
  then have "(256::nat) ^ (length bs - 1) < 256 ^ k" using assms(2) by (rule le_less_trans)
  then have "length bs - 1 < k" by (rule power_less_imp_less_exp [rotated]) simp
  then show ?thesis by simp
qed simp

definition sign_bit :: "bytes \<Rightarrow> bool" where
  "sign_bit vch \<longleftrightarrow> last vch AND 0x80 \<noteq> 0"

definition magnitude :: "bytes \<Rightarrow> nat" where
  "magnitude vch = le_nat (butlast vch @ [last vch AND 0x7F])"

lemma clear_sign_bit:
  assumes "vch \<noteq> []"
  shows "(le_word vch :: u64) AND NOT (push_bit (8 * (length vch - 1)) 0x80)
           = le_word (butlast vch @ [last vch AND 0x7F])"
proof (rule bit_word_eqI)
  fix i
  define n where "n = length vch - 1"
  have len: "length vch = Suc n" using assms by (simp add: n_def)
  have lst: "last vch = vch ! n" using assms by (simp add: n_def last_conv_nth)
  assume i: "i < LENGTH(64)"
  consider "i div 8 < n" | "i div 8 = n" | "n < i div 8" by linarith
  then show "bit ((le_word vch :: u64) AND NOT (push_bit (8 * (length vch - 1)) 0x80)) i
       = bit (le_word (butlast vch @ [last vch AND 0x7F]) :: u64) i"
  proof cases
    case 1
    then have "i < 8 * n" by linarith
    then show ?thesis using 1 i len
      by (simp add: n_def [symmetric] bit_le_word bit_simps nth_append nth_butlast)
  next
    case 2
    then have "8 * n \<le> i" "i mod 8 = i - 8 * n" by (auto simp: minus_mult_div_eq_mod [symmetric])
    moreover have "bit (128 :: int) (i - 8 * n) \<longleftrightarrow> i - 8 * n = 7" by (simp add: bit_128)
    moreover have "i - 8 * n < 8" using 2 by linarith
    ultimately show ?thesis using 2 i len lst
      by (auto simp: n_def [symmetric] bit_le_word bit_simps nth_append byte_and_0x7F)
  next
    case 3
    then show ?thesis using i len by (simp add: bit_le_word bit_simps)
  qed
qed

lemma magnitude_bound:
  assumes "vch \<noteq> []" "length vch \<le> k"
  shows "magnitude vch < 2 ^ (8 * k - 1)"
proof -
  define n where "n = length vch - 1"
  have k: "n + 1 \<le> k" using assms by (simp add: n_def)
  have "le_nat (butlast vch) < 256 ^ n" using le_nat_less [of "butlast vch"] by (simp add: n_def)
  moreover have "unat (last vch AND 0x7F) \<le> 127"
    using take_bit_nat_less_exp [of 7 "unat (last vch)"]
    by (simp add: byte_and_0x7F unsigned_take_bit_eq)
  then have "256 ^ n * unat (last vch AND 0x7F) \<le> 256 ^ n * 127" by (rule mult_le_mono2)
  moreover have "magnitude vch = le_nat (butlast vch) + 256 ^ n * unat (last vch AND 0x7F)"
    by (simp add: magnitude_def le_nat_append n_def)
  moreover have "(256::nat) ^ n * 128 = 2 ^ (8 * n + 7)" by (simp add: power_add power_mult)
  moreover have "(2::nat) ^ (8 * n + 7) \<le> 2 ^ (8 * k - 1)"
    using k by (intro power_increasing) auto
  ultimately show ?thesis by linarith
qed

lemma sint_of_small: "unat (w :: u64) < 2 ^ 63 \<Longrightarrow> sint w = int (unat w)"
proof -
  assume "unat w < 2 ^ 63"
  then have "uint w < 2 ^ 63" by (metis of_nat_less_iff of_nat_numeral of_nat_power uint_nat)
  then show ?thesis by (simp add: sint_uint signed_take_bit_eq_if_positive bit_iff_odd
        take_bit_int_eq_self)
qed

lemma set_vch_eq:
  assumes "vch \<noteq> []" "length vch \<le> 8"
  shows "set_vch vch = (if sign_bit vch then - int (magnitude vch) else int (magnitude vch))"
proof -
  let ?m = "le_word (butlast vch @ [last vch AND 0x7F]) :: u64"
  have "unat ?m = magnitude vch" using assms by (simp add: magnitude_def unat_le_word)
  then have m: "sint ?m = int (magnitude vch)"
    using magnitude_bound [OF assms] sint_of_small [of ?m] by simp
  have same: "?m = le_word vch" if "\<not> sign_bit vch"
  proof -
    have "butlast vch @ [last vch AND 0x7F] = vch"
      using that assms(1) by (simp add: sign_bit_def byte_clear_high)
    then show ?thesis by simp
  qed
  show ?thesis
  proof (cases "sign_bit vch")
    case True
    then show ?thesis using assms(1) m clear_sign_bit [OF assms(1)]
      by (simp add: set_vch_def sign_bit_def)
  next
    case False
    with same m have "sint (le_word vch :: u64) = int (magnitude vch)" by simp
    with False show ?thesis using assms(1) by (simp add: set_vch_def sign_bit_def)
  qed
qed


lemma serialize_cases:
  assumes "v \<noteq> 0" "\<bar>v\<bar> < 2 ^ 63"
  obtains r where "canonical_bytes r" "r \<noteq> []" "int (le_nat r) = \<bar>v\<bar>"
    "serialize v = (if last r AND 0x80 \<noteq> 0 then r @ [if v < 0 then 0x80 else 0]
                    else if v < 0 then butlast r @ [last r OR 0x80] else r)"
proof -
  let ?w = "of_int \<bar>v\<bar> :: u64"
  have "uint ?w = \<bar>v\<bar>"
    using assms(2) by (simp add: unsigned_of_int take_bit_int_eq_self)
  then have w: "int (unat ?w) = \<bar>v\<bar>" by (simp only: uint_nat)
  have ne: "?w \<noteq> 0"
  proof
    assume "?w = 0"
    with w show False using assms(1) by simp
  qed
  show ?thesis
  proof (rule that)
    show "canonical_bytes (abs_bytes ?w)" using ne by (simp add: canonical_bytes_def abs_bytes_last)
    show "abs_bytes ?w \<noteq> []" using ne by simp
    show "int (le_nat (abs_bytes ?w)) = \<bar>v\<bar>" using w by (simp only: le_nat_abs_bytes)
    have abs: "(if v < 0 then of_int (- v) else of_int v) = ?w" by (simp add: abs_if)
    show "serialize v =
        (if last (abs_bytes ?w) AND 0x80 \<noteq> 0 then abs_bytes ?w @ [if v < 0 then 0x80 else 0]
         else if v < 0 then butlast (abs_bytes ?w) @ [last (abs_bytes ?w) OR 0x80]
         else abs_bytes ?w)"
      using assms(1) by (simp only: serialize_def Let_def abs if_False)
  qed
qed

lemma length_serialize_bound:
  assumes "\<bar>v\<bar> < 2 ^ (8 * n - 1)" "0 < n" "n \<le> 8"
  shows "length (serialize v) \<le> n"
proof (cases "v = 0")
  case False
  have "(2::int) ^ (8 * n - 1) \<le> 2 ^ 63" using assms(3) by (intro power_increasing) auto
  with assms(1) have "\<bar>v\<bar> < 2 ^ 63" by linarith
  with False obtain r where r: "canonical_bytes r" "r \<noteq> []" "int (le_nat r) = \<bar>v\<bar>"
    "serialize v = (if last r AND 0x80 \<noteq> 0 then r @ [if v < 0 then 0x80 else 0]
                    else if v < 0 then butlast r @ [last r OR 0x80] else r)"
    by (rule serialize_cases)
  have half: "(256::nat) ^ n = 2 * 2 ^ (8 * n - 1)"
    using assms(2) power_Suc [of "2::nat" "8 * n - 1"] by (simp add: power_mult)
  have "int (le_nat r) < int (2 ^ (8 * n - 1))" using r(3) assms(1) by simp
  then have small: "2 * le_nat r < 256 ^ n" unfolding half by simp
  then have len: "length r \<le> n" using r(1) by (intro canonical_bytes_bound) auto
  have "length r \<noteq> n" if "last r AND 0x80 \<noteq> 0"
  proof
    assume n: "length r = n"
    have "128 \<le> unat (last r)" using that by (simp add: high_bit_iff)
    then have "256 ^ (n - 1) * 128 \<le> 256 ^ (n - 1) * unat (last r)" by (rule mult_le_mono2)
    then have "256 ^ (n - 1) * 128 \<le> le_nat r" using le_nat_last [OF r(2), unfolded n] by linarith
    moreover have "(256::nat) ^ n = 256 * 256 ^ (n - 1)" using assms(2) by (simp flip: power_Suc)
    ultimately show False using small by linarith
  qed
  then show ?thesis using r(2,4) len by (auto simp: Suc_le_eq)
qed (simp add: serialize_def)

lemma set_vch_serialize:
  assumes "\<bar>v\<bar> < 2 ^ 63"
  shows "set_vch (serialize v) = v"
proof (cases "v = 0")
  case False
  from this assms obtain r where r: "canonical_bytes r" "r \<noteq> []" "int (le_nat r) = \<bar>v\<bar>"
    "serialize v = (if last r AND 0x80 \<noteq> 0 then r @ [if v < 0 then 0x80 else 0]
                    else if v < 0 then butlast r @ [last r OR 0x80] else r)"
    by (rule serialize_cases)
  have len: "length (serialize v) \<le> 8" using assms by (intro length_serialize_bound) auto
  have ne: "serialize v \<noteq> []" using r(2,4) by auto
  have "magnitude (serialize v) = le_nat r"
    using r(2) unfolding r(4) magnitude_def
    by (auto simp: le_nat_append le_nat_last byte_or_high byte_clear_high)
  moreover have "sign_bit (serialize v) \<longleftrightarrow> v < 0"
    unfolding r(4) sign_bit_def by (auto simp: byte_or_high)
  ultimately show ?thesis
    using r(3) by (simp add: set_vch_eq [OF ne len])
qed (simp add: serialize_def set_vch_def)

definition minimal_num :: "bytes \<Rightarrow> bool" where
  "minimal_num vch \<longleftrightarrow> vch = [] \<or> last vch AND 0x7f \<noteq> 0 \<or>
     (length vch > 1 \<and> vch ! (length vch - 2) AND 0x80 \<noteq> 0)"

lemma CScriptNum_minimal:
  "CScriptNum vch True n = Inr v \<longleftrightarrow> length vch \<le> n \<and> minimal_num vch \<and> v = set_vch vch"
  by (auto simp: CScriptNum_def minimal_num_def)

lemma minimal_serialize:
  assumes "\<bar>v\<bar> < 2 ^ 63"
  shows "minimal_num (serialize v)"
proof (cases "v = 0")
  case False
  from this assms obtain r where r: "canonical_bytes r" "r \<noteq> []" "int (le_nat r) = \<bar>v\<bar>"
    "serialize v = (if last r AND 0x80 \<noteq> 0 then r @ [if v < 0 then 0x80 else 0]
                    else if v < 0 then butlast r @ [last r OR 0x80] else r)"
    by (rule serialize_cases)
  show ?thesis
  proof (cases "last r AND 0x80 = 0")
    case True
    then have "last r AND 0x7F \<noteq> 0" using r(1,2) by (simp add: byte_clear_high canonical_bytes_def)
    with True show ?thesis by (simp add: r(4) minimal_num_def byte_or_high)
  next
    case False
    have "(r @ [x]) ! (length (r @ [x]) - 2) = last r" for x
      using r(2) by (simp add: nth_append last_conv_nth)
    then show ?thesis using False r(2) by (simp add: r(4) minimal_num_def)
  qed
qed (simp add: serialize_def minimal_num_def)

lemma serialize_set_vch:
  assumes "minimal_num vch" "length vch \<le> 8"
  shows "serialize (set_vch vch) = vch"
proof (cases "vch = []")
  case True
  then show ?thesis by (simp add: set_vch_def serialize_def)
next
  case False
  let ?v = "set_vch vch" and ?low = "last vch AND 0x7F"
  define q where "q = (if ?low = 0 then butlast vch else butlast vch @ [?low])"
  have prev: "?low = 0 \<Longrightarrow> butlast vch \<noteq> [] \<and> last (butlast vch) AND 0x80 \<noteq> 0"
    using assms(1) False
    by (auto simp: minimal_num_def last_conv_nth nth_butlast butlast_conv_take numeral_2_eq_2)
  then have q: "canonical_bytes q" "q \<noteq> []" by (auto simp: q_def canonical_bytes_def)
  have leq: "le_nat q = magnitude vch" by (simp add: q_def magnitude_def le_nat_append)
  have v: "?v = (if sign_bit vch then - int (le_nat q) else int (le_nat q))"
    using set_vch_eq [OF False assms(2)] by (simp only: leq)
  have pos: "0 < le_nat q" using canonical_bytes_pos [OF q] .
  have "le_nat q < 2 ^ 63" using magnitude_bound [OF False assms(2)] by (simp add: leq)
  then have "\<bar>?v\<bar> < 2 ^ 63" "?v \<noteq> 0" "\<bar>?v\<bar> = int (le_nat q)" "?v < 0 \<longleftrightarrow> sign_bit vch"
    using pos unfolding v by auto
  note vfacts = this
  from vfacts(2,1) obtain r where r: "canonical_bytes r" "r \<noteq> []" "int (le_nat r) = \<bar>?v\<bar>"
    "serialize ?v = (if last r AND 0x80 \<noteq> 0 then r @ [if ?v < 0 then 0x80 else 0]
                     else if ?v < 0 then butlast r @ [last r OR 0x80] else r)"
    by (rule serialize_cases)
  have "r = q" using canonical_bytes_inject [OF r(1) q(1)] r(3) vfacts(3) by simp
  then have ser: "serialize ?v = (if last q AND 0x80 \<noteq> 0 then q @ [if sign_bit vch then 0x80 else 0]
                     else if sign_bit vch then butlast q @ [last q OR 0x80] else q)"
    using r(4) vfacts(4) by simp
  show ?thesis
  proof (cases "?low = 0")
    case True
    with prev have "serialize ?v = butlast vch @ [last vch]"
      unfolding ser using low_bits_zero [OF True]
      by (auto simp: q_def sign_bit_def split: if_splits)
    then show ?thesis using False by simp
  next
    case nz: False
    have "last q AND 0x80 = 0" using nz by (simp add: q_def byte_low_high)
    then have "serialize ?v = butlast vch @ [last vch]"
      unfolding ser using nz by (auto simp: q_def sign_bit_def byte_clear_high byte_low_or_high)
    then show ?thesis using False by simp
  qed
qed

lemma CScriptNum_iff:
  assumes "0 < n" "n \<le> 8"
  shows "CScriptNum vch True n = Inr v \<longleftrightarrow> \<bar>v\<bar> < 2 ^ (8 * n - 1) \<and> vch = serialize v"
proof
  assume "CScriptNum vch True n = Inr v"
  then have vch: "length vch \<le> n" "minimal_num vch" "v = set_vch vch"
    by (auto simp: CScriptNum_minimal)
  have "\<bar>v\<bar> < 2 ^ (8 * n - 1)"
  proof (cases "vch = []")
    case False
    have "int (magnitude vch) < 2 ^ (8 * n - 1)"
      using magnitude_bound [OF False vch(1)] by (metis of_nat_less_iff of_nat_numeral of_nat_power)
    then show ?thesis using vch assms False by (simp add: set_vch_eq)
  qed (simp add: vch set_vch_def)
  moreover have "serialize v = vch" using vch assms by (simp add: serialize_set_vch)
  ultimately show "\<bar>v\<bar> < 2 ^ (8 * n - 1) \<and> vch = serialize v" by simp
next
  assume v: "\<bar>v\<bar> < 2 ^ (8 * n - 1) \<and> vch = serialize v"
  moreover have "(2::int) ^ (8 * n - 1) \<le> 2 ^ 63" using assms by (intro power_increasing) auto
  ultimately have "\<bar>v\<bar> < 2 ^ 63" by linarith
  then show "CScriptNum vch True n = Inr v"
    using v assms by (simp add: CScriptNum_minimal minimal_serialize set_vch_serialize length_serialize_bound)
qed

section \<open>Properties of scripts\<close>

lemma GetOp2_push_data:
  assumes "length b < 2 ^ 32"
  shows "\<exists>opcode \<le> OP_PUSHDATA4. GetOp2 (push_data [] b @ rest) = (True, opcode, b, rest)"
proof -
  have "unat (of_nat (length b) :: byte) = length b" if "length b \<le> 0xff"
    using that by (simp add: unat_of_nat)
  moreover have "unat (of_nat (length b) :: u16) = length b" if "length b \<le> 0xffff"
    using that by (simp add: unat_of_nat)
  moreover have "unat (of_nat (length b) :: u32) = length b"
    using assms by (simp add: unat_of_nat)
  moreover have "(of_nat (length b) :: byte) < 76" if "length b < 76"
    using that by (simp add: word_less_nat_alt unat_of_nat)
  moreover have "(of_nat (length b) :: byte) \<le> 78" if "length b < 76"
    using that by (simp add: word_le_nat_alt unat_of_nat)
  ultimately show ?thesis
    by (auto simp: push_data_def GetOp2_def getop_operand_def)
qed

lemma push_data_append: "push_data script b = script @ push_data [] b"
  by (simp add: push_data_def)

lemma push_data_not_Nil [simp]: "push_data s b \<noteq> []"
  by (simp add: push_data_def)

lemma IsPushOnly_push_data:
  assumes "length b < 2 ^ 32"
  shows "IsPushOnly (push_data [] b @ rest) = IsPushOnly rest"
proof -
  obtain opcode where "opcode \<le> OP_PUSHDATA4"
      and op: "GetOp2 (push_data [] b @ rest) = (True, opcode, b, rest)"
    using GetOp2_push_data [OF assms] by blast
  moreover from this have "\<not> opcode > OP_16" by (simp add: not_less word_le_nat_alt)
  ultimately show ?thesis by (subst IsPushOnly.simps) simp
qed

text \<open>A script that pushes the items of \<open>xs\<close> in turn.\<close>

definition push_all :: "bytes list \<Rightarrow> bytes" where
  "push_all xs = foldl push_data [] xs"

lemma foldl_push_data: "foldl push_data s xs = s @ concat (map (push_data []) xs)"
proof (induction xs arbitrary: s)
  case (Cons x xs)
  have "foldl push_data s (x # xs) = push_data s x @ concat (map (push_data []) xs)"
    by (simp add: Cons)
  then show ?case by (subst (asm) push_data_append) simp
qed simp

lemma push_all_simps [simp]:
  "push_all [] = []" "push_all (b # xs) = push_data [] b @ push_all xs"
  by (simp_all add: push_all_def foldl_push_data)

lemma IsPushOnly_push_all: "\<forall>b \<in> set xs. length b < 2 ^ 32 \<Longrightarrow> IsPushOnly (push_all xs)"
proof (induction xs)
  case Nil
  then show ?case by (simp add: IsPushOnly.simps)
next
  case (Cons b xs)
  then show ?case by (simp add: IsPushOnly_push_data)
qed

lemma last_push_push_all:
  "\<forall>b \<in> set xs. length b < 2 ^ 32 \<Longrightarrow> last_push v (push_all xs) = Some (last (v # xs))"
proof (induction xs arbitrary: v)
  case Nil
  then show ?case by (simp add: last_push.simps)
next
  case (Cons b xs)
  then obtain opcode where "opcode \<le> OP_PUSHDATA4"
      and op: "GetOp2 (push_data [] b @ push_all xs) = (True, opcode, b, push_all xs)"
    using GetOp2_push_data [of b "push_all xs"] by auto
  moreover from this have "\<not> opcode > OP_16" by (simp add: not_less word_le_nat_alt)
  ultimately have "last_push v (push_data [] b @ push_all xs) = last_push b (push_all xs)"
    by (subst last_push.simps) simp
  then show ?case using Cons by simp
qed

lemma DecodeOP_N_EncodeOP_N:
  assumes "0 \<le> n" "n \<le> 16"
  shows "\<exists>op. EncodeOP_N n = Some op \<and> DecodeOP_N op = Some n"
proof -
  have "uint (80 + of_int n :: byte) = 80 + n"
    using assms by (simp add: uint_word_ariths unsigned_of_int take_bit_int_eq_self)
  then show ?thesis
    using assms by (auto simp: EncodeOP_N_def DecodeOP_N_def word_le_def)
qed

lemma DecodeOP_N_range: "DecodeOP_N op = Some n \<Longrightarrow> 0 \<le> n \<and> n \<le> 16"
  by (auto simp: DecodeOP_N_def word_le_def split: if_splits)

lemma IsWitnessProgram_SomeD:
  assumes "IsWitnessProgram script = Some (version, program)"
  shows "0 \<le> version \<and> version \<le> 16 \<and> 2 \<le> length program \<and> length program \<le> 40"
proof -
  have len: "\<not> (length script < 4 \<or> length script > 42)" and
      op: "\<not> (script ! 0 \<noteq> OP_0 \<and> (script ! 0 < OP_1 \<or> script ! 0 > OP_16))" and
      res: "version = the (DecodeOP_N (script ! 0))" "program = drop 2 script"
    using assms by (auto simp: IsWitnessProgram_def split: if_splits)
  from op have "DecodeOP_N (script ! 0) = Some version"
    by (auto simp: res DecodeOP_N_def not_less)
  then show ?thesis using len res(2) DecodeOP_N_range by auto
qed

lemma skip_matches_length:
  "skip_matches b pc n = (pc', n') \<Longrightarrow>
     n \<le> n' \<and> length pc + n * length b = length pc' + n' * length b \<and> suffix pc' pc"
proof (induction b pc n rule: skip_matches.induct)
  case (1 b pc n)
  show ?case
  proof (cases "b \<noteq> [] \<and> length pc \<ge> length b \<and> take (length b) pc = b")
    case True
    then have "skip_matches b (drop (length b) pc) (n + 1) = (pc', n')"
      using "1.prems" by (subst (asm) skip_matches.simps) simp
    from "1.IH" [OF True this] True show ?thesis
      by (auto simp: suffix_drop intro: suffix_order.trans)
  next
    case False
    then show ?thesis using "1.prems" by (subst (asm) skip_matches.simps) auto
  qed
qed

lemma GetOp2_suffix: "GetOp2 pc = (ok, opcode, vch, pc') \<Longrightarrow> suffix pc' pc"
  by (auto simp: GetOp2_def getop_operand_def suffix_drop suffix_ConsI split: list.splits if_splits)

lemma find_delete_loop_invariant:
  "find_delete_loop b result pc pc2 n = (result', pc2', n') \<Longrightarrow> suffix pc pc2 \<Longrightarrow>
     n \<le> n' \<and> length result' + length pc2' + n' * length b = length result + length pc2 + n * length b \<and>
     (n' = n \<and> b \<noteq> [] \<longrightarrow> result' @ pc2' = result @ pc2) \<and> subseq (result' @ pc2') (result @ pc2)"
proof (induction b result pc pc2 n rule: find_delete_loop.induct)
  case (1 b result pc pc2 n)
  obtain pre where pre: "pc2 = pre @ pc" using "1.prems"(2) by (auto simp: suffix_def)
  obtain pcm m where skip: "skip_matches b pc n = (pcm, m)" by (cases "skip_matches b pc n")
  obtain ok opcode vch pc' where op: "GetOp2 pcm = (ok, opcode, vch, pc')"
    by (cases "GetOp2 pcm") auto
  have s: "n \<le> m" "length pc + n * length b = length pcm + m * length b" "suffix pcm pc"
    using skip_matches_length [OF skip] by auto
  have sub: "subseq ((result @ pre) @ pcm) (result @ pc2)"
    using list_emb_append_mono [OF subseq_order.refl [of "result @ pre"]] suffix_imp_subseq [OF s(3)]
    by (simp add: pre)
  have same: "b \<noteq> [] \<Longrightarrow> m = n \<Longrightarrow> pcm = pc" using s by (auto simp: suffix_def)
  show ?case
  proof (cases ok)
    case False
    then show ?thesis
      using "1.prems"(1) s sub same
      by (subst (asm) find_delete_loop.simps) (auto simp: skip op pre)
  next
    case True
    then have rec: "find_delete_loop b (result @ pre) pc' pcm m = (result', pc2', n')"
      using "1.prems"(1) by (subst (asm) find_delete_loop.simps) (simp add: skip op pre)
    have suf: "suffix pc' pcm" using op True by (auto intro: GetOp2_suffix)
    have "m \<le> n' \<and> length result' + length pc2' + n' * length b =
        length (result @ pre) + length pcm + m * length b \<and>
       (n' = m \<and> b \<noteq> [] \<longrightarrow> result' @ pc2' = (result @ pre) @ pcm) \<and>
       subseq (result' @ pc2') ((result @ pre) @ pcm)"
      using "1.IH" [OF refl refl skip [symmetric] op [symmetric] refl refl True] rec suf
      by (simp add: pre)
    then show ?thesis using s sub same by (auto simp: pre intro: subseq_order.trans)
  qed
qed


lemma FindAndDelete_length:
  "FindAndDelete script b = (result, nFound) \<Longrightarrow>
     length result + nFound * length b = length script \<and> subseq result script \<and>
     (nFound = 0 \<longrightarrow> result = script)"
proof (cases "b = []")
  case False
  assume "FindAndDelete script b = (result, nFound)"
  moreover obtain r pc2 n where loop: "find_delete_loop b [] script script 0 = (r, pc2, n)"
    by (cases "find_delete_loop b [] script script 0")
  moreover note find_delete_loop_invariant [OF loop]
  ultimately show ?thesis using False by (auto simp: FindAndDelete_def split: if_splits)
qed (auto simp: FindAndDelete_def)

lemma sigop_loop_mono:
  "n \<le> m \<Longrightarrow> sigop_loop True n op pc \<le> sigop_loop False m op pc"
proof (induction "length pc" arbitrary: n m op pc rule: less_induct)
  case less
  obtain ok opcode vch pc' where op: "GetOp2 pc = (ok, opcode, vch, pc')"
    by (cases "GetOp2 pc") auto
  have "nat (the (DecodeOP_N op)) \<le> 20" if "op \<ge> OP_1" "op \<le> OP_16"
    using that DecodeOP_N_range [of op] by (auto simp: DecodeOP_N_def)
  then show ?case
    using less.prems less.hyps [of pc'] GetOp2_shrinks [of pc opcode vch pc']
    by (subst (1 2) sigop_loop.simps) (auto simp: op MAX_PUBKEYS_PER_MULTISIG_def)
qed

section \<open>What the script library guarantees\<close>

text \<open>
  C18: a byte vector is accepted as a minimally encoded script number of at most \<open>n\<close> bytes exactly
  when it is the serialization of the number read, and the numbers that can be read are those
  below \<open>2 ^ (8 * n - 1)\<close> in absolute value. In particular script numbers round trip and no two
  accepted encodings denote the same number.
\<close>

theorem CScriptNum_canonical:
  assumes "0 < n" "n \<le> 8"
  shows "CScriptNum vch True n = Inr v \<longleftrightarrow> \<bar>v\<bar> < 2 ^ (8 * n - 1) \<and> vch = serialize v"
  using assms by (rule CScriptNum_iff)

theorem CScriptNum_canonical_witness:
  "CScriptNum [0xff, 0x80] True nDefaultMaxNumSize = Inr (- 255) \<and> serialize (- 255) = [0xff, 0x80]"
proof -
  have "CScriptNum [0xff, 0x80] True nDefaultMaxNumSize = Inr (- 255)" by code_simp
  then show ?thesis
    using CScriptNum_canonical [of nDefaultMaxNumSize "[0xff, 0x80]" "- 255"]
    by (auto simp: nDefaultMaxNumSize_def)
qed

text \<open>
  C19: reading back what \<open>operator<<\<close> appended to a script yields the same item and stops where
  the push ends; a script made of pushes is push-only and its last item is what the
  pay-to-script-hash rules take as the redeem script.
\<close>

theorem push_data_GetOp:
  assumes "\<forall>b \<in> set (xs @ [b]). length b < 2 ^ 32"
  shows "(\<exists>opcode \<le> OP_PUSHDATA4. GetOp2 (push_data [] b @ rest) = (True, opcode, b, rest)) \<and>
         IsPushOnly (foldl push_data [] (xs @ [b])) \<and>
         last_push [] (foldl push_data [] (xs @ [b])) = Some b"
  using assms GetOp2_push_data [of b rest] IsPushOnly_push_all [of "xs @ [b]"]
    last_push_push_all [of "xs @ [b]" "[]"]
  unfolding push_all_def by auto

theorem push_data_GetOp_witness:
  "GetOp2 [2, 7, 8, 0xac] = (True, 2, [7, 8], [0xac]) \<and>
   last_push [] (foldl push_data [] [[1], [7, 8]]) = Some [7, 8]"
  using push_data_GetOp [of "[[1]]" "[7, 8]" "[0xac]"] by (simp add: GetOp2_def getop_operand_def)


text \<open>
  The legacy signature-operation count, which charges every multi-signature check as twenty, is
  an upper bound of the accurate count used for redeem scripts.
\<close>

theorem GetSigOpCount_accurate_le: "GetSigOpCount script True \<le> GetSigOpCount script False"
  unfolding GetSigOpCount_def by (rule sigop_loop_mono) simp

end
