(* ===== verification/Coins.thy ===== *)
theory Coins
  imports Transaction Script "HOL-Library.AList"
begin

text \<open>
  The set of unspent outputs: coins, the cache over another view (\<open>coins.h\<close>, \<open>coins.cpp\<close>) and the view of
  the database (\<open>txdb.cpp\<close>). A view is the record of its virtual functions; a query may change the view,
  because caches fill themselves. An unordered map is a list of its entries in the order it is iterated.
\<close>

section \<open>Coins\<close>

record Coin =
  coin_out :: CTxOut
  fCoinBase :: bool
  coin_nHeight :: nat

definition Coin_new :: "CTxOut \<Rightarrow> int \<Rightarrow> bool \<Rightarrow> Coin" where
  "Coin_new outIn nHeightIn fCoinBaseIn =
     \<lparr> coin_out = outIn, fCoinBase = fCoinBaseIn, coin_nHeight = nat (nHeightIn mod 2 ^ 31) \<rparr>"

definition coinEmpty :: Coin where
  "coinEmpty = \<lparr> coin_out = \<lparr> nValue = - 1, scriptPubKey = [] \<rparr>, fCoinBase = False, coin_nHeight = 0 \<rparr>"

definition Coin_Clear :: "Coin \<Rightarrow> Coin" where
  "Coin_Clear coin = coin\<lparr> coin_out := \<lparr> nValue = - 1, scriptPubKey = [] \<rparr>, fCoinBase := False, coin_nHeight := 0 \<rparr>"

definition IsSpent :: "Coin \<Rightarrow> bool" where
  "IsSpent coin = CTxOut_IsNull (coin_out coin)"

lemma IsSpent_simps [simp]: "IsSpent coinEmpty" "IsSpent (Coin_Clear coin)"
  by (simp_all add: IsSpent_def coinEmpty_def Coin_Clear_def CTxOut_IsNull_def)

text \<open>An entry of a cache, with the two bits of its flags.\<close>

record CCoinsCacheEntry =
  entry_coin :: Coin
  DIRTY :: bool
  FRESH :: bool

type_synonym CCoinsMap = "(COutPoint \<times> CCoinsCacheEntry) list"

section \<open>Views\<close>

text \<open>A \<open>logic_error\<close> that is thrown, and an assertion that fails.\<close>

datatype coins_error = LogicError | AssertionFailed

record 'v CCoinsView =
  view_GetCoin :: "'v \<Rightarrow> COutPoint \<Rightarrow> Coin option \<times> 'v"
  view_GetBestBlock :: "'v \<Rightarrow> uint256 \<times> 'v"
  view_BatchWrite :: "'v \<Rightarrow> CCoinsMap \<Rightarrow> uint256 \<Rightarrow> coins_error + (bool \<times> 'v)"

section \<open>The cache\<close>

record 'b CCoinsViewCache =
  cache_base :: 'b
  cache_hashBlock :: uint256
  cacheCoins :: CCoinsMap

definition CCoinsViewCache_new :: "'b \<Rightarrow> 'b CCoinsViewCache" where
  "CCoinsViewCache_new baseIn = \<lparr> cache_base = baseIn, cache_hashBlock = 0, cacheCoins = [] \<rparr>"

definition FetchCoin ::
  "'b CCoinsView \<Rightarrow> 'b CCoinsViewCache \<Rightarrow> COutPoint \<Rightarrow> CCoinsCacheEntry option \<times> 'b CCoinsViewCache" where
  "FetchCoin ops c outpoint =
     (case map_of (cacheCoins c) outpoint of
        Some e \<Rightarrow> (Some e, c)
      | None \<Rightarrow>
          (case view_GetCoin ops (cache_base c) outpoint of
             (None, b) \<Rightarrow> (None, c\<lparr> cache_base := b \<rparr>)
           | (Some tmp, b) \<Rightarrow>
               let ret = \<lparr> entry_coin = tmp, DIRTY = False, FRESH = IsSpent tmp \<rparr>
               in (Some ret, c\<lparr> cache_base := b, cacheCoins := AList.update outpoint ret (cacheCoins c) \<rparr>)))"

definition GetCoin :: "'b CCoinsView \<Rightarrow> 'b CCoinsViewCache \<Rightarrow> COutPoint \<Rightarrow> Coin option \<times> 'b CCoinsViewCache" where
  "GetCoin ops c outpoint =
     (case FetchCoin ops c outpoint of
        (Some e, c') \<Rightarrow> (if IsSpent (entry_coin e) then None else Some (entry_coin e), c')
      | (None, c') \<Rightarrow> (None, c'))"

definition AddCoin :: "COutPoint \<Rightarrow> Coin \<Rightarrow> bool \<Rightarrow> 'b CCoinsViewCache \<Rightarrow> coins_error + 'b CCoinsViewCache" where
  "AddCoin outpoint coin_in possible_overwrite c =
     (if IsSpent coin_in then Inl AssertionFailed
      else if IsUnspendable (scriptPubKey (coin_out coin_in)) then Inr c
      else let it = (case map_of (cacheCoins c) outpoint of
                       Some e \<Rightarrow> e
                     | None \<Rightarrow> \<lparr> entry_coin = coinEmpty, DIRTY = False, FRESH = False \<rparr>)
           in if \<not> possible_overwrite \<and> \<not> IsSpent (entry_coin it) then Inl LogicError
              else let fresh = (\<not> possible_overwrite \<and> \<not> DIRTY it)
                   in Inr (c\<lparr> cacheCoins := AList.update outpoint
                               \<lparr> entry_coin = coin_in, DIRTY = True, FRESH = FRESH it \<or> fresh \<rparr> (cacheCoins c) \<rparr>))"

text \<open>Whether an entry was found, and the coin moved out.\<close>

definition SpendCoin :: "'b CCoinsView \<Rightarrow> COutPoint \<Rightarrow> 'b CCoinsViewCache \<Rightarrow> Coin option \<times> 'b CCoinsViewCache" where
  "SpendCoin ops outpoint c =
     (case FetchCoin ops c outpoint of
        (None, c') \<Rightarrow> (None, c')
      | (Some it, c') \<Rightarrow>
          (Some (entry_coin it),
           c'\<lparr> cacheCoins := (if FRESH it then AList.delete outpoint (cacheCoins c')
                else AList.update outpoint (it\<lparr> DIRTY := True, entry_coin := Coin_Clear (entry_coin it) \<rparr>) (cacheCoins c')) \<rparr>))"

definition AccessCoin :: "'b CCoinsView \<Rightarrow> 'b CCoinsViewCache \<Rightarrow> COutPoint \<Rightarrow> Coin \<times> 'b CCoinsViewCache" where
  "AccessCoin ops c outpoint =
     (case FetchCoin ops c outpoint of (None, c') \<Rightarrow> (coinEmpty, c') | (Some it, c') \<Rightarrow> (entry_coin it, c'))"

definition HaveCoin :: "'b CCoinsView \<Rightarrow> 'b CCoinsViewCache \<Rightarrow> COutPoint \<Rightarrow> bool \<times> 'b CCoinsViewCache" where
  "HaveCoin ops c outpoint =
     (case FetchCoin ops c outpoint of (None, c') \<Rightarrow> (False, c') | (Some it, c') \<Rightarrow> (\<not> IsSpent (entry_coin it), c'))"

definition HaveCoinInCache :: "'b CCoinsViewCache \<Rightarrow> COutPoint \<Rightarrow> bool" where
  "HaveCoinInCache c outpoint =
     (case map_of (cacheCoins c) outpoint of None \<Rightarrow> False | Some it \<Rightarrow> \<not> IsSpent (entry_coin it))"

definition GetBestBlock :: "'b CCoinsView \<Rightarrow> 'b CCoinsViewCache \<Rightarrow> uint256 \<times> 'b CCoinsViewCache" where
  "GetBestBlock ops c =
     (if cache_hashBlock c = 0
      then case view_GetBestBlock ops (cache_base c) of (h, b) \<Rightarrow> (h, c\<lparr> cache_base := b, cache_hashBlock := h \<rparr>)
      else (cache_hashBlock c, c))"

definition SetBestBlock :: "uint256 \<Rightarrow> 'b CCoinsViewCache \<Rightarrow> 'b CCoinsViewCache" where
  "SetBestBlock hashBlockIn c = c\<lparr> cache_hashBlock := hashBlockIn \<rparr>"

text \<open>One entry of the child, in the loop of \<open>BatchWrite\<close>.\<close>

definition write_entry :: "CCoinsMap \<Rightarrow> COutPoint \<times> CCoinsCacheEntry \<Rightarrow> coins_error + CCoinsMap" where
  "write_entry us it =
     (case it of (outpoint, e) \<Rightarrow>
        if DIRTY e
        then case map_of us outpoint of
               None \<Rightarrow>
                 if \<not> (FRESH e \<and> IsSpent (entry_coin e))
                 then Inr (AList.update outpoint \<lparr> entry_coin = entry_coin e, DIRTY = True, FRESH = FRESH e \<rparr> us)
                 else Inr us
             | Some u \<Rightarrow>
                 if FRESH e \<and> \<not> IsSpent (entry_coin u) then Inl LogicError
                 else if FRESH u \<and> IsSpent (entry_coin e) then Inr (AList.delete outpoint us)
                 else Inr (AList.update outpoint (u\<lparr> entry_coin := entry_coin e, DIRTY := True \<rparr>) us)
        else Inr us)"

primrec write_entries :: "CCoinsMap \<Rightarrow> CCoinsMap \<Rightarrow> coins_error + CCoinsMap" where
  "write_entries us [] = Inr us"
| "write_entries us (it # mapCoins) = sbind (write_entry us it) (\<lambda>us'. write_entries us' mapCoins)"

definition BatchWrite ::
  "'b CCoinsViewCache \<Rightarrow> CCoinsMap \<Rightarrow> uint256 \<Rightarrow> coins_error + (bool \<times> 'b CCoinsViewCache)" where
  "BatchWrite c mapCoins hashBlockIn =
     sbind (write_entries (cacheCoins c) mapCoins) (\<lambda>us.
       Inr (True, c\<lparr> cacheCoins := us, cache_hashBlock := hashBlockIn \<rparr>))"

definition Flush :: "'b CCoinsView \<Rightarrow> 'b CCoinsViewCache \<Rightarrow> coins_error + (bool \<times> 'b CCoinsViewCache)" where
  "Flush ops c =
     sbind (view_BatchWrite ops (cache_base c) (cacheCoins c) (cache_hashBlock c)) (\<lambda>(fOk, b).
       Inr (fOk, c\<lparr> cache_base := b, cacheCoins := [] \<rparr>))"

definition Uncache :: "COutPoint \<Rightarrow> 'b CCoinsViewCache \<Rightarrow> 'b CCoinsViewCache" where
  "Uncache outpoint c =
     (case map_of (cacheCoins c) outpoint of
        None \<Rightarrow> c
      | Some it \<Rightarrow> if \<not> DIRTY it \<and> \<not> FRESH it then c\<lparr> cacheCoins := AList.delete outpoint (cacheCoins c) \<rparr> else c)"

definition GetCacheSize :: "'b CCoinsViewCache \<Rightarrow> nat" where
  "GetCacheSize c = length (cacheCoins c)"

text \<open>The cache as a view.\<close>

definition cache_view :: "'b CCoinsView \<Rightarrow> 'b CCoinsViewCache CCoinsView" where
  "cache_view ops = \<lparr> view_GetCoin = GetCoin ops, view_GetBestBlock = GetBestBlock ops, view_BatchWrite = BatchWrite \<rparr>"

section \<open>The view of the database\<close>

text \<open>
  The entries of the database that the view uses: the coins, the best block and the two blocks of an
  interrupted transition. A batch is a list of changes that are made together.
\<close>

record CCoinsViewDB =
  db_coins :: "COutPoint \<rightharpoonup> Coin"
  db_best :: "uint256 option"
  db_heads :: "uint256 list option"

datatype db_change = EraseCoin COutPoint | WriteCoin COutPoint Coin | EraseBest | WriteBest uint256
  | EraseHeads | WriteHeads "uint256 list"

fun db_apply :: "db_change \<Rightarrow> CCoinsViewDB \<Rightarrow> CCoinsViewDB" where
  "db_apply (EraseCoin p) d = d\<lparr> db_coins := (db_coins d)(p := None) \<rparr>"
| "db_apply (WriteCoin p c) d = d\<lparr> db_coins := (db_coins d)(p \<mapsto> c) \<rparr>"
| "db_apply EraseBest d = d\<lparr> db_best := None \<rparr>"
| "db_apply (WriteBest h) d = d\<lparr> db_best := Some h \<rparr>"
| "db_apply EraseHeads d = d\<lparr> db_heads := None \<rparr>"
| "db_apply (WriteHeads hs) d = d\<lparr> db_heads := Some hs \<rparr>"

definition WriteBatch :: "db_change list \<Rightarrow> CCoinsViewDB \<Rightarrow> CCoinsViewDB" where
  "WriteBatch batch d = fold db_apply batch d"

definition DB_GetBestBlock :: "CCoinsViewDB \<Rightarrow> uint256" where
  "DB_GetBestBlock d = (case db_best d of None \<Rightarrow> 0 | Some h \<Rightarrow> h)"

definition DB_GetHeadBlocks :: "CCoinsViewDB \<Rightarrow> uint256 list" where
  "DB_GetHeadBlocks d = (case db_heads d of None \<Rightarrow> [] | Some hs \<Rightarrow> hs)"

text \<open>
  The batches the loop writes, from the one that is being filled. \<open>SizeEstimate\<close> is the database
  library's; \<open>batch_size\<close> an option of the node.
\<close>

primrec db_batches ::
  "(db_change list \<Rightarrow> nat) \<Rightarrow> nat \<Rightarrow> uint256 \<Rightarrow> db_change list \<Rightarrow> CCoinsMap \<Rightarrow> db_change list list" where
  "db_batches SizeEstimate batch_size h batch [] = [batch @ [EraseHeads, WriteBest h]]"
| "db_batches SizeEstimate batch_size h batch (it # mapCoins) =
     (let e = snd it;
          batch' = (if DIRTY e
                    then batch @ [if IsSpent (entry_coin e) then EraseCoin (fst it) else WriteCoin (fst it) (entry_coin e)]
                    else batch)
      in if SizeEstimate batch' > batch_size
         then batch' # db_batches SizeEstimate batch_size h [] mapCoins
         else db_batches SizeEstimate batch_size h batch' mapCoins)"

text \<open>The batches of a call, or the assertion that fails.\<close>

definition DB_batches_of ::
  "(db_change list \<Rightarrow> nat) \<Rightarrow> nat \<Rightarrow> CCoinsViewDB \<Rightarrow> CCoinsMap \<Rightarrow> uint256 \<Rightarrow> coins_error + db_change list list" where
  "DB_batches_of SizeEstimate batch_size d mapCoins h =
     (let old_tip = DB_GetBestBlock d; old_heads = DB_GetHeadBlocks d;
          replaying = (old_tip = 0 \<and> length old_heads = 2)
      in if h = 0 then Inl AssertionFailed
         else if replaying \<and> old_heads ! 0 \<noteq> h then Inl AssertionFailed
         else Inr (db_batches SizeEstimate batch_size h
                [EraseBest, WriteHeads [h, if replaying then old_heads ! 1 else old_tip]] mapCoins))"

definition DB_BatchWrite ::
  "(db_change list \<Rightarrow> nat) \<Rightarrow> nat \<Rightarrow> CCoinsViewDB \<Rightarrow> CCoinsMap \<Rightarrow> uint256 \<Rightarrow> coins_error + (bool \<times> CCoinsViewDB)" where
  "DB_BatchWrite SizeEstimate batch_size d mapCoins h =
     sbind (DB_batches_of SizeEstimate batch_size d mapCoins h) (\<lambda>batches. Inr (True, fold WriteBatch batches d))"

definition db_view :: "(db_change list \<Rightarrow> nat) \<Rightarrow> nat \<Rightarrow> CCoinsViewDB CCoinsView" where
  "db_view SizeEstimate batch_size =
     \<lparr> view_GetCoin = (\<lambda>d p. (db_coins d p, d)), view_GetBestBlock = (\<lambda>d. (DB_GetBestBlock d, d)),
       view_BatchWrite = DB_BatchWrite SizeEstimate batch_size \<rparr>"

section \<open>What a view promises\<close>

definition coin_opt :: "Coin \<Rightarrow> Coin option" where
  "coin_opt c = (if IsSpent c then None else Some c)"

text \<open>The coins seen through the entries of a map over other coins.\<close>

definition overlay :: "(COutPoint \<rightharpoonup> Coin) \<Rightarrow> CCoinsMap \<Rightarrow> COutPoint \<rightharpoonup> Coin" where
  "overlay A m p = (case map_of m p of None \<Rightarrow> A p | Some e \<Rightarrow> coin_opt (entry_coin e))"

text \<open>What the flags of the entries of a map say of the coins below it.\<close>

definition entries_ok :: "(COutPoint \<rightharpoonup> Coin) \<Rightarrow> CCoinsMap \<Rightarrow> bool" where
  "entries_ok A m \<longleftrightarrow> distinct (map fst m) \<and>
     (\<forall>p e. map_of m p = Some e \<longrightarrow> (FRESH e \<longrightarrow> A p = None) \<and> (\<not> DIRTY e \<longrightarrow> A p = coin_opt (entry_coin e)))"

lemma coin_opt_simps [simp]: "coin_opt (Coin_Clear c) = None" "coin_opt coinEmpty = None"
  "coin_opt c = None \<longleftrightarrow> IsSpent c" "coin_opt c = Some c' \<longleftrightarrow> c' = c \<and> \<not> IsSpent c"
  by (auto simp: coin_opt_def)

lemma overlay_Nil [simp]: "overlay A [] = A"
  by (simp add: overlay_def fun_eq_iff)

lemma overlay_update: "overlay A (AList.update p e m) = (overlay A m)(p := coin_opt (entry_coin e))"
  by (auto simp: overlay_def update_conv' fun_eq_iff)

lemma overlay_delete: "overlay A (AList.delete p m) = (overlay A m)(p := A p)"
  by (auto simp: overlay_def delete_conv' fun_eq_iff)

lemma entries_ok_update:
  assumes "entries_ok A m" "FRESH e \<longrightarrow> A p = None" "\<not> DIRTY e \<longrightarrow> A p = coin_opt (entry_coin e)"
  shows "entries_ok A (AList.update p e m)"
  using assms by (auto simp: entries_ok_def update_conv' distinct_update)

lemma entries_ok_delete: "entries_ok A m \<Longrightarrow> entries_ok A (AList.delete p m)"
  by (auto simp: entries_ok_def delete_conv' distinct_delete map_of_eq_None_iff split: if_splits)

lemma entries_okD:
  assumes "entries_ok A m" "map_of m p = Some e"
  shows "FRESH e \<Longrightarrow> A p = None" "\<not> DIRTY e \<Longrightarrow> A p = coin_opt (entry_coin e)"
  using assms by (auto simp: entries_ok_def)

definition cache_abs :: "('b \<Rightarrow> COutPoint \<rightharpoonup> Coin) \<Rightarrow> 'b CCoinsViewCache \<Rightarrow> COutPoint \<rightharpoonup> Coin" where
  "cache_abs A c = overlay (A (cache_base c)) (cacheCoins c)"

definition cache_inv :: "('b \<Rightarrow> COutPoint \<rightharpoonup> Coin) \<Rightarrow> ('b \<Rightarrow> bool) \<Rightarrow> 'b CCoinsViewCache \<Rightarrow> bool" where
  "cache_inv A I c \<longleftrightarrow> I (cache_base c) \<and> entries_ok (A (cache_base c)) (cacheCoins c)"

definition cache_best :: "('b \<Rightarrow> uint256) \<Rightarrow> 'b CCoinsViewCache \<Rightarrow> uint256" where
  "cache_best B c = (if cache_hashBlock c = 0 then B (cache_base c) else cache_hashBlock c)"

locale coins_view =
  fixes ops :: "'v CCoinsView" and A :: "'v \<Rightarrow> COutPoint \<rightharpoonup> Coin" and I :: "'v \<Rightarrow> bool" and B :: "'v \<Rightarrow> uint256"
  assumes GetCoin_law: "I v \<Longrightarrow> view_GetCoin ops v p = (r, v') \<Longrightarrow> r = A v p \<and> A v' = A v \<and> I v' \<and> B v' = B v"
    and unspent: "I v \<Longrightarrow> A v p = Some c \<Longrightarrow> \<not> IsSpent c"
    and GetBestBlock_law: "I v \<Longrightarrow> view_GetBestBlock ops v = (h, v') \<Longrightarrow> h = B v \<and> A v' = A v \<and> I v' \<and> B v' = B v"
    and BatchWrite_law: "I v \<Longrightarrow> entries_ok (A v) m \<Longrightarrow> h \<noteq> 0 \<Longrightarrow>
      \<exists>v'. view_BatchWrite ops v m h = Inr (True, v') \<and> I v' \<and> A v' = overlay (A v) m \<and> B v' = h"
begin

lemma FetchCoin_law:
  assumes "cache_inv A I c" "FetchCoin ops c p = (r, c')"
  shows "cache_inv A I c' \<and> cache_abs A c' = cache_abs A c \<and> cache_best B c' = cache_best B c \<and>
    A (cache_base c') = A (cache_base c) \<and> map_of (cacheCoins c') p = r \<and>
    cache_abs A c p = (case r of None \<Rightarrow> None | Some e \<Rightarrow> coin_opt (entry_coin e))"
proof (cases "map_of (cacheCoins c) p")
  case (Some e)
  with assms have "r = Some e" "c' = c" by (simp_all add: FetchCoin_def)
  with assms(1) Some show ?thesis by (simp add: cache_abs_def overlay_def)
next
  case None
  obtain q b where get: "view_GetCoin ops (cache_base c) p = (q, b)" by fastforce
  have I: "I (cache_base c)" using assms(1) by (simp add: cache_inv_def)
  note law = GetCoin_law [OF I get]
  have here: "cache_abs A c p = q" using None law by (simp add: cache_abs_def overlay_def)
  show ?thesis
  proof (cases q)
    case None
    with assms \<open>map_of (cacheCoins c) p = None\<close> get law here show ?thesis
      by (auto simp: FetchCoin_def cache_inv_def cache_abs_def cache_best_def)
  next
    case (Some tmp)
    then have "\<not> IsSpent tmp" "A (cache_base c) p = Some tmp" using unspent [OF I] law by auto
    moreover define e where "e = \<lparr> entry_coin = tmp, DIRTY = False, FRESH = IsSpent tmp \<rparr>"
    moreover have "r = Some e" "c' = c\<lparr> cache_base := b, cacheCoins := AList.update p e (cacheCoins c) \<rparr>"
      using assms(2) get Some \<open>map_of (cacheCoins c) p = None\<close> by (auto simp: FetchCoin_def e_def Let_def)
    moreover have "(cache_abs A c)(p := Some tmp) = cache_abs A c" using here Some by (simp add: fun_upd_idem)
    ultimately show ?thesis
      using law here Some assms(1)
      by (simp add: cache_inv_def cache_abs_def cache_best_def overlay_update update_conv' entries_ok_update coin_opt_def)
  qed
qed

lemma cache_unspent: "cache_inv A I c \<Longrightarrow> cache_abs A c p = Some d \<Longrightarrow> \<not> IsSpent d"
  using unspent by (auto simp: cache_abs_def overlay_def cache_inv_def split: option.splits)

text \<open>Queries return what the coins say, and change nothing but what is cached.\<close>

lemma query_laws:
  assumes "cache_inv A I c"
  shows "GetCoin ops c p = (r, c') \<Longrightarrow> r = cache_abs A c p \<and> cache_abs A c' = cache_abs A c \<and> cache_inv A I c' \<and> cache_best B c' = cache_best B c"
    and "HaveCoin ops c p = (b, c') \<Longrightarrow> b = (cache_abs A c p \<noteq> None) \<and> cache_abs A c' = cache_abs A c \<and> cache_inv A I c' \<and> cache_best B c' = cache_best B c"
    and "AccessCoin ops c p = (d, c') \<Longrightarrow> coin_opt d = cache_abs A c p \<and> cache_abs A c' = cache_abs A c \<and> cache_inv A I c' \<and> cache_best B c' = cache_best B c"
  using FetchCoin_law [OF assms, of p]
  by (auto simp: GetCoin_def HaveCoin_def AccessCoin_def coin_opt_def split: option.splits prod.splits if_splits)

lemma SpendCoin_law:
  assumes "cache_inv A I c" "SpendCoin ops p c = (r, c')"
  shows "cache_abs A c' = (cache_abs A c)(p := None) \<and> cache_inv A I c' \<and> cache_best B c' = cache_best B c \<and>
    cache_abs A c p = (case r of None \<Rightarrow> None | Some d \<Rightarrow> coin_opt d)"
proof -
  obtain q c1 where fetch: "FetchCoin ops c p = (q, c1)" by fastforce
  note law = FetchCoin_law [OF assms(1) fetch]
  show ?thesis
  proof (cases q)
    case None
    with law assms(2) fetch show ?thesis by (auto simp: SpendCoin_def)
  next
    case (Some it)
    then have "FRESH it \<Longrightarrow> A (cache_base c1) p = None" using law entries_okD(1) by (auto simp: cache_inv_def)
    with Some law assms(2) fetch show ?thesis
      by (auto simp: SpendCoin_def cache_abs_def cache_inv_def cache_best_def overlay_delete overlay_update
          intro!: entries_ok_delete entries_ok_update)
  qed
qed

text \<open>
  The caller of \<open>AddCoin\<close> may only rule out an overwrite if there is no coin. Then no exception is thrown.
\<close>

lemma AddCoin_law:
  assumes "cache_inv A I c" "\<not> IsSpent d" "possible_overwrite \<or> cache_abs A c p = None"
  obtains c' where "AddCoin p d possible_overwrite c = Inr c'" "cache_inv A I c'" "cache_best B c' = cache_best B c"
    "cache_abs A c' = (if IsUnspendable (scriptPubKey (coin_out d)) then cache_abs A c else (cache_abs A c)(p \<mapsto> d))"
proof (cases "IsUnspendable (scriptPubKey (coin_out d))")
  case True
  with assms show ?thesis by (intro that [of c]) (simp_all add: AddCoin_def)
next
  case False
  define it where "it = (case map_of (cacheCoins c) p of Some e \<Rightarrow> e
    | None \<Rightarrow> \<lparr> entry_coin = coinEmpty, DIRTY = False, FRESH = False \<rparr>)"
  let ?b = "A (cache_base c)" and ?fresh = "\<not> possible_overwrite \<and> \<not> DIRTY it"
  let ?c = "c\<lparr> cacheCoins := AList.update p \<lparr> entry_coin = d, DIRTY = True, FRESH = FRESH it \<or> ?fresh \<rparr> (cacheCoins c) \<rparr>"
  have ok: "entries_ok ?b (cacheCoins c)" using assms(1) by (simp add: cache_inv_def)
  have fresh: "FRESH it \<or> ?fresh \<longrightarrow> ?b p = None"
    using assms(3) entries_okD [OF ok, of p]
    by (auto simp: it_def cache_abs_def overlay_def split: option.splits)
  have "possible_overwrite \<or> IsSpent (entry_coin it)"
    using assms(3) by (auto simp: it_def cache_abs_def overlay_def split: option.splits)
  then have "AddCoin p d possible_overwrite c = Inr ?c"
    using assms(2) False by (auto simp: AddCoin_def it_def [symmetric] Let_def)
  moreover have "cache_inv A I ?c" using assms(1) fresh by (auto simp: cache_inv_def intro!: entries_ok_update)
  moreover have "cache_abs A ?c = (cache_abs A c)(p \<mapsto> d)"
    using assms(2) by (simp add: cache_abs_def overlay_update coin_opt_def)
  ultimately show ?thesis using False by (intro that [of ?c]) (simp_all add: cache_best_def)
qed

lemma Uncache_law:
  assumes "cache_inv A I c"
  shows "cache_abs A (Uncache p c) = cache_abs A c \<and> cache_inv A I (Uncache p c) \<and> cache_best B (Uncache p c) = cache_best B c"
proof (cases "\<exists>it. map_of (cacheCoins c) p = Some it \<and> \<not> DIRTY it \<and> \<not> FRESH it")
  case True
  then obtain it where it: "map_of (cacheCoins c) p = Some it" "\<not> DIRTY it" "\<not> FRESH it" by blast
  then have "A (cache_base c) p = cache_abs A c p"
    using assms entries_okD(2) [of "A (cache_base c)" "cacheCoins c" p it] by (simp add: cache_inv_def cache_abs_def overlay_def)
  then have "(cache_abs A c)(p := A (cache_base c) p) = cache_abs A c" by (simp add: fun_upd_idem)
  with it assms show ?thesis
    by (simp add: Uncache_def cache_abs_def cache_inv_def cache_best_def overlay_delete entries_ok_delete)
next
  case False
  then have "Uncache p c = c" by (auto simp: Uncache_def split: option.split)
  with assms show ?thesis by simp
qed

lemma Flush_law:
  assumes "cache_inv A I c" "cache_hashBlock c \<noteq> 0"
  obtains c' where "Flush ops c = Inr (True, c')" "cache_inv A I c'" "cache_abs A c' = cache_abs A c"
    "A (cache_base c') = cache_abs A c" "B (cache_base c') = cache_hashBlock c" "cacheCoins c' = []"
proof -
  from assms obtain b where "view_BatchWrite ops (cache_base c) (cacheCoins c) (cache_hashBlock c) = Inr (True, b)"
    "I b" "A b = overlay (A (cache_base c)) (cacheCoins c)" "B b = cache_hashBlock c"
    using BatchWrite_law [of "cache_base c" "cacheCoins c" "cache_hashBlock c"] by (auto simp: cache_inv_def)
  then show ?thesis
    by (intro that [of "c\<lparr> cache_base := b, cacheCoins := [] \<rparr>"])
      (simp_all add: Flush_def cache_inv_def cache_abs_def entries_ok_def)
qed

lemma write_entry_law:
  assumes "entries_ok b us" "FRESH e \<longrightarrow> overlay b us p = None" "\<not> DIRTY e \<longrightarrow> overlay b us p = coin_opt (entry_coin e)"
  obtains us' where "write_entry us (p, e) = Inr us'" "entries_ok b us'"
    "overlay b us' = (overlay b us)(p := coin_opt (entry_coin e))"
proof -
  have fresh: "b p = None" if "map_of us p = Some u" "FRESH u" for u using entries_okD(1) [OF assms(1) that] .
  have idem: "overlay b us p = x \<Longrightarrow> (overlay b us)(p := x) = overlay b us" for x by (simp add: fun_upd_idem)
  consider "\<not> DIRTY e" | "DIRTY e" "map_of us p = None" "FRESH e \<and> IsSpent (entry_coin e)"
    | "DIRTY e" "map_of us p = None" "\<not> (FRESH e \<and> IsSpent (entry_coin e))"
    | u where "DIRTY e" "map_of us p = Some u" by (cases "map_of us p") auto
  then show ?thesis
  proof cases
    case 1
    then show ?thesis using assms idem by (intro that [of us]) (simp_all add: write_entry_def)
  next
    case 2
    then show ?thesis using assms idem by (intro that [of us]) (simp_all add: write_entry_def coin_opt_def)
  next
    case 3
    moreover have "FRESH e \<longrightarrow> b p = None" using 3 assms(2) by (simp add: overlay_def)
    ultimately show ?thesis using assms(1)
      by (intro that [of "AList.update p \<lparr> entry_coin = entry_coin e, DIRTY = True, FRESH = FRESH e \<rparr> us"])
        (auto simp: write_entry_def overlay_update intro!: entries_ok_update)
  next
    case (4 u)
    have no_throw: "\<not> (FRESH e \<and> \<not> IsSpent (entry_coin u))" using assms(2) 4 by (auto simp: overlay_def)
    show ?thesis
    proof (cases "FRESH u \<and> IsSpent (entry_coin e)")
      case True
      with 4 no_throw fresh assms(1) show ?thesis
        by (intro that [of "AList.delete p us"]) (auto simp: write_entry_def overlay_delete entries_ok_delete coin_opt_def)
    next
      case False
      with 4 no_throw fresh assms(1) show ?thesis
        by (intro that [of "AList.update p (u\<lparr> entry_coin := entry_coin e, DIRTY := True \<rparr>) us"])
          (auto simp: write_entry_def overlay_update intro!: entries_ok_update)
    qed
  qed
qed

lemma overlay_Cons: "map_of m p = None \<Longrightarrow> overlay b ((p, e) # m) = overlay (b(p := coin_opt (entry_coin e))) m"
  by (auto simp: overlay_def fun_eq_iff split: option.split)

lemma write_entries_law:
  assumes "entries_ok b us" "entries_ok (overlay b us) m"
  obtains us' where "write_entries us m = Inr us'" "entries_ok b us'" "overlay b us' = overlay (overlay b us) m"
  using assms
proof (induction m arbitrary: us thesis)
  case Nil
  then show ?case by simp
next
  case (Cons it m)
  obtain p e where it: "it = (p, e)" by (cases it)
  have p: "map_of m p = None" and flags: "FRESH e \<longrightarrow> overlay b us p = None" "\<not> DIRTY e \<longrightarrow> overlay b us p = coin_opt (entry_coin e)"
    using Cons.prems(3) by (auto simp: it entries_ok_def map_of_eq_None_iff)
  obtain us1 where us1: "write_entry us (p, e) = Inr us1" "entries_ok b us1"
    "overlay b us1 = (overlay b us)(p := coin_opt (entry_coin e))"
    by (rule write_entry_law [OF Cons.prems(2) flags])
  have "entries_ok (overlay b us1) m"
    using Cons.prems(3) p by (fastforce simp: us1(3) it entries_ok_def)
  from Cons.IH [OF _ us1(2) this] obtain us' where "write_entries us1 m = Inr us'" "entries_ok b us'"
    "overlay b us' = overlay (overlay b us1) m" by blast
  with us1 p it Cons.prems(1) show ?case by (simp add: overlay_Cons)
qed

lemma cache_is_view: "coins_view (cache_view ops) (cache_abs A) (cache_inv A I) (cache_best B)"
proof unfold_locales
  fix c p r c'
  assume c: "cache_inv A I c"
  show "view_GetCoin (cache_view ops) c p = (r, c') \<Longrightarrow>
    r = cache_abs A c p \<and> cache_abs A c' = cache_abs A c \<and> cache_inv A I c' \<and> cache_best B c' = cache_best B c"
    using query_laws(1) [OF c] by (simp add: cache_view_def)
next
  fix c p d
  show "cache_inv A I c \<Longrightarrow> cache_abs A c p = Some d \<Longrightarrow> \<not> IsSpent d" by (rule cache_unspent)
next
  fix c h c'
  assume "cache_inv A I c" "view_GetBestBlock (cache_view ops) c = (h, c')"
  then show "h = cache_best B c \<and> cache_abs A c' = cache_abs A c \<and> cache_inv A I c' \<and> cache_best B c' = cache_best B c"
    using GetBestBlock_law [of "cache_base c"]
    by (auto simp: cache_view_def GetBestBlock_def cache_best_def cache_abs_def cache_inv_def split: if_splits prod.splits)
next
  fix c m and h :: uint256
  assume c: "cache_inv A I c" and m: "entries_ok (cache_abs A c) m" and "h \<noteq> 0"
  obtain us where "write_entries (cacheCoins c) m = Inr us" "entries_ok (A (cache_base c)) us"
    "overlay (A (cache_base c)) us = overlay (cache_abs A c) m"
    using write_entries_law [of "A (cache_base c)" "cacheCoins c" m] c m by (auto simp: cache_inv_def cache_abs_def)
  with c \<open>h \<noteq> 0\<close> show "\<exists>c'. view_BatchWrite (cache_view ops) c m h = Inr (True, c') \<and> cache_inv A I c' \<and>
      cache_abs A c' = overlay (cache_abs A c) m \<and> cache_best B c' = h"
    by (simp add: cache_view_def BatchWrite_def cache_inv_def cache_abs_def cache_best_def)
qed

end

section \<open>The database is a view\<close>

text \<open>The database when no transition is under way.\<close>

definition db_inv :: "CCoinsViewDB \<Rightarrow> bool" where
  "db_inv d \<longleftrightarrow> (\<forall>p c. db_coins d p = Some c \<longrightarrow> \<not> IsSpent c) \<and> db_heads d = None"

lemma fold_db_batches:
  "fold WriteBatch (db_batches est bsize h batch m) d = WriteBatch
     (batch @ map (\<lambda>(p, e). if IsSpent (entry_coin e) then EraseCoin p else WriteCoin p (entry_coin e)) (filter (DIRTY \<circ> snd) m)
        @ [EraseHeads, WriteBest h]) d"
  by (induction m arbitrary: batch d) (auto simp: WriteBatch_def Let_def split: prod.splits)

lemma write_coins:
  assumes "distinct (map fst m)"
  shows "fold db_apply (map (\<lambda>(p, e). if IsSpent (entry_coin e) then EraseCoin p else WriteCoin p (entry_coin e))
      (filter (DIRTY \<circ> snd) m)) d =
    d\<lparr> db_coins := (\<lambda>p. case map_of m p of Some e \<Rightarrow> if DIRTY e then coin_opt (entry_coin e) else db_coins d p
                     | None \<Rightarrow> db_coins d p) \<rparr>"
  using assms
proof (induction m arbitrary: d)
  case (Cons it m)
  obtain p e where it: "it = (p, e)" by (cases it)
  have "distinct (map fst m)" "map_of m p = None"
    using Cons.prems by (auto simp: it map_of_eq_None_iff)
  then show ?case
    using Cons.IH by (auto simp: it coin_opt_def fun_eq_iff split: option.split)
qed simp

interpretation db: coins_view "db_view est bsize" db_coins db_inv DB_GetBestBlock for est bsize
proof unfold_locales
  fix d m and h :: uint256
  assume "db_inv d" and m: "entries_ok (db_coins d) m" and "h \<noteq> 0"
  let ?w = "map (\<lambda>(p, e). if IsSpent (entry_coin e) then EraseCoin p else WriteCoin p (entry_coin e)) (filter (DIRTY \<circ> snd) m)"
  have coins: "(\<lambda>p. case map_of m p of Some e \<Rightarrow> if DIRTY e then coin_opt (entry_coin e) else db_coins d p
      | None \<Rightarrow> db_coins d p) = overlay (db_coins d) m"
    using m by (auto simp: overlay_def fun_eq_iff entries_ok_def split: option.split)
  have "DB_batches_of est bsize d m h = Inr (db_batches est bsize h [EraseBest, WriteHeads [h, DB_GetBestBlock d]] m)"
    using \<open>db_inv d\<close> \<open>h \<noteq> 0\<close> by (auto simp: DB_batches_of_def db_inv_def DB_GetHeadBlocks_def Let_def)
  moreover have dist: "distinct (map fst m)" using m by (simp add: entries_ok_def)
  ultimately have "DB_BatchWrite est bsize d m h = Inr (True, d\<lparr> db_coins := overlay (db_coins d) m, db_best := Some h, db_heads := None \<rparr>)"
    using coins by (simp add: DB_BatchWrite_def fold_db_batches WriteBatch_def write_coins [OF dist] cong: option.case_cong if_cong)
  then show "\<exists>d'. view_BatchWrite (db_view est bsize) d m h = Inr (True, d') \<and> db_inv d' \<and>
      db_coins d' = overlay (db_coins d) m \<and> DB_GetBestBlock d' = h"
    using \<open>db_inv d\<close> by (auto simp: db_view_def db_inv_def DB_GetBestBlock_def overlay_def split: option.splits)
qed (auto simp: db_view_def db_inv_def)

interpretation tip: coins_view "cache_view (db_view est bsize)" "cache_abs db_coins" "cache_inv db_coins db_inv"
    "cache_best DB_GetBestBlock" for est bsize
  by (rule db.cache_is_view)

section \<open>Refinement\<close>

text \<open>The calls on a cache, what they return, and what they mean for a map of unspent coins.\<close>

datatype coin_call = CallHave COutPoint | CallGet COutPoint | CallSpend COutPoint
  | CallAdd COutPoint Coin bool | CallUncache COutPoint | CallFlush

datatype coin_reply = ReplyBool bool | ReplyCoin "Coin option" | ReplyNone

fun cache_call ::
  "'b CCoinsView \<Rightarrow> coin_call \<Rightarrow> 'b CCoinsViewCache \<Rightarrow> coins_error + (coin_reply \<times> 'b CCoinsViewCache)" where
  "cache_call ops (CallHave p) c = (case HaveCoin ops c p of (b, c') \<Rightarrow> Inr (ReplyBool b, c'))"
| "cache_call ops (CallGet p) c = (case GetCoin ops c p of (r, c') \<Rightarrow> Inr (ReplyCoin r, c'))"
| "cache_call ops (CallSpend p) c =
     (case SpendCoin ops p c of (r, c') \<Rightarrow> Inr (ReplyCoin (case r of None \<Rightarrow> None | Some d \<Rightarrow> coin_opt d), c'))"
| "cache_call ops (CallAdd p d possible_overwrite) c =
     sbind (AddCoin p d possible_overwrite c) (\<lambda>c'. Inr (ReplyNone, c'))"
| "cache_call ops (CallUncache p) c = Inr (ReplyNone, Uncache p c)"
| "cache_call ops CallFlush c = sbind (Flush ops c) (\<lambda>(b, c'). Inr (ReplyBool b, c'))"

fun map_call :: "coin_call \<Rightarrow> (COutPoint \<rightharpoonup> Coin) \<Rightarrow> coin_reply \<times> (COutPoint \<rightharpoonup> Coin)" where
  "map_call (CallHave p) U = (ReplyBool (U p \<noteq> None), U)"
| "map_call (CallGet p) U = (ReplyCoin (U p), U)"
| "map_call (CallSpend p) U = (ReplyCoin (U p), U(p := None))"
| "map_call (CallAdd p d possible_overwrite) U =
     (ReplyNone, if IsUnspendable (scriptPubKey (coin_out d)) then U else U(p \<mapsto> d))"
| "map_call (CallUncache p) U = (ReplyNone, U)"
| "map_call CallFlush U = (ReplyBool True, U)"

text \<open>The contract of \<open>AddCoin\<close>.\<close>

fun call_ok :: "coin_call \<Rightarrow> (COutPoint \<rightharpoonup> Coin) \<Rightarrow> bool" where
  "call_ok (CallAdd p d possible_overwrite) U \<longleftrightarrow> \<not> IsSpent d \<and> (possible_overwrite \<or> U p = None)"
| "call_ok _ U \<longleftrightarrow> True"

primrec cache_run ::
  "'b CCoinsView \<Rightarrow> coin_call list \<Rightarrow> 'b CCoinsViewCache \<Rightarrow> coins_error + (coin_reply list \<times> 'b CCoinsViewCache)" where
  "cache_run ops [] c = Inr ([], c)"
| "cache_run ops (x # xs) c =
     sbind (cache_call ops x c) (\<lambda>(r, c'). sbind (cache_run ops xs c') (\<lambda>(rs, c''). Inr (r # rs, c'')))"

primrec map_run :: "coin_call list \<Rightarrow> (COutPoint \<rightharpoonup> Coin) \<Rightarrow> coin_reply list \<times> (COutPoint \<rightharpoonup> Coin)" where
  "map_run [] U = ([], U)"
| "map_run (x # xs) U = (case map_call x U of (r, U') \<Rightarrow> case map_run xs U' of (rs, U'') \<Rightarrow> (r # rs, U''))"

primrec calls_ok :: "coin_call list \<Rightarrow> (COutPoint \<rightharpoonup> Coin) \<Rightarrow> bool" where
  "calls_ok [] U \<longleftrightarrow> True"
| "calls_ok (x # xs) U \<longleftrightarrow> call_ok x U \<and> calls_ok xs (snd (map_call x U))"

lemma hashBlock_kept:
  "GetCoin ops c p = (r, c') \<Longrightarrow> cache_hashBlock c' = cache_hashBlock c"
  "HaveCoin ops c p = (b, c') \<Longrightarrow> cache_hashBlock c' = cache_hashBlock c"
  "SpendCoin ops p c = (r, c') \<Longrightarrow> cache_hashBlock c' = cache_hashBlock c"
  "AddCoin p d ow c = Inr c' \<Longrightarrow> cache_hashBlock c' = cache_hashBlock c"
  "Flush ops c = Inr (b, c') \<Longrightarrow> cache_hashBlock c' = cache_hashBlock c"
  by (auto simp: GetCoin_def HaveCoin_def SpendCoin_def AddCoin_def Flush_def FetchCoin_def Let_def sbind_eq_Inr
      split: option.splits prod.splits if_splits)

context coins_view
begin

lemma cache_call_refines:
  assumes "cache_inv A I c" "call_ok x (cache_abs A c)" "cache_hashBlock c \<noteq> 0"
  obtains r c' where "cache_call ops x c = Inr (r, c')" "map_call x (cache_abs A c) = (r, cache_abs A c')"
    "cache_inv A I c'" "cache_hashBlock c' = cache_hashBlock c"
proof (cases x)
  case (CallHave p)
  obtain b c' where "HaveCoin ops c p = (b, c')" by fastforce
  with CallHave query_laws(2) [OF assms(1) this] hashBlock_kept(2) [OF this] show ?thesis
    by (intro that [of "ReplyBool b" c']) simp_all
next
  case (CallGet p)
  obtain r c' where "GetCoin ops c p = (r, c')" by fastforce
  with CallGet query_laws(1) [OF assms(1) this] hashBlock_kept(1) [OF this] show ?thesis
    by (intro that [of "ReplyCoin r" c']) simp_all
next
  case (CallSpend p)
  obtain r c' where "SpendCoin ops p c = (r, c')" by fastforce
  with CallSpend SpendCoin_law [OF assms(1) this] hashBlock_kept(3) [OF this] show ?thesis
    by (intro that [of "ReplyCoin (case r of None \<Rightarrow> None | Some d \<Rightarrow> coin_opt d)" c']) simp_all
next
  case (CallAdd p d ow)
  with assms(2) obtain c' where "AddCoin p d ow c = Inr c'" "cache_inv A I c'"
    "cache_abs A c' = (if IsUnspendable (scriptPubKey (coin_out d)) then cache_abs A c else (cache_abs A c)(p \<mapsto> d))"
    using AddCoin_law [OF assms(1), of d ow p] by auto
  with CallAdd hashBlock_kept(4) [OF this(1)] show ?thesis by (intro that [of ReplyNone c']) simp_all
next
  case (CallUncache p)
  with Uncache_law [OF assms(1), of p] show ?thesis
    by (intro that [of ReplyNone "Uncache p c"]) (simp_all add: Uncache_def split: option.split)
next
  case CallFlush
  obtain c' where "Flush ops c = Inr (True, c')" "cache_inv A I c'" "cache_abs A c' = cache_abs A c"
    by (rule Flush_law [OF assms(1,3)])
  with CallFlush hashBlock_kept(5) [OF this(1)] show ?thesis by (intro that [of "ReplyBool True" c']) simp_all
qed

lemma cache_run_refines:
  assumes "cache_inv A I c" "calls_ok xs (cache_abs A c)" "cache_hashBlock c \<noteq> 0"
  shows "\<exists>rs c'. cache_run ops xs c = Inr (rs, c') \<and> map_run xs (cache_abs A c) = (rs, cache_abs A c') \<and> cache_inv A I c'"
  using assms
proof (induction xs arbitrary: c)
  case (Cons x xs)
  obtain r c' where step: "cache_call ops x c = Inr (r, c')" "map_call x (cache_abs A c) = (r, cache_abs A c')"
    "cache_inv A I c'" "cache_hashBlock c' = cache_hashBlock c"
    by (rule cache_call_refines [of c x]) (use Cons.prems in simp_all)
  with Cons.IH [of c'] Cons.prems show ?case by fastforce
qed simp

end



section \<open>Crashes\<close>

abbreviation coin_changes :: "CCoinsMap \<Rightarrow> db_change list" where
  "coin_changes \<equiv> map (\<lambda>(p, e). if IsSpent (entry_coin e) then EraseCoin p else WriteCoin p (entry_coin e))"

lemma concat_take_batches:
  assumes "0 < k" "k < length (db_batches est bsize h batch m)"
  shows "\<exists>j. concat (take k (db_batches est bsize h batch m)) = batch @ coin_changes (take j (filter (DIRTY \<circ> snd) m))"
  using assms
proof (induction m arbitrary: batch k)
  case (Cons it m)
  obtain p e where it: "it = (p, e)" by (cases it)
  let ?batch = "if DIRTY e then batch @ coin_changes [(p, e)] else batch"
  have split: "db_batches est bsize h batch (it # m) =
      (if est ?batch > bsize then ?batch # db_batches est bsize h [] m else db_batches est bsize h ?batch m)"
    by (auto simp: it Let_def)
  have prefix: "\<exists>j. ?batch @ coin_changes (take i (filter (DIRTY \<circ> snd) m)) =
      batch @ coin_changes (take j (filter (DIRTY \<circ> snd) (it # m)))" for i
    by (cases "DIRTY e") (auto simp: it intro: exI [of _ "Suc i"] exI [of _ i])
  show ?case
  proof (cases "est ?batch > bsize")
    case True
    obtain k' where k: "k = Suc k'" using Cons.prems(1) by (cases k) auto
    have "\<exists>i. concat (take k' (db_batches est bsize h [] m)) = coin_changes (take i (filter (DIRTY \<circ> snd) m))"
    proof (cases "k' = 0")
      case zero: True
      then show ?thesis by (intro exI [of _ 0]) simp
    next
      case False
      then show ?thesis using Cons.IH [of k' "[]"] Cons.prems(2) True k split by (simp add: comp_def)
    qed
    then obtain i where "concat (take k' (db_batches est bsize h [] m)) = coin_changes (take i (filter (DIRTY \<circ> snd) m))"
      by blast
    then have "concat (take k (db_batches est bsize h batch (it # m))) = ?batch @ coin_changes (take i (filter (DIRTY \<circ> snd) m))"
      using True unfolding split k by simp
    with prefix [of i] show ?thesis by (simp only:)
  next
    case False
    then have eq: "db_batches est bsize h batch (it # m) = db_batches est bsize h ?batch m" unfolding split by (simp only: if_False)
    obtain i where "concat (take k (db_batches est bsize h ?batch m)) = ?batch @ coin_changes (take i (filter (DIRTY \<circ> snd) m))"
      using Cons.IH [of k ?batch] Cons.prems unfolding eq by blast
    with prefix [of i] show ?thesis unfolding eq by (simp only:)
  qed
qed simp

lemma fold_WriteBatch: "fold WriteBatch bs d = fold db_apply (concat bs) d"
  by (induction bs arbitrary: d) (simp_all add: WriteBatch_def)

text \<open>
  C10: a crash while the coins are written to the database is detected and can be repaired. If only some
  of the batches of a consistent database's \<open>BatchWrite\<close> have been written, the best block is missing, the
  head blocks are the new and the old one, and each outpoint has its old or its new coin; if all have,
  the database is consistent again, with the new best block and the new coins.
\<close>

theorem DB_crash_safe:
  assumes "db_inv d" "entries_ok (db_coins d) mapCoins" "h \<noteq> 0"
    and "DB_batches_of SizeEstimate batch_size d mapCoins h = Inr batches"
    and "0 < k" "k \<le> length batches" "fold WriteBatch (take k batches) d = d'"
  shows "if k < length batches
     then db_best d' = None \<and> db_heads d' = Some [h, DB_GetBestBlock d] \<and>
       (\<forall>p. db_coins d' p = db_coins d p \<or> db_coins d' p = overlay (db_coins d) mapCoins p)
     else db_inv d' \<and> db_best d' = Some h \<and> db_coins d' = overlay (db_coins d) mapCoins"
proof (cases "k < length batches")
  case True
  let ?start = "[EraseBest, WriteHeads [h, DB_GetBestBlock d]]"
  have batches: "batches = db_batches SizeEstimate batch_size h ?start mapCoins"
    using assms(1,3,4) by (auto simp: DB_batches_of_def db_inv_def DB_GetHeadBlocks_def Let_def)
  obtain j where "concat (take k batches) = ?start @ coin_changes (take j (filter (DIRTY \<circ> snd) mapCoins))"
    using concat_take_batches [OF assms(5), of SizeEstimate batch_size h ?start mapCoins] True batches by auto
  moreover define w where "w = take j (filter (DIRTY \<circ> snd) mapCoins)"
  moreover have "filter (DIRTY \<circ> snd) w = w"
    unfolding w_def by (metis filter_id_conv in_set_takeD mem_Collect_eq set_filter)
  moreover have dist: "distinct (map fst mapCoins)" using assms(2) by (simp add: entries_ok_def)
  then have "distinct (map fst (filter (DIRTY \<circ> snd) mapCoins))" by (simp add: distinct_map_filter)
  then have w: "distinct (map fst w)" unfolding w_def by (metis distinct_take take_map)
  ultimately have d': "d' = (d\<lparr> db_best := None, db_heads := Some [h, DB_GetBestBlock d],
      db_coins := (\<lambda>p. case map_of w p of Some e \<Rightarrow> if DIRTY e then coin_opt (entry_coin e) else db_coins d p
                     | None \<Rightarrow> db_coins d p) \<rparr>)"
    using assms(7) write_coins [OF w] by (simp add: fold_WriteBatch cong: option.case_cong if_cong)
  have "db_coins d' p = db_coins d p \<or> db_coins d' p = overlay (db_coins d) mapCoins p" for p
  proof (cases "map_of w p")
    case (Some e)
    then have "(p, e) \<in> set mapCoins" unfolding w_def by (meson filter_is_subset in_mono in_set_takeD map_of_SomeD)
    then have "map_of mapCoins p = Some e" using dist by simp
    with Some show ?thesis by (simp add: d' overlay_def)
  qed (simp add: d')
  with True show ?thesis by (simp add: d')
next
  case False
  then have "DB_BatchWrite SizeEstimate batch_size d mapCoins h = Inr (True, d')"
    using assms(4-7) by (simp add: DB_BatchWrite_def)
  moreover from db.BatchWrite_law [OF assms(1-3)] obtain d2
    where "view_BatchWrite (db_view SizeEstimate batch_size) d mapCoins h = Inr (True, d2)" "db_inv d2"
      "db_coins d2 = overlay (db_coins d) mapCoins" "DB_GetBestBlock d2 = h" by blast
  ultimately show ?thesis
    using False assms(3) by (auto simp: db_view_def DB_GetBestBlock_def split: option.splits)
qed

theorem DB_crash_safe_witness:
  "let d = \<lparr> db_coins = Map.empty, db_best = Some 1, db_heads = None \<rparr>; p = \<lparr> op_hash = 5, op_n = 0 \<rparr>;
       c = Coin_new \<lparr> nValue = 50, scriptPubKey = [0x51] \<rparr> 7 True;
       e = \<lparr> entry_coin = c, DIRTY = True, FRESH = True \<rparr>
   in DB_batches_of (\<lambda>_. 1) 0 d [(p, e)] 2 = Inr [[EraseBest, WriteHeads [2, 1], WriteCoin p c], [EraseHeads, WriteBest 2]] \<and>
      db_heads (WriteBatch [EraseBest, WriteHeads [2, 1], WriteCoin p c] d) = Some [2, 1]"
proof -
  define d where "d = \<lparr> db_coins = Map.empty, db_best = Some 1, db_heads = None \<rparr>"
  define p :: COutPoint where "p = \<lparr> op_hash = 5, op_n = 0 \<rparr>"
  define c where "c = Coin_new \<lparr> nValue = 50, scriptPubKey = [0x51] \<rparr> 7 True"
  define e where "e = \<lparr> entry_coin = c, DIRTY = True, FRESH = True \<rparr>"
  let ?b = "[[EraseBest, WriteHeads [2, 1], WriteCoin p c], [EraseHeads, WriteBest 2]]"
  have "\<not> IsSpent c" by (simp add: c_def IsSpent_def CTxOut_IsNull_def Coin_new_def)
  then have b: "DB_batches_of (\<lambda>_. 1) 0 d [(p, e)] 2 = Inr ?b"
    by (simp add: DB_batches_of_def DB_GetBestBlock_def d_def e_def Let_def)
  have "db_inv d" "entries_ok (db_coins d) [(p, e)]" by (simp_all add: d_def e_def db_inv_def entries_ok_def)
  from DB_crash_safe [OF this _ b, of 1] b show ?thesis
    unfolding Let_def d_def [symmetric] p_def [symmetric] c_def [symmetric] e_def [symmetric]
    by (simp add: DB_GetBestBlock_def) (simp add: d_def)
qed

end
