(* ===== verification/Hasher.thy ===== *)
theory Hasher
  imports Prelude
begin

text \<open>
  The buffering that \<open>crypto/sha1.cpp\<close>, \<open>ripemd160.cpp\<close>, \<open>sha256.cpp\<close> and \<open>sha512.cpp\<close> share: a
  hasher object collects the bytes written to it in a buffer of one block and passes every full
  block to its compression function. The locale \<open>block_hasher\<close> is the contract of such a class;
  its lemmas show that a digest depends only on the concatenation of what was written.
\<close>

section \<open>Buffering\<close>

record 's hasher =
  hs_s :: 's
  hs_buf :: bytes
  hs_bytes :: u64

definition memcpy :: "bytes \<Rightarrow> nat \<Rightarrow> bytes \<Rightarrow> bytes" where
  "memcpy buf off src = take off buf @ src @ drop (off + length src) buf"

function write_chunks :: "nat \<Rightarrow> ('s \<Rightarrow> bytes \<Rightarrow> 's) \<Rightarrow> 's hasher \<Rightarrow> bytes \<Rightarrow> 's hasher \<times> bytes" where
  "write_chunks blk tr h dat =
     (if blk = 0 \<or> length dat < blk then (h, dat)
      else write_chunks blk tr
             (h\<lparr> hs_s := tr (hs_s h) (take blk dat), hs_bytes := hs_bytes h + of_nat blk \<rparr>)
             (drop blk dat))"
  by pat_completeness auto
termination
  by (relation "measure (\<lambda>(blk, tr, h, dat). length dat)") auto

declare write_chunks.simps [simp del]

definition fill_buffer ::
    "nat \<Rightarrow> ('s \<Rightarrow> bytes \<Rightarrow> 's) \<Rightarrow> 's hasher \<Rightarrow> bytes \<Rightarrow> 's hasher \<times> bytes \<times> nat" where
  "fill_buffer blk tr h dat =
     (let bufsize = unat (hs_bytes h) mod blk
      in if bufsize \<noteq> 0 \<and> bufsize + length dat \<ge> blk
         then let buf = memcpy (hs_buf h) bufsize (take (blk - bufsize) dat)
              in (h\<lparr> hs_s := tr (hs_s h) buf, hs_buf := buf,
                     hs_bytes := hs_bytes h + of_nat (blk - bufsize) \<rparr>,
                  drop (blk - bufsize) dat, 0)
         else (h, dat, bufsize))"

definition keep_rest :: "'s hasher \<Rightarrow> bytes \<Rightarrow> nat \<Rightarrow> 's hasher" where
  "keep_rest h dat bufsize =
     (if dat \<noteq> []
      then h\<lparr> hs_buf := memcpy (hs_buf h) bufsize dat,
              hs_bytes := hs_bytes h + of_nat (length dat) \<rparr>
      else h)"

definition hasher_write ::
    "nat \<Rightarrow> ('s \<Rightarrow> bytes \<Rightarrow> 's) \<Rightarrow> 's hasher \<Rightarrow> bytes \<Rightarrow> 's hasher" where
  "hasher_write blk tr h dat =
     (case fill_buffer blk tr h dat of (h1, dat1, bufsize) \<Rightarrow>
        case write_chunks blk tr h1 dat1 of (h2, dat2) \<Rightarrow> keep_rest h2 dat2 bufsize)"

text \<open>The static array \<open>pad\<close>, of which \<open>Finalize\<close> writes the first \<open>n\<close> bytes.\<close>

definition hash_pad :: "nat \<Rightarrow> bytes" where
  "hash_pad n = take n (0x80 # replicate (n - 1) 0)"

definition ReadBE32 :: "bytes \<Rightarrow> nat \<Rightarrow> u32" where
  "ReadBE32 ptr off = be_word (take 4 (drop off ptr))"

definition ReadLE32 :: "bytes \<Rightarrow> nat \<Rightarrow> u32" where
  "ReadLE32 ptr off = le_word (take 4 (drop off ptr))"

definition ReadBE64 :: "bytes \<Rightarrow> nat \<Rightarrow> u64" where
  "ReadBE64 ptr off = be_word (take 8 (drop off ptr))"

lemma rotr_shift_eq:
  fixes x :: "'a::len word"
  assumes "0 < k" "k < LENGTH('a)"
  shows "drop_bit k x OR push_bit (LENGTH('a) - k) x = word_rotr k x"
proof (rule bit_word_eqI)
  fix i
  assume i: "i < LENGTH('a)"
  have "(i + k) mod LENGTH('a) = (if i + k < LENGTH('a) then i + k else i + k - LENGTH('a))"
    using i assms by (simp add: mod_if)
  then show "bit (drop_bit k x OR push_bit (LENGTH('a) - k) x) i = bit (word_rotr k x) i"
    using i assms bit_imp_le_length [of x "k + i"]
    by (auto simp: bit_simps bit_word_rotr_iff add.commute)
qed

lemma rotl_shift_eq:
  fixes x :: "'a::len word"
  assumes "0 < k" "k < LENGTH('a)"
  shows "push_bit k x OR drop_bit (LENGTH('a) - k) x = word_rotl k x"
proof (rule bit_word_eqI)
  fix i
  assume i: "i < LENGTH('a)"
  have "(i + (LENGTH('a) - k)) mod LENGTH('a) = (if i < k then i + (LENGTH('a) - k) else i - k)"
    using i assms by (simp add: mod_if)
  then show "bit (push_bit k x OR drop_bit (LENGTH('a) - k) x) i = bit (word_rotl k x) i"
    using i assms bit_imp_le_length [of x "LENGTH('a) - k + i"]
    by (auto simp: bit_simps bit_word_rotl_iff add.commute)
qed

lemma bytes_to_bits: "push_bit 3 (of_nat len :: u64) = of_nat (8 * len)"
  by (simp add: push_bit_eq_mult)

section \<open>What a hasher has absorbed\<close>

text \<open>The compression of the full blocks of a message, ignoring an incomplete last one.\<close>

function compress_blocks :: "nat \<Rightarrow> ('s \<Rightarrow> bytes \<Rightarrow> 's) \<Rightarrow> 's \<Rightarrow> bytes \<Rightarrow> 's" where
  "compress_blocks blk tr s msg =
     (if blk = 0 \<or> length msg < blk then s
      else compress_blocks blk tr (tr s (take blk msg)) (drop blk msg))"
  by pat_completeness auto
termination
  by (relation "measure (\<lambda>(blk, tr, s, msg). length msg)") auto

declare compress_blocks.simps [simp del]

definition full_part :: "nat \<Rightarrow> bytes \<Rightarrow> bytes" where
  "full_part blk msg = take (length msg div blk * blk) msg"

definition rest_part :: "nat \<Rightarrow> bytes \<Rightarrow> bytes" where
  "rest_part blk msg = drop (length msg div blk * blk) msg"

definition absorbed :: "nat \<Rightarrow> ('s \<Rightarrow> bytes \<Rightarrow> 's) \<Rightarrow> 's \<Rightarrow> 's hasher \<Rightarrow> bytes \<Rightarrow> bool" where
  "absorbed blk tr init h msg \<longleftrightarrow>
     hs_s h = compress_blocks blk tr init msg \<and> length (hs_buf h) = blk \<and>
     take (length msg mod blk) (hs_buf h) = rest_part blk msg \<and>
     hs_bytes h = of_nat (length msg)"

lemma compress_blocks_short [simp]: "length msg < blk \<Longrightarrow> compress_blocks blk tr s msg = s"
  by (subst compress_blocks.simps) simp

lemma compress_blocks_step:
  "0 < blk \<Longrightarrow> blk \<le> length msg \<Longrightarrow>
     compress_blocks blk tr s msg = compress_blocks blk tr (tr s (take blk msg)) (drop blk msg)"
  by (subst compress_blocks.simps) simp

lemma compress_blocks_append:
  "0 < blk \<Longrightarrow> blk dvd length xs \<Longrightarrow>
     compress_blocks blk tr s (xs @ ys) = compress_blocks blk tr (compress_blocks blk tr s xs) ys"
proof (induction blk tr s xs rule: compress_blocks.induct)
  case (1 blk tr s xs)
  show ?case
  proof (cases "length xs < blk")
    case True
    then have "xs = []" using "1.prems" by (auto dest: dvd_imp_le)
    then show ?thesis using "1.prems" by simp
  next
    case False
    have "blk dvd length (drop blk xs)" using "1.prems" False by (simp add: dvd_diff_nat)
    with "1.IH" "1.prems" False show ?thesis
      using compress_blocks_step [of blk "xs @ ys" tr s] compress_blocks_step [of blk xs tr s]
      by simp
  qed
qed

lemma compress_blocks_one:
  "0 < blk \<Longrightarrow> length xs = blk \<Longrightarrow> compress_blocks blk tr s xs = tr s xs"
  by (subst compress_blocks.simps) simp

lemma full_rest: "full_part blk msg @ rest_part blk msg = msg"
  by (simp add: full_part_def rest_part_def)

lemma length_full_part [simp]: "length (full_part blk msg) = length msg div blk * blk"
  by (simp add: full_part_def)

lemma length_rest_part [simp]: "length (rest_part blk msg) = length msg mod blk"
  by (simp add: rest_part_def minus_div_mult_eq_mod)

lemma compress_full_part:
  "0 < blk \<Longrightarrow> compress_blocks blk tr s msg = compress_blocks blk tr s (full_part blk msg)"
  using compress_blocks_append [of blk "full_part blk msg" tr s "rest_part blk msg"]
  by (simp add: full_rest)

lemma rest_part_append:
  assumes "blk dvd length xs"
  shows "rest_part blk (xs @ ys) = rest_part blk ys"
proof (cases "blk = 0")
  case False
  from assms obtain k where k: "length xs = blk * k" by (rule dvdE)
  then have "(length xs + length ys) div blk * blk = length xs + length ys div blk * blk"
    using False by (simp add: algebra_simps)
  then show ?thesis by (simp add: rest_part_def)
qed (use assms in \<open>simp add: rest_part_def\<close>)

lemma write_chunks_eq:
  "0 < blk \<Longrightarrow> write_chunks blk tr h dat =
     (h\<lparr> hs_s := compress_blocks blk tr (hs_s h) dat,
         hs_bytes := hs_bytes h + of_nat (length dat div blk * blk) \<rparr>, rest_part blk dat)"
proof (induction blk tr h dat rule: write_chunks.induct)
  case (1 blk tr h dat)
  show ?case
  proof (cases "length dat < blk")
    case True
    then show ?thesis by (subst write_chunks.simps) (simp add: rest_part_def)
  next
    case False
    let ?r = "drop blk dat"
    have div: "length dat div blk = Suc (length ?r div blk)"
      using False "1.prems" by (simp add: le_div_geq)
    have "rest_part blk dat = rest_part blk ?r"
      using rest_part_append [of blk "take blk dat" ?r] False by (simp add: min_def)
    moreover have "compress_blocks blk tr (hs_s h) dat
        = compress_blocks blk tr (tr (hs_s h) (take blk dat)) ?r"
      using False "1.prems" by (subst compress_blocks.simps) simp
    moreover have "write_chunks blk tr h dat = write_chunks blk tr
        (h\<lparr> hs_s := tr (hs_s h) (take blk dat), hs_bytes := hs_bytes h + of_nat blk \<rparr>) ?r"
      using False "1.prems" by (subst write_chunks.simps) simp
    ultimately show ?thesis
      using "1.IH" "1.prems" False div by (simp add: algebra_simps)
  qed
qed


lemma length_memcpy [simp]:
  "off + length src \<le> length buf \<Longrightarrow> length (memcpy buf off src) = length buf"
  by (simp add: memcpy_def)

lemma take_memcpy [simp]:
  "off \<le> length buf \<Longrightarrow> take (off + length src) (memcpy buf off src) = take off buf @ src"
  by (simp add: memcpy_def)

lemma absorbed_tail:
  assumes abs: "absorbed blk tr init h msg" and blk: "0 < blk"
    and room: "length msg mod blk = 0 \<or> length msg mod blk + length dat < blk"
  shows "absorbed blk tr init
    (keep_rest (h\<lparr> hs_s := compress_blocks blk tr (hs_s h) dat,
         hs_bytes := hs_bytes h + of_nat (length dat div blk * blk) \<rparr>)
       (rest_part blk dat) (length msg mod blk)) (msg @ dat)"
  using room
proof
  assume aligned: "length msg mod blk = 0"
  then have dvd: "blk dvd length msg" by (simp add: dvd_eq_mod_eq_0)
  have len: "(length msg + length dat) mod blk = length dat mod blk"
    using aligned by (metis add_0 mod_add_left_eq)
  have bytes: "of_nat (length dat div blk * blk) + of_nat (length dat mod blk) = (of_nat (length dat) :: u64)"
    by (simp only: of_nat_add [symmetric] div_mult_mod_eq)
  have less: "length dat mod blk < blk" using blk by simp
  have empty: "rest_part blk dat = [] \<longleftrightarrow> length dat mod blk = 0"
    by (simp flip: length_0_conv)
  show ?thesis
  proof (cases "length dat mod blk = 0")
    case True
    then have "rest_part blk dat = []" by (simp add: empty)
    then show ?thesis
      using abs aligned bytes True
      by (simp add: absorbed_def keep_rest_def len compress_blocks_append [OF blk dvd]
          rest_part_append [OF dvd] del: of_nat_mult)
  next
    case False
    then show ?thesis
      using abs aligned bytes less
      by (simp add: absorbed_def keep_rest_def len empty compress_blocks_append [OF blk dvd]
          rest_part_append [OF dvd] memcpy_def add.assoc del: of_nat_mult)
  qed
next
  assume room: "length msg mod blk + length dat < blk"
  let ?b = "length msg mod blk"
  have dat: "length dat < blk" "rest_part blk dat = dat" using room by (simp_all add: rest_part_def)
  have len: "length (msg @ dat) mod blk = ?b + length dat"
    using room by (metis length_append mod_add_left_eq mod_less)
  have div: "(length msg + length dat) div blk = length msg div blk"
    using room dat(1) by (subst div_add1_eq) simp
  have le: "length msg div blk * blk \<le> length msg" by simp
  have rest: "rest_part blk (msg @ dat) = rest_part blk msg @ dat"
    using le by (simp add: rest_part_def div)
  have comp: "compress_blocks blk tr init (msg @ dat) = compress_blocks blk tr init msg"
    using compress_full_part [OF blk, of tr init "msg @ dat"] compress_full_part [OF blk, of tr init msg] le
    by (simp add: full_part_def div)
  show ?thesis
  proof (cases "dat = []")
    case True
    then show ?thesis using abs blk by (simp add: keep_rest_def absorbed_def rest_part_def)
  next
    case False
    have b: "?b + length dat \<le> length (hs_buf h)" using abs room by (simp add: absorbed_def)
    show ?thesis
      using abs False b dat
      unfolding absorbed_def keep_rest_def len rest comp by simp
  qed
qed

lemma bufsize_eq:
  assumes "absorbed blk tr init h msg" "blk dvd 2 ^ 64"
  shows "unat (hs_bytes h) mod blk = length msg mod blk"
proof -
  have "unat (hs_bytes h) = length msg mod 2 ^ 64"
    using assms(1) by (simp add: absorbed_def unat_of_nat)
  then show ?thesis using assms(2) by (simp add: mod_mod_cancel)
qed

lemma absorbed_fill:
  assumes abs: "absorbed blk tr init h msg" and blk: "0 < blk"
    and b: "0 < length msg mod blk" and x: "length msg mod blk + length x = blk"
  shows "absorbed blk tr init
    (let buf = memcpy (hs_buf h) (length msg mod blk) x
     in h\<lparr> hs_s := tr (hs_s h) buf, hs_buf := buf, hs_bytes := hs_bytes h + of_nat (length x) \<rparr>)
    (msg @ x)"
proof -
  let ?full = "full_part blk msg" and ?rest = "rest_part blk msg"
  have dvd: "blk dvd length ?full" by simp
  have len: "length (?rest @ x) = blk" using x by simp
  have buf: "memcpy (hs_buf h) (length msg mod blk) x = ?rest @ x"
    using abs x by (simp add: memcpy_def absorbed_def)
  have msg: "msg @ x = ?full @ (?rest @ x)" by (simp add: full_rest flip: append_assoc)
  have "compress_blocks blk tr init (msg @ x) = tr (compress_blocks blk tr init ?full) (?rest @ x)"
    unfolding msg using compress_blocks_append [OF blk dvd, of tr init "?rest @ x"]
      compress_blocks_one [OF blk len] by simp
  moreover have "compress_blocks blk tr init ?full = hs_s h"
    using abs compress_full_part [OF blk, of tr init msg] by (simp add: absorbed_def)
  moreover have "rest_part blk (msg @ x) = []"
    unfolding msg rest_part_append [OF dvd] using len blk by (simp add: rest_part_def)
  moreover have "(length msg + length x) mod blk = 0"
  proof -
    have "(length msg mod blk + length x) mod blk = 0" using x by simp
    then show ?thesis by (simp add: mod_add_left_eq)
  qed
  ultimately show ?thesis using abs len by (simp add: absorbed_def Let_def buf)
qed

lemma hasher_write_absorbed:
  assumes abs: "absorbed blk tr init h msg" and blk: "0 < blk" "blk dvd 2 ^ 64"
  shows "absorbed blk tr init (hasher_write blk tr h dat) (msg @ dat)"
proof -
  let ?b = "length msg mod blk"
  note bs = bufsize_eq [OF abs blk(2)]
  show ?thesis
  proof (cases "?b \<noteq> 0 \<and> ?b + length dat \<ge> blk")
    case False
    then have "?b = 0 \<or> ?b + length dat < blk" by auto
    then show ?thesis
      using absorbed_tail [OF abs blk(1), of dat] False
      by (auto simp: hasher_write_def fill_buffer_def bs write_chunks_eq [OF blk(1)] Let_def)
  next
    case True
    let ?x = "take (blk - ?b) dat" and ?r = "drop (blk - ?b) dat"
    have "blk - ?b \<le> length dat" using True by linarith
    then have x: "length ?x = blk - ?b" by simp
    have lt: "?b < blk" using blk(1) by simp
    let ?h = "let buf = memcpy (hs_buf h) ?b ?x
     in h\<lparr> hs_s := tr (hs_s h) buf, hs_buf := buf, hs_bytes := hs_bytes h + of_nat (length ?x) \<rparr>"
    have abs': "absorbed blk tr init ?h (msg @ ?x)"
      using absorbed_fill [OF abs blk(1), of ?x] True x lt by simp
    have "length (msg @ ?x) mod blk = 0"
    proof -
      have "(?b + length ?x) mod blk = 0" using x lt by simp
      then show ?thesis by (simp add: mod_add_left_eq)
    qed
    then show ?thesis
      using absorbed_tail [OF abs' blk(1), of ?r] True x
      by (simp add: hasher_write_def fill_buffer_def bs write_chunks_eq [OF blk(1)] Let_def)
  qed
qed

lemma mod_pad: "(a + (1 + m mod k) + c) mod k = (a mod k + (1 + m) + c) mod (k :: nat)"
proof -
  have "(a + (1 + m mod k) + c) mod k = ((a + 1 + c) + m mod k) mod k" by (simp add: ac_simps)
  also have "\<dots> = ((a + 1 + c) + m) mod k" by (rule mod_add_right_eq)
  also have "\<dots> = (a + (1 + c + m)) mod k" by (simp only: add.assoc)
  also have "\<dots> = (a mod k + (1 + c + m)) mod k" by (simp only: mod_add_left_eq)
  finally show ?thesis by (simp add: ac_simps)
qed

section \<open>The contract of a hasher class\<close>

text \<open>
  A class of this shape has a block size, a compression function and an initial state, and its
  \<open>Write\<close> extends what the object has absorbed.
\<close>

locale block_hasher =
  fixes blk :: nat and tr :: "'s \<Rightarrow> bytes \<Rightarrow> 's" and init :: 's
    and wr :: "'s hasher \<Rightarrow> bytes \<Rightarrow> 's hasher"
  assumes blk_pos: "0 < blk"
    and blk_dvd: "blk dvd 2 ^ 64"
    and write_absorbs: "absorbed blk tr init h msg \<Longrightarrow> absorbed blk tr init (wr h dat) (msg @ dat)"
begin

lemma new_absorbed: "length buf = blk \<Longrightarrow>
    absorbed blk tr init \<lparr> hs_s = init, hs_buf = buf, hs_bytes = 0 \<rparr> []"
  using blk_pos by (simp add: absorbed_def rest_part_def)

lemma writes_absorbed:
  "absorbed blk tr init h msg \<Longrightarrow> absorbed blk tr init (foldl wr h dats) (msg @ concat dats)"
proof (induction dats arbitrary: h msg)
  case (Cons dat dats)
  from Cons.IH [OF write_absorbs [OF Cons.prems, of dat]] show ?case by simp
qed simp

lemma aligned_state:
  assumes "absorbed blk tr init h msg"
  shows "hs_s h = compress_blocks blk tr init msg"
  using assms by (simp add: absorbed_def)

lemma finish:
  assumes "absorbed blk tr init h msg"
  shows "hs_s (wr (wr h p) q) = compress_blocks blk tr init (msg @ p @ q)"
  using aligned_state [OF write_absorbs [OF write_absorbs [OF assms]]] by simp

lemma padding_length:
  assumes "absorbed blk tr init h msg" "k < blk"
  shows "(length msg + (1 + ((2 * blk - 1 - k - unat (hs_bytes h) mod blk) mod blk)) + k) mod blk = 0"
proof -
  let ?b = "length msg mod blk"
  have b: "unat (hs_bytes h) mod blk = ?b" by (rule bufsize_eq [OF assms(1) blk_dvd])
  have lt: "?b < blk" using blk_pos by simp
  have "(length msg + (1 + (2 * blk - 1 - k - ?b) mod blk) + k) mod blk
      = (?b + (1 + (2 * blk - 1 - k - ?b)) + k) mod blk"
    by (rule mod_pad)
  also have "?b + (1 + (2 * blk - 1 - k - ?b)) + k = 2 * blk" using lt assms(2) by linarith
  finally show ?thesis by (simp add: b)
qed

end

end
