(* ===== verification/Sha256.thy ===== *)
theory Sha256
  imports Hasher
begin

text \<open>
  \<open>crypto/sha256.cpp\<close>: the unrolled SHA-256 compression function, the self test and the hasher
  class, together with the standard's rolled definition it is proved equal to.
\<close>

section \<open>The compression function\<close>

type_synonym u32x8 = "u32 \<times> u32 \<times> u32 \<times> u32 \<times> u32 \<times> u32 \<times> u32 \<times> u32"
type_synonym u32x16 = "u32 \<times> u32 \<times> u32 \<times> u32 \<times> u32 \<times> u32 \<times> u32 \<times> u32 \<times>
  u32 \<times> u32 \<times> u32 \<times> u32 \<times> u32 \<times> u32 \<times> u32 \<times> u32"

definition sha256_Ch :: "u32 \<Rightarrow> u32 \<Rightarrow> u32 \<Rightarrow> u32" where
  "sha256_Ch x y z = z XOR (x AND (y XOR z))"

definition sha256_Maj :: "u32 \<Rightarrow> u32 \<Rightarrow> u32 \<Rightarrow> u32" where
  "sha256_Maj x y z = (x AND y) OR (z AND (x OR y))"

definition sha256_Sigma0 :: "u32 \<Rightarrow> u32" where
  "sha256_Sigma0 x = (drop_bit 2 x OR push_bit 30 x) XOR (drop_bit 13 x OR push_bit 19 x) XOR
     (drop_bit 22 x OR push_bit 10 x)"

definition sha256_Sigma1 :: "u32 \<Rightarrow> u32" where
  "sha256_Sigma1 x = (drop_bit 6 x OR push_bit 26 x) XOR (drop_bit 11 x OR push_bit 21 x) XOR
     (drop_bit 25 x OR push_bit 7 x)"

definition sha256_sigma0 :: "u32 \<Rightarrow> u32" where
  "sha256_sigma0 x = (drop_bit 7 x OR push_bit 25 x) XOR (drop_bit 18 x OR push_bit 14 x) XOR
     drop_bit 3 x"

definition sha256_sigma1 :: "u32 \<Rightarrow> u32" where
  "sha256_sigma1 x = (drop_bit 17 x OR push_bit 15 x) XOR (drop_bit 19 x OR push_bit 13 x) XOR
     drop_bit 10 x"

text \<open>One round; the result is the new \<open>d\<close> and \<open>h\<close>, which the code passes by reference.\<close>

definition sha256_Round ::
    "u32 \<Rightarrow> u32 \<Rightarrow> u32 \<Rightarrow> u32 \<Rightarrow> u32 \<Rightarrow> u32 \<Rightarrow> u32 \<Rightarrow> u32 \<Rightarrow> u32 \<Rightarrow> u32 \<Rightarrow> u32 \<times> u32" where
  "sha256_Round a b c d e f g h k w =
     (let t1 = h + sha256_Sigma1 e + sha256_Ch e f g + k + w;
          t2 = sha256_Sigma0 a + sha256_Maj a b c
      in (d + t1, t1 + t2))"

definition sha256_Initialize :: "u32 list" where
  "sha256_Initialize = [0x6a09e667, 0xbb67ae85, 0x3c6ef372, 0xa54ff53a,
                        0x510e527f, 0x9b05688c, 0x1f83d9ab, 0x5be0cd19]"

text \<open>The four groups of sixteen rounds, with the message words they update in place.\<close>

definition sha256_rounds0 :: "u32x8 \<Rightarrow> bytes \<Rightarrow> u32x8 \<times> u32x16" where
  "sha256_rounds0 = (\<lambda>(a, b, c, d, e, f, g, h) chunk.
     let w0 = ReadBE32 chunk 0;
         (d, h) = sha256_Round a b c d e f g h 0x428a2f98 w0;
         w1 = ReadBE32 chunk 4;
         (c, g) = sha256_Round h a b c d e f g 0x71374491 w1;
         w2 = ReadBE32 chunk 8;
         (b, f) = sha256_Round g h a b c d e f 0xb5c0fbcf w2;
         w3 = ReadBE32 chunk 12;
         (a, e) = sha256_Round f g h a b c d e 0xe9b5dba5 w3;
         w4 = ReadBE32 chunk 16;
         (h, d) = sha256_Round e f g h a b c d 0x3956c25b w4;
         w5 = ReadBE32 chunk 20;
         (g, c) = sha256_Round d e f g h a b c 0x59f111f1 w5;
         w6 = ReadBE32 chunk 24;
         (f, b) = sha256_Round c d e f g h a b 0x923f82a4 w6;
         w7 = ReadBE32 chunk 28;
         (e, a) = sha256_Round b c d e f g h a 0xab1c5ed5 w7;
         w8 = ReadBE32 chunk 32;
         (d, h) = sha256_Round a b c d e f g h 0xd807aa98 w8;
         w9 = ReadBE32 chunk 36;
         (c, g) = sha256_Round h a b c d e f g 0x12835b01 w9;
         w10 = ReadBE32 chunk 40;
         (b, f) = sha256_Round g h a b c d e f 0x243185be w10;
         w11 = ReadBE32 chunk 44;
         (a, e) = sha256_Round f g h a b c d e 0x550c7dc3 w11;
         w12 = ReadBE32 chunk 48;
         (h, d) = sha256_Round e f g h a b c d 0x72be5d74 w12;
         w13 = ReadBE32 chunk 52;
         (g, c) = sha256_Round d e f g h a b c 0x80deb1fe w13;
         w14 = ReadBE32 chunk 56;
         (f, b) = sha256_Round c d e f g h a b 0x9bdc06a7 w14;
         w15 = ReadBE32 chunk 60;
         (e, a) = sha256_Round b c d e f g h a 0xc19bf174 w15
     in ((a, b, c, d, e, f, g, h), (w0, w1, w2, w3, w4, w5, w6, w7, w8, w9, w10, w11, w12, w13, w14, w15)))"

definition sha256_rounds1 :: "u32x8 \<Rightarrow> u32x16 \<Rightarrow> u32x8 \<times> u32x16" where
  "sha256_rounds1 = (\<lambda>(a, b, c, d, e, f, g, h) (w0, w1, w2, w3, w4, w5, w6, w7, w8, w9, w10, w11, w12, w13, w14, w15).
     let w0 = w0 + (sha256_sigma1 w14 + w9 + sha256_sigma0 w1);
         (d, h) = sha256_Round a b c d e f g h 0xe49b69c1 w0;
         w1 = w1 + (sha256_sigma1 w15 + w10 + sha256_sigma0 w2);
         (c, g) = sha256_Round h a b c d e f g 0xefbe4786 w1;
         w2 = w2 + (sha256_sigma1 w0 + w11 + sha256_sigma0 w3);
         (b, f) = sha256_Round g h a b c d e f 0x0fc19dc6 w2;
         w3 = w3 + (sha256_sigma1 w1 + w12 + sha256_sigma0 w4);
         (a, e) = sha256_Round f g h a b c d e 0x240ca1cc w3;
         w4 = w4 + (sha256_sigma1 w2 + w13 + sha256_sigma0 w5);
         (h, d) = sha256_Round e f g h a b c d 0x2de92c6f w4;
         w5 = w5 + (sha256_sigma1 w3 + w14 + sha256_sigma0 w6);
         (g, c) = sha256_Round d e f g h a b c 0x4a7484aa w5;
         w6 = w6 + (sha256_sigma1 w4 + w15 + sha256_sigma0 w7);
         (f, b) = sha256_Round c d e f g h a b 0x5cb0a9dc w6;
         w7 = w7 + (sha256_sigma1 w5 + w0 + sha256_sigma0 w8);
         (e, a) = sha256_Round b c d e f g h a 0x76f988da w7;
         w8 = w8 + (sha256_sigma1 w6 + w1 + sha256_sigma0 w9);
         (d, h) = sha256_Round a b c d e f g h 0x983e5152 w8;
         w9 = w9 + (sha256_sigma1 w7 + w2 + sha256_sigma0 w10);
         (c, g) = sha256_Round h a b c d e f g 0xa831c66d w9;
         w10 = w10 + (sha256_sigma1 w8 + w3 + sha256_sigma0 w11);
         (b, f) = sha256_Round g h a b c d e f 0xb00327c8 w10;
         w11 = w11 + (sha256_sigma1 w9 + w4 + sha256_sigma0 w12);
         (a, e) = sha256_Round f g h a b c d e 0xbf597fc7 w11;
         w12 = w12 + (sha256_sigma1 w10 + w5 + sha256_sigma0 w13);
         (h, d) = sha256_Round e f g h a b c d 0xc6e00bf3 w12;
         w13 = w13 + (sha256_sigma1 w11 + w6 + sha256_sigma0 w14);
         (g, c) = sha256_Round d e f g h a b c 0xd5a79147 w13;
         w14 = w14 + (sha256_sigma1 w12 + w7 + sha256_sigma0 w15);
         (f, b) = sha256_Round c d e f g h a b 0x06ca6351 w14;
         w15 = w15 + (sha256_sigma1 w13 + w8 + sha256_sigma0 w0);
         (e, a) = sha256_Round b c d e f g h a 0x14292967 w15
     in ((a, b, c, d, e, f, g, h), (w0, w1, w2, w3, w4, w5, w6, w7, w8, w9, w10, w11, w12, w13, w14, w15)))"

definition sha256_rounds2 :: "u32x8 \<Rightarrow> u32x16 \<Rightarrow> u32x8 \<times> u32x16" where
  "sha256_rounds2 = (\<lambda>(a, b, c, d, e, f, g, h) (w0, w1, w2, w3, w4, w5, w6, w7, w8, w9, w10, w11, w12, w13, w14, w15).
     let w0 = w0 + (sha256_sigma1 w14 + w9 + sha256_sigma0 w1);
         (d, h) = sha256_Round a b c d e f g h 0x27b70a85 w0;
         w1 = w1 + (sha256_sigma1 w15 + w10 + sha256_sigma0 w2);
         (c, g) = sha256_Round h a b c d e f g 0x2e1b2138 w1;
         w2 = w2 + (sha256_sigma1 w0 + w11 + sha256_sigma0 w3);
         (b, f) = sha256_Round g h a b c d e f 0x4d2c6dfc w2;
         w3 = w3 + (sha256_sigma1 w1 + w12 + sha256_sigma0 w4);
         (a, e) = sha256_Round f g h a b c d e 0x53380d13 w3;
         w4 = w4 + (sha256_sigma1 w2 + w13 + sha256_sigma0 w5);
         (h, d) = sha256_Round e f g h a b c d 0x650a7354 w4;
         w5 = w5 + (sha256_sigma1 w3 + w14 + sha256_sigma0 w6);
         (g, c) = sha256_Round d e f g h a b c 0x766a0abb w5;
         w6 = w6 + (sha256_sigma1 w4 + w15 + sha256_sigma0 w7);
         (f, b) = sha256_Round c d e f g h a b 0x81c2c92e w6;
         w7 = w7 + (sha256_sigma1 w5 + w0 + sha256_sigma0 w8);
         (e, a) = sha256_Round b c d e f g h a 0x92722c85 w7;
         w8 = w8 + (sha256_sigma1 w6 + w1 + sha256_sigma0 w9);
         (d, h) = sha256_Round a b c d e f g h 0xa2bfe8a1 w8;
         w9 = w9 + (sha256_sigma1 w7 + w2 + sha256_sigma0 w10);
         (c, g) = sha256_Round h a b c d e f g 0xa81a664b w9;
         w10 = w10 + (sha256_sigma1 w8 + w3 + sha256_sigma0 w11);
         (b, f) = sha256_Round g h a b c d e f 0xc24b8b70 w10;
         w11 = w11 + (sha256_sigma1 w9 + w4 + sha256_sigma0 w12);
         (a, e) = sha256_Round f g h a b c d e 0xc76c51a3 w11;
         w12 = w12 + (sha256_sigma1 w10 + w5 + sha256_sigma0 w13);
         (h, d) = sha256_Round e f g h a b c d 0xd192e819 w12;
         w13 = w13 + (sha256_sigma1 w11 + w6 + sha256_sigma0 w14);
         (g, c) = sha256_Round d e f g h a b c 0xd6990624 w13;
         w14 = w14 + (sha256_sigma1 w12 + w7 + sha256_sigma0 w15);
         (f, b) = sha256_Round c d e f g h a b 0xf40e3585 w14;
         w15 = w15 + (sha256_sigma1 w13 + w8 + sha256_sigma0 w0);
         (e, a) = sha256_Round b c d e f g h a 0x106aa070 w15
     in ((a, b, c, d, e, f, g, h), (w0, w1, w2, w3, w4, w5, w6, w7, w8, w9, w10, w11, w12, w13, w14, w15)))"

definition sha256_rounds3 :: "u32x8 \<Rightarrow> u32x16 \<Rightarrow> u32x8" where
  "sha256_rounds3 = (\<lambda>(a, b, c, d, e, f, g, h) (w0, w1, w2, w3, w4, w5, w6, w7, w8, w9, w10, w11, w12, w13, w14, w15).
     let w0 = w0 + (sha256_sigma1 w14 + w9 + sha256_sigma0 w1);
         (d, h) = sha256_Round a b c d e f g h 0x19a4c116 w0;
         w1 = w1 + (sha256_sigma1 w15 + w10 + sha256_sigma0 w2);
         (c, g) = sha256_Round h a b c d e f g 0x1e376c08 w1;
         w2 = w2 + (sha256_sigma1 w0 + w11 + sha256_sigma0 w3);
         (b, f) = sha256_Round g h a b c d e f 0x2748774c w2;
         w3 = w3 + (sha256_sigma1 w1 + w12 + sha256_sigma0 w4);
         (a, e) = sha256_Round f g h a b c d e 0x34b0bcb5 w3;
         w4 = w4 + (sha256_sigma1 w2 + w13 + sha256_sigma0 w5);
         (h, d) = sha256_Round e f g h a b c d 0x391c0cb3 w4;
         w5 = w5 + (sha256_sigma1 w3 + w14 + sha256_sigma0 w6);
         (g, c) = sha256_Round d e f g h a b c 0x4ed8aa4a w5;
         w6 = w6 + (sha256_sigma1 w4 + w15 + sha256_sigma0 w7);
         (f, b) = sha256_Round c d e f g h a b 0x5b9cca4f w6;
         w7 = w7 + (sha256_sigma1 w5 + w0 + sha256_sigma0 w8);
         (e, a) = sha256_Round b c d e f g h a 0x682e6ff3 w7;
         w8 = w8 + (sha256_sigma1 w6 + w1 + sha256_sigma0 w9);
         (d, h) = sha256_Round a b c d e f g h 0x748f82ee w8;
         w9 = w9 + (sha256_sigma1 w7 + w2 + sha256_sigma0 w10);
         (c, g) = sha256_Round h a b c d e f g 0x78a5636f w9;
         w10 = w10 + (sha256_sigma1 w8 + w3 + sha256_sigma0 w11);
         (b, f) = sha256_Round g h a b c d e f 0x84c87814 w10;
         w11 = w11 + (sha256_sigma1 w9 + w4 + sha256_sigma0 w12);
         (a, e) = sha256_Round f g h a b c d e 0x8cc70208 w11;
         w12 = w12 + (sha256_sigma1 w10 + w5 + sha256_sigma0 w13);
         (h, d) = sha256_Round e f g h a b c d 0x90befffa w12;
         w13 = w13 + (sha256_sigma1 w11 + w6 + sha256_sigma0 w14);
         (g, c) = sha256_Round d e f g h a b c 0xa4506ceb w13;
         (f, b) = sha256_Round c d e f g h a b 0xbef9a3f7 (w14 + sha256_sigma1 w12 + w7 + sha256_sigma0 w15);
         (e, a) = sha256_Round b c d e f g h a 0xc67178f2 (w15 + sha256_sigma1 w13 + w8 + sha256_sigma0 w0)
     in (a, b, c, d, e, f, g, h))"

definition sha256_block :: "u32 list \<Rightarrow> bytes \<Rightarrow> u32 list" where
  "sha256_block s chunk =
     (let (st, ws) = sha256_rounds0 (s ! 0, s ! 1, s ! 2, s ! 3, s ! 4, s ! 5, s ! 6, s ! 7) chunk;
          (st, ws) = sha256_rounds1 st ws;
          (st, ws) = sha256_rounds2 st ws;
          (a, b, c, d, e, f, g, h) = sha256_rounds3 st ws
      in [s ! 0 + a, s ! 1 + b, s ! 2 + c, s ! 3 + d, s ! 4 + e, s ! 5 + f, s ! 6 + g, s ! 7 + h])"

fun sha256_Transform :: "u32 list \<Rightarrow> bytes \<Rightarrow> nat \<Rightarrow> u32 list" where
  "sha256_Transform s chunk 0 = s"
| "sha256_Transform s chunk (Suc blocks) =
     sha256_Transform (sha256_block s chunk) (drop 64 chunk) blocks"

section \<open>The standard's definition\<close>

definition fips_K :: "u32 list" where
  "fips_K =
     [1116352408, 1899447441, 3049323471, 3921009573, 961987163, 1508970993, 2453635748, 2870763221,
      3624381080, 310598401, 607225278, 1426881987, 1925078388, 2162078206, 2614888103, 3248222580,
      3835390401, 4022224774, 264347078, 604807628, 770255983, 1249150122, 1555081692, 1996064986,
      2554220882, 2821834349, 2952996808, 3210313671, 3336571891, 3584528711, 113926993, 338241895,
      666307205, 773529912, 1294757372, 1396182291, 1695183700, 1986661051, 2177026350, 2456956037,
      2730485921, 2820302411, 3259730800, 3345764771, 3516065817, 3600352804, 4094571909, 275423344,
      430227734, 506948616, 659060556, 883997877, 958139571, 1322822218, 1537002063, 1747873779,
      1955562222, 2024104815, 2227730452, 2361852424, 2428436474, 2756734187, 3204031479, 3329325298]"

definition fips_Ch :: "u32 \<Rightarrow> u32 \<Rightarrow> u32 \<Rightarrow> u32" where
  "fips_Ch x y z = (x AND y) XOR (NOT x AND z)"

definition fips_Maj :: "u32 \<Rightarrow> u32 \<Rightarrow> u32 \<Rightarrow> u32" where
  "fips_Maj x y z = (x AND y) XOR (x AND z) XOR (y AND z)"

definition fips_Sigma :: "nat \<Rightarrow> nat \<Rightarrow> nat \<Rightarrow> u32 \<Rightarrow> u32" where
  "fips_Sigma i j k x = word_rotr i x XOR word_rotr j x XOR word_rotr k x"

definition fips_sigma :: "nat \<Rightarrow> nat \<Rightarrow> nat \<Rightarrow> u32 \<Rightarrow> u32" where
  "fips_sigma i j k x = word_rotr i x XOR word_rotr j x XOR drop_bit k x"

fun fips_W :: "bytes \<Rightarrow> nat \<Rightarrow> u32" where
  "fips_W chunk t =
     (if t < 16 then be_word (take 4 (drop (4 * t) chunk))
      else fips_sigma 17 19 10 (fips_W chunk (t - 2)) + fips_W chunk (t - 7) +
           fips_sigma 7 18 3 (fips_W chunk (t - 15)) + fips_W chunk (t - 16))"

declare fips_W.simps [simp del]

definition fips_round :: "u32x8 \<Rightarrow> u32 \<Rightarrow> u32 \<Rightarrow> u32x8" where
  "fips_round = (\<lambda>(a, b, c, d, e, f, g, h) k w.
     let t1 = h + fips_Sigma 6 11 25 e + fips_Ch e f g + k + w;
         t2 = fips_Sigma 2 13 22 a + fips_Maj a b c
     in (t1 + t2, a, b, c, d + t1, e, f, g))"

definition fips_rounds :: "bytes \<Rightarrow> nat list \<Rightarrow> u32x8 \<Rightarrow> u32x8" where
  "fips_rounds chunk ts st = foldl (\<lambda>st t. fips_round st (fips_K ! t) (fips_W chunk t)) st ts"

definition fips_compress :: "u32 list \<Rightarrow> bytes \<Rightarrow> u32 list" where
  "fips_compress s chunk =
     (case fips_rounds chunk [0..<64] (s ! 0, s ! 1, s ! 2, s ! 3, s ! 4, s ! 5, s ! 6, s ! 7) of
        (a, b, c, d, e, f, g, h) \<Rightarrow>
          [s ! 0 + a, s ! 1 + b, s ! 2 + c, s ! 3 + d, s ! 4 + e, s ! 5 + f, s ! 6 + g, s ! 7 + h])"

section \<open>The unrolled rounds are the standard's\<close>

lemma Ch_eq: "sha256_Ch x y z = fips_Ch x y z"
  by (rule bit_word_eqI) (auto simp: sha256_Ch_def fips_Ch_def bit_simps)

lemma Maj_eq: "sha256_Maj x y z = fips_Maj x y z"
  by (rule bit_word_eqI) (auto simp: sha256_Maj_def fips_Maj_def bit_simps)


lemma rotr_eq:
  assumes "0 < k" "k < 32"
  shows "drop_bit k x OR push_bit (32 - k) x = word_rotr k (x :: u32)"
  using rotr_shift_eq [of k x] assms by simp

lemmas rotr_eqs =
  rotr_eq [of 2, simplified] rotr_eq [of 13, simplified] rotr_eq [of 22, simplified]
  rotr_eq [of 6, simplified] rotr_eq [of 11, simplified] rotr_eq [of 25, simplified]
  rotr_eq [of 7, simplified] rotr_eq [of 18, simplified] rotr_eq [of 17, simplified]
  rotr_eq [of 19, simplified]

lemma sha256_sigma_eq:
  "sha256_Sigma0 x = fips_Sigma 2 13 22 x" "sha256_Sigma1 x = fips_Sigma 6 11 25 x"
  "sha256_sigma0 x = fips_sigma 7 18 3 x" "sha256_sigma1 x = fips_sigma 17 19 10 x"
  by (simp_all only: sha256_Sigma0_def sha256_Sigma1_def sha256_sigma0_def sha256_sigma1_def
      fips_Sigma_def fips_sigma_def rotr_eqs)

lemma fips_round_eq:
  "fips_round (a, b, c, d, e, f, g, h) k w =
     (case sha256_Round a b c d e f g h k w of (d', h') \<Rightarrow> (h', a, b, c, d', e, f, g))"
  by (simp add: fips_round_def sha256_Round_def Let_def sha256_sigma_eq Ch_eq Maj_eq)

lemma schedule:
  "fips_W chunk t + (sha256_sigma1 (fips_W chunk (t + 14)) + fips_W chunk (t + 9) +
     sha256_sigma0 (fips_W chunk (t + 1))) = fips_W chunk (t + 16)"
  by (subst (5) fips_W.simps) (simp add: sha256_sigma_eq ac_simps)

lemma schedule_start:
  "fips_W chunk 0 + (sha256_sigma1 (fips_W chunk 14) + fips_W chunk 9 + sha256_sigma0 (fips_W chunk 1))
     = fips_W chunk 16"
  "fips_W chunk 1 + (sha256_sigma1 (fips_W chunk 15) + fips_W chunk 10 + sha256_sigma0 (fips_W chunk 2))
     = fips_W chunk 17"
  using schedule [of chunk 0] schedule [of chunk 1] by (simp_all add: numeral_2_eq_2)

lemmas schedule1 = schedule_start
  schedule [of chunk 2, simplified] schedule [of chunk 3, simplified] schedule [of chunk 4, simplified]
  schedule [of chunk 5, simplified] schedule [of chunk 6, simplified] schedule [of chunk 7, simplified]
  schedule [of chunk 8, simplified] schedule [of chunk 9, simplified] schedule [of chunk 10, simplified]
  schedule [of chunk 11, simplified] schedule [of chunk 12, simplified] schedule [of chunk 13, simplified]
  schedule [of chunk 14, simplified] schedule [of chunk 15, simplified] for chunk

lemmas schedule2 =
  schedule [of chunk 16, simplified] schedule [of chunk 17, simplified] schedule [of chunk 18, simplified]
  schedule [of chunk 19, simplified] schedule [of chunk 20, simplified] schedule [of chunk 21, simplified]
  schedule [of chunk 22, simplified] schedule [of chunk 23, simplified] schedule [of chunk 24, simplified]
  schedule [of chunk 25, simplified] schedule [of chunk 26, simplified] schedule [of chunk 27, simplified]
  schedule [of chunk 28, simplified] schedule [of chunk 29, simplified] schedule [of chunk 30, simplified]
  schedule [of chunk 31, simplified] for chunk

lemma schedule_end:
  "fips_W chunk 46 + sha256_sigma1 (fips_W chunk 60) + fips_W chunk 55 + sha256_sigma0 (fips_W chunk 47)
     = fips_W chunk 62"
  "fips_W chunk 47 + sha256_sigma1 (fips_W chunk 61) + fips_W chunk 56 + sha256_sigma0 (fips_W chunk 48)
     = fips_W chunk 63"
  using schedule [of chunk 46] schedule [of chunk 47] by (simp_all add: add.assoc)

lemmas schedule3 = schedule_end
  schedule [of chunk 32, simplified] schedule [of chunk 33, simplified] schedule [of chunk 34, simplified]
  schedule [of chunk 35, simplified] schedule [of chunk 36, simplified] schedule [of chunk 37, simplified]
  schedule [of chunk 38, simplified] schedule [of chunk 39, simplified] schedule [of chunk 40, simplified]
  schedule [of chunk 41, simplified] schedule [of chunk 42, simplified] schedule [of chunk 43, simplified]
  schedule [of chunk 44, simplified] schedule [of chunk 45, simplified] schedule [of chunk 46, simplified]
  schedule [of chunk 47, simplified] for chunk

lemma fips_rounds_Cons:
  "fips_rounds chunk (t # ts) st = fips_rounds chunk ts (fips_round st (fips_K ! t) (fips_W chunk t))"
  "fips_rounds chunk [] st = st"
  by (simp_all add: fips_rounds_def)

lemma prod_cases8:
  obtains a b c d e f g h where "(st :: u32x8) = (a, b, c, d, e, f, g, h)"
  by (cases st) auto

lemma fips_W_start:
  "ReadBE32 chunk 0 = fips_W chunk 0"
  "ReadBE32 chunk 4 = fips_W chunk 1"
  "ReadBE32 chunk 8 = fips_W chunk 2"
  "ReadBE32 chunk 12 = fips_W chunk 3"
  "ReadBE32 chunk 16 = fips_W chunk 4"
  "ReadBE32 chunk 20 = fips_W chunk 5"
  "ReadBE32 chunk 24 = fips_W chunk 6"
  "ReadBE32 chunk 28 = fips_W chunk 7"
  "ReadBE32 chunk 32 = fips_W chunk 8"
  "ReadBE32 chunk 36 = fips_W chunk 9"
  "ReadBE32 chunk 40 = fips_W chunk 10"
  "ReadBE32 chunk 44 = fips_W chunk 11"
  "ReadBE32 chunk 48 = fips_W chunk 12"
  "ReadBE32 chunk 52 = fips_W chunk 13"
  "ReadBE32 chunk 56 = fips_W chunk 14"
  "ReadBE32 chunk 60 = fips_W chunk 15"
  by (simp_all add: ReadBE32_def fips_W.simps)

lemma rounds0:
  "sha256_rounds0 st chunk =
     (fips_rounds chunk [0, 1, 2, 3, 4, 5, 6, 7, 8, 9, 10, 11, 12, 13, 14, 15] st,
     (fips_W chunk 0, fips_W chunk 1, fips_W chunk 2, fips_W chunk 3, fips_W chunk 4,
     fips_W chunk 5, fips_W chunk 6, fips_W chunk 7, fips_W chunk 8, fips_W chunk 9,
     fips_W chunk 10, fips_W chunk 11, fips_W chunk 12, fips_W chunk 13, fips_W chunk 14,
     fips_W chunk 15))"
proof -
  obtain a b c d e f g h where st: "st = (a, b, c, d, e, f, g, h)" by (rule prod_cases8)
  show ?thesis
    unfolding st sha256_rounds0_def fips_rounds_Cons
    by (simp only: prod.case Let_def fips_W_start) (simp add: fips_round_eq fips_K_def split: prod.split)
qed

lemma rounds1:
  "sha256_rounds1 st (fips_W chunk 0, fips_W chunk 1, fips_W chunk 2, fips_W chunk 3, fips_W chunk 4,
     fips_W chunk 5, fips_W chunk 6, fips_W chunk 7, fips_W chunk 8, fips_W chunk 9,
     fips_W chunk 10, fips_W chunk 11, fips_W chunk 12, fips_W chunk 13, fips_W chunk 14,
     fips_W chunk 15) =
     (fips_rounds chunk [16, 17, 18, 19, 20, 21, 22, 23, 24, 25, 26, 27, 28, 29, 30, 31] st,
     (fips_W chunk 16, fips_W chunk 17, fips_W chunk 18, fips_W chunk 19, fips_W chunk 20,
     fips_W chunk 21, fips_W chunk 22, fips_W chunk 23, fips_W chunk 24, fips_W chunk 25,
     fips_W chunk 26, fips_W chunk 27, fips_W chunk 28, fips_W chunk 29, fips_W chunk 30,
     fips_W chunk 31))"
proof -
  obtain a b c d e f g h where st: "st = (a, b, c, d, e, f, g, h)" by (rule prod_cases8)
  show ?thesis
    unfolding st sha256_rounds1_def fips_rounds_Cons
    by (simp only: prod.case Let_def schedule1) (simp add: fips_round_eq fips_K_def split: prod.split)
qed

lemma rounds2:
  "sha256_rounds2 st (fips_W chunk 16, fips_W chunk 17, fips_W chunk 18, fips_W chunk 19, fips_W chunk 20,
     fips_W chunk 21, fips_W chunk 22, fips_W chunk 23, fips_W chunk 24, fips_W chunk 25,
     fips_W chunk 26, fips_W chunk 27, fips_W chunk 28, fips_W chunk 29, fips_W chunk 30,
     fips_W chunk 31) =
     (fips_rounds chunk [32, 33, 34, 35, 36, 37, 38, 39, 40, 41, 42, 43, 44, 45, 46, 47] st,
     (fips_W chunk 32, fips_W chunk 33, fips_W chunk 34, fips_W chunk 35, fips_W chunk 36,
     fips_W chunk 37, fips_W chunk 38, fips_W chunk 39, fips_W chunk 40, fips_W chunk 41,
     fips_W chunk 42, fips_W chunk 43, fips_W chunk 44, fips_W chunk 45, fips_W chunk 46,
     fips_W chunk 47))"
proof -
  obtain a b c d e f g h where st: "st = (a, b, c, d, e, f, g, h)" by (rule prod_cases8)
  show ?thesis
    unfolding st sha256_rounds2_def fips_rounds_Cons
    by (simp only: prod.case Let_def schedule2) (simp add: fips_round_eq fips_K_def split: prod.split)
qed

lemma rounds3:
  "sha256_rounds3 st (fips_W chunk 32, fips_W chunk 33, fips_W chunk 34, fips_W chunk 35, fips_W chunk 36,
     fips_W chunk 37, fips_W chunk 38, fips_W chunk 39, fips_W chunk 40, fips_W chunk 41,
     fips_W chunk 42, fips_W chunk 43, fips_W chunk 44, fips_W chunk 45, fips_W chunk 46,
     fips_W chunk 47) =
     fips_rounds chunk [48, 49, 50, 51, 52, 53, 54, 55, 56, 57, 58, 59, 60, 61, 62, 63] st"
proof -
  obtain a b c d e f g h where st: "st = (a, b, c, d, e, f, g, h)" by (rule prod_cases8)
  show ?thesis
    unfolding st sha256_rounds3_def fips_rounds_Cons
    by (simp only: prod.case Let_def schedule3) (simp add: fips_round_eq fips_K_def split: prod.split)
qed

lemma fips_rounds_append:
  "fips_rounds chunk (ts @ us) st = fips_rounds chunk us (fips_rounds chunk ts st)"
  by (simp add: fips_rounds_def)

lemma sha256_block_eq: "sha256_block s chunk = fips_compress s chunk"
proof -
  have "[0..<64] = [0, 1, 2, 3, 4, 5, 6, 7, 8, 9, 10, 11, 12, 13, 14, 15] @
      [16, 17, 18, 19, 20, 21, 22, 23, 24, 25, 26, 27, 28, 29, 30, 31] @
      [32, 33, 34, 35, 36, 37, 38, 39, 40, 41, 42, 43, 44, 45, 46, 47] @
      [48, 49, 50, 51, 52, 53, 54, 55, 56, 57, 58, 59, 60, 61, 62, 63]"
    by code_simp
  then show ?thesis
    by (simp only: sha256_block_def fips_compress_def rounds0 rounds1 rounds2 rounds3
        fips_rounds_append Let_def prod.case)
qed

section \<open>The hasher class\<close>

type_synonym CSHA256 = "u32 list hasher"

text \<open>The constructor leaves \<open>buf\<close> uninitialised: its content is an argument.\<close>

definition CSHA256_new :: "bytes \<Rightarrow> CSHA256" where
  "CSHA256_new buf = \<lparr> hs_s = sha256_Initialize, hs_buf = buf, hs_bytes = 0 \<rparr>"

definition CSHA256_Write :: "CSHA256 \<Rightarrow> bytes \<Rightarrow> CSHA256" where
  "CSHA256_Write h dat =
     (case fill_buffer 64 (\<lambda>s b. sha256_Transform s b 1) h dat of (h1, dat1, bufsize) \<Rightarrow>
      let (h2, dat2) =
            (if length dat1 \<ge> 64
             then let blocks = length dat1 div 64
                  in (h1\<lparr> hs_s := sha256_Transform (hs_s h1) dat1 blocks,
                          hs_bytes := hs_bytes h1 + of_nat (64 * blocks) \<rparr>,
                      drop (64 * blocks) dat1)
             else (h1, dat1))
      in keep_rest h2 dat2 bufsize)"

text \<open>\<open>Finalize\<close> writes the padding and the length into the object before it outputs the state.\<close>

definition CSHA256_pad :: "CSHA256 \<Rightarrow> CSHA256" where
  "CSHA256_pad h =
     (let sizedesc = be_bytes 8 (push_bit 3 (hs_bytes h));
          h1 = CSHA256_Write h (hash_pad (1 + ((119 - unat (hs_bytes h) mod 64) mod 64)))
      in CSHA256_Write h1 sizedesc)"

definition CSHA256_Finalize :: "CSHA256 \<Rightarrow> bytes" where
  "CSHA256_Finalize h = concat (map (be_bytes 4) (hs_s (CSHA256_pad h)))"

definition CSHA256_Reset :: "CSHA256 \<Rightarrow> CSHA256" where
  "CSHA256_Reset h = h\<lparr> hs_bytes := 0, hs_s := sha256_Initialize \<rparr>"

section \<open>Digests\<close>

lemma sha256_Transform_1: "(\<lambda>s b. sha256_Transform s b 1) = sha256_block"
  by (intro ext) simp

lemma fips_W_take: "fips_W (take 64 dat) t = fips_W dat t"
proof (induction t rule: less_induct)
  case (less t)
  show ?case
  proof (cases "t < 16")
    case True
    then show ?thesis by (simp add: fips_W.simps [of _ t] drop_take min_def)
  next
    case False
    then show ?thesis using less by (simp add: fips_W.simps [of _ t])
  qed
qed

lemma sha256_block_take: "sha256_block s (take 64 dat) = sha256_block s dat"
  by (simp add: sha256_block_eq fips_compress_def fips_rounds_def fips_W_take)

lemma sha256_Transform_blocks:
  "sha256_Transform s dat (length dat div 64) = compress_blocks 64 sha256_block s dat"
proof (induction "length dat div 64" arbitrary: s dat)
  case 0
  then have "length dat < 64" by (simp add: div_eq_0_iff)
  then show ?case by simp
next
  case (Suc blocks)
  then have ge: "64 \<le> length dat" by (metis div_less less_zeroE not_le zero_less_Suc)
  then have blocks: "blocks = length (drop 64 dat) div 64" using Suc.hyps(2) by simp
  have "sha256_Transform s dat (length dat div 64)
      = sha256_Transform (sha256_block s dat) (drop 64 dat) blocks"
    by (simp flip: Suc.hyps(2))
  also have "\<dots> = compress_blocks 64 sha256_block (sha256_block s dat) (drop 64 dat)"
    using Suc.hyps(1) [OF blocks, of "sha256_block s dat"] blocks by simp
  also have "\<dots> = compress_blocks 64 sha256_block s dat"
    using ge by (simp add: compress_blocks_step [of 64 dat] sha256_block_take)
  finally show ?case .
qed

lemma CSHA256_Write_eq: "CSHA256_Write h dat = hasher_write 64 sha256_block h dat"
proof -
  have short: "length xs < 64 \<Longrightarrow> xs = rest_part 64 xs" for xs :: bytes
    by (simp add: rest_part_def)
  show ?thesis
    unfolding CSHA256_Write_def hasher_write_def sha256_Transform_1
    by (cases "fill_buffer 64 sha256_block h dat")
       (auto simp: write_chunks_eq sha256_Transform_blocks rest_part_def mult.commute Let_def)
qed

interpretation sha256_hasher: block_hasher 64 sha256_block sha256_Initialize CSHA256_Write
  by unfold_locales (simp_all add: CSHA256_Write_eq hasher_write_absorbed)

text \<open>
  SHA-256 as the standard defines it: the message is padded with a one bit, zeros and its length
  in bits to whole blocks, and the blocks are compressed in turn.
\<close>

definition fips_padding :: "nat \<Rightarrow> bytes" where
  "fips_padding len = 0x80 # replicate ((119 - len mod 64) mod 64) 0 @ be_bytes 8 (of_nat (8 * len) :: u64)"

definition fips_sha256 :: "bytes \<Rightarrow> bytes" where
  "fips_sha256 msg =
     concat (map (be_bytes 4)
       (compress_blocks 64 fips_compress sha256_Initialize (msg @ fips_padding (length msg))))"

lemma fips_padding_aligned: "64 dvd length msg + length (fips_padding (length msg))"
proof -
  have "(length msg + (1 + (119 - length msg mod 64) mod 64) + 8) mod 64
      = (length msg mod 64 + (1 + (119 - length msg mod 64)) + 8) mod 64" by (rule mod_pad)
  also have "length msg mod 64 + (1 + (119 - length msg mod 64)) + 8 = 128"
    using mod_less_divisor [of 64 "length msg"] by linarith
  also have "(128 :: nat) mod 64 = 0" by simp
  finally have aligned: "(length msg + (1 + (119 - length msg mod 64) mod 64) + 8) mod 64 = 0" .
  have "length (fips_padding (length msg)) = 1 + (119 - length msg mod 64) mod 64 + 8"
    by (simp add: fips_padding_def)
  then show ?thesis using aligned by (simp only: dvd_eq_mod_eq_0 add.assoc)
qed

lemma CSHA256_Finalize_absorbed:
  assumes "absorbed 64 sha256_block sha256_Initialize h msg"
  shows "CSHA256_Finalize h = fips_sha256 msg"
proof -
  have b: "unat (hs_bytes h) mod 64 = length msg mod 64"
    by (rule bufsize_eq [OF assms]) simp
  let ?p = "hash_pad (1 + ((119 - unat (hs_bytes h) mod 64) mod 64))"
  let ?q = "be_bytes 8 (push_bit 3 (hs_bytes h))"
  have bytes: "hs_bytes h = of_nat (length msg)" using assms by (simp add: absorbed_def)
  have pad: "?p @ ?q = fips_padding (length msg)"
    unfolding b unfolding bytes by (simp add: hash_pad_def fips_padding_def bytes_to_bits)
  have "hs_s (CSHA256_Write (CSHA256_Write h ?p) ?q)
      = compress_blocks 64 sha256_block sha256_Initialize (msg @ fips_padding (length msg))"
    unfolding pad [symmetric] by (rule sha256_hasher.finish [OF assms])
  moreover have "sha256_block = fips_compress" by (intro ext) (rule sha256_block_eq)
  ultimately show ?thesis by (simp add: CSHA256_Finalize_def CSHA256_pad_def fips_sha256_def Let_def)
qed

lemma CSHA256_Reset_absorbed:
  assumes "absorbed 64 sha256_block sha256_Initialize h msg"
  shows "absorbed 64 sha256_block sha256_Initialize (CSHA256_Reset (CSHA256_pad h)) []"
proof -
  have "absorbed 64 sha256_block sha256_Initialize (CSHA256_pad h)
      ((msg @ hash_pad (1 + ((119 - unat (hs_bytes h) mod 64) mod 64))) @
       be_bytes 8 (push_bit 3 (hs_bytes h)))"
    unfolding CSHA256_pad_def Let_def by (intro sha256_hasher.write_absorbs assms)
  then show ?thesis by (simp add: absorbed_def CSHA256_Reset_def rest_part_def)
qed

lemma length_fips_compress [simp]: "length (fips_compress s chunk) = 8"
  by (simp add: fips_compress_def split: prod.split)

lemma length_compress_blocks:
  "(\<And>s b. length (tr s b) = k) \<Longrightarrow> length s = k \<Longrightarrow> length (compress_blocks blk tr s msg) = k"
  by (induction blk tr s msg rule: compress_blocks.induct) (subst compress_blocks.simps, simp)

lemma length_concat_be_bytes: "length (concat (map (be_bytes n) xs)) = n * length xs"
  by (induction xs) simp_all

lemma length_fips_sha256 [simp]: "length (fips_sha256 msg) = 32"
  by (simp add: fips_sha256_def length_concat_be_bytes length_compress_blocks [where k = 8]
      sha256_Initialize_def)

text \<open>
  C39: whatever pieces a message is written in, and whatever the buffer of a new hasher contains,
  the digest is the one the standard defines for the whole message: the unrolled rounds compute the
  standard's compression function and the buffering neither loses nor repeats a byte.
\<close>

theorem CSHA256_digest:
  assumes "length buf = 64"
  shows "CSHA256_Finalize (foldl CSHA256_Write (CSHA256_new buf) dats) = fips_sha256 (concat dats)"
proof -
  have "absorbed 64 sha256_block sha256_Initialize (CSHA256_new buf) []"
    unfolding CSHA256_new_def by (rule sha256_hasher.new_absorbed [OF assms])
  from sha256_hasher.writes_absorbed [OF this, of dats] show ?thesis
    by (simp add: CSHA256_Finalize_absorbed)
qed

theorem CSHA256_digest_witness:
  "CSHA256_Finalize (CSHA256_Write (CSHA256_Write (CSHA256_new (replicate 64 0)) [1]) [2, 3])
     = fips_sha256 [1, 2, 3]"
  using CSHA256_digest [of "replicate 64 0" "[[1], [2, 3]]"] by simp

end
