(* ===== verification/Sha512.thy ===== *)
theory Sha512
  imports Hasher
begin

text \<open>
  \<open>crypto/sha512.cpp\<close>: the unrolled SHA-512 compression function and its hasher class, with the
  standard's rolled definition it is proved equal to.
\<close>

section \<open>The compression function\<close>

type_synonym u64x8 = "u64 \<times> u64 \<times> u64 \<times> u64 \<times> u64 \<times> u64 \<times> u64 \<times> u64"
type_synonym u64x16 = "u64 \<times> u64 \<times> u64 \<times> u64 \<times> u64 \<times> u64 \<times> u64 \<times> u64 \<times>
  u64 \<times> u64 \<times> u64 \<times> u64 \<times> u64 \<times> u64 \<times> u64 \<times> u64"

definition sha512_Ch :: "u64 \<Rightarrow> u64 \<Rightarrow> u64 \<Rightarrow> u64" where
  "sha512_Ch x y z = z XOR (x AND (y XOR z))"

definition sha512_Maj :: "u64 \<Rightarrow> u64 \<Rightarrow> u64 \<Rightarrow> u64" where
  "sha512_Maj x y z = (x AND y) OR (z AND (x OR y))"

definition sha512_Sigma0 :: "u64 \<Rightarrow> u64" where
  "sha512_Sigma0 x = (drop_bit 28 x OR push_bit 36 x) XOR (drop_bit 34 x OR push_bit 30 x) XOR
     (drop_bit 39 x OR push_bit 25 x)"

definition sha512_Sigma1 :: "u64 \<Rightarrow> u64" where
  "sha512_Sigma1 x = (drop_bit 14 x OR push_bit 50 x) XOR (drop_bit 18 x OR push_bit 46 x) XOR
     (drop_bit 41 x OR push_bit 23 x)"

definition sha512_sigma0 :: "u64 \<Rightarrow> u64" where
  "sha512_sigma0 x = (drop_bit 1 x OR push_bit 63 x) XOR (drop_bit 8 x OR push_bit 56 x) XOR
     drop_bit 7 x"

definition sha512_sigma1 :: "u64 \<Rightarrow> u64" where
  "sha512_sigma1 x = (drop_bit 19 x OR push_bit 45 x) XOR (drop_bit 61 x OR push_bit 3 x) XOR
     drop_bit 6 x"

definition sha512_Round ::
    "u64 \<Rightarrow> u64 \<Rightarrow> u64 \<Rightarrow> u64 \<Rightarrow> u64 \<Rightarrow> u64 \<Rightarrow> u64 \<Rightarrow> u64 \<Rightarrow> u64 \<Rightarrow> u64 \<Rightarrow> u64 \<times> u64" where
  "sha512_Round a b c d e f g h k w =
     (let t1 = h + sha512_Sigma1 e + sha512_Ch e f g + k + w;
          t2 = sha512_Sigma0 a + sha512_Maj a b c
      in (d + t1, t1 + t2))"

definition sha512_Initialize :: "u64 list" where
  "sha512_Initialize = [0x6a09e667f3bcc908, 0xbb67ae8584caa73b, 0x3c6ef372fe94f82b,
     0xa54ff53a5f1d36f1, 0x510e527fade682d1, 0x9b05688c2b3e6c1f, 0x1f83d9abfb41bd6b,
     0x5be0cd19137e2179]"

definition sha512_rounds0 :: "u64x8 \<Rightarrow> bytes \<Rightarrow> u64x8 \<times> u64x16" where
  "sha512_rounds0 = (\<lambda>(a, b, c, d, e, f, g, h) chunk.
     let w0 = ReadBE64 chunk 0;
         (d, h) = sha512_Round a b c d e f g h 0x428a2f98d728ae22 w0;
         w1 = ReadBE64 chunk 8;
         (c, g) = sha512_Round h a b c d e f g 0x7137449123ef65cd w1;
         w2 = ReadBE64 chunk 16;
         (b, f) = sha512_Round g h a b c d e f 0xb5c0fbcfec4d3b2f w2;
         w3 = ReadBE64 chunk 24;
         (a, e) = sha512_Round f g h a b c d e 0xe9b5dba58189dbbc w3;
         w4 = ReadBE64 chunk 32;
         (h, d) = sha512_Round e f g h a b c d 0x3956c25bf348b538 w4;
         w5 = ReadBE64 chunk 40;
         (g, c) = sha512_Round d e f g h a b c 0x59f111f1b605d019 w5;
         w6 = ReadBE64 chunk 48;
         (f, b) = sha512_Round c d e f g h a b 0x923f82a4af194f9b w6;
         w7 = ReadBE64 chunk 56;
         (e, a) = sha512_Round b c d e f g h a 0xab1c5ed5da6d8118 w7;
         w8 = ReadBE64 chunk 64;
         (d, h) = sha512_Round a b c d e f g h 0xd807aa98a3030242 w8;
         w9 = ReadBE64 chunk 72;
         (c, g) = sha512_Round h a b c d e f g 0x12835b0145706fbe w9;
         w10 = ReadBE64 chunk 80;
         (b, f) = sha512_Round g h a b c d e f 0x243185be4ee4b28c w10;
         w11 = ReadBE64 chunk 88;
         (a, e) = sha512_Round f g h a b c d e 0x550c7dc3d5ffb4e2 w11;
         w12 = ReadBE64 chunk 96;
         (h, d) = sha512_Round e f g h a b c d 0x72be5d74f27b896f w12;
         w13 = ReadBE64 chunk 104;
         (g, c) = sha512_Round d e f g h a b c 0x80deb1fe3b1696b1 w13;
         w14 = ReadBE64 chunk 112;
         (f, b) = sha512_Round c d e f g h a b 0x9bdc06a725c71235 w14;
         w15 = ReadBE64 chunk 120;
         (e, a) = sha512_Round b c d e f g h a 0xc19bf174cf692694 w15
     in ((a, b, c, d, e, f, g, h), (w0, w1, w2, w3, w4, w5, w6, w7, w8, w9, w10, w11, w12, w13, w14, w15)))"

definition sha512_rounds1 :: "u64x8 \<Rightarrow> u64x16 \<Rightarrow> u64x8 \<times> u64x16" where
  "sha512_rounds1 = (\<lambda>(a, b, c, d, e, f, g, h) (w0, w1, w2, w3, w4, w5, w6, w7, w8, w9, w10, w11, w12, w13, w14, w15).
     let w0 = w0 + (sha512_sigma1 w14 + w9 + sha512_sigma0 w1);
         (d, h) = sha512_Round a b c d e f g h 0xe49b69c19ef14ad2 w0;
         w1 = w1 + (sha512_sigma1 w15 + w10 + sha512_sigma0 w2);
         (c, g) = sha512_Round h a b c d e f g 0xefbe4786384f25e3 w1;
         w2 = w2 + (sha512_sigma1 w0 + w11 + sha512_sigma0 w3);
         (b, f) = sha512_Round g h a b c d e f 0x0fc19dc68b8cd5b5 w2;
         w3 = w3 + (sha512_sigma1 w1 + w12 + sha512_sigma0 w4);
         (a, e) = sha512_Round f g h a b c d e 0x240ca1cc77ac9c65 w3;
         w4 = w4 + (sha512_sigma1 w2 + w13 + sha512_sigma0 w5);
         (h, d) = sha512_Round e f g h a b c d 0x2de92c6f592b0275 w4;
         w5 = w5 + (sha512_sigma1 w3 + w14 + sha512_sigma0 w6);
         (g, c) = sha512_Round d e f g h a b c 0x4a7484aa6ea6e483 w5;
         w6 = w6 + (sha512_sigma1 w4 + w15 + sha512_sigma0 w7);
         (f, b) = sha512_Round c d e f g h a b 0x5cb0a9dcbd41fbd4 w6;
         w7 = w7 + (sha512_sigma1 w5 + w0 + sha512_sigma0 w8);
         (e, a) = sha512_Round b c d e f g h a 0x76f988da831153b5 w7;
         w8 = w8 + (sha512_sigma1 w6 + w1 + sha512_sigma0 w9);
         (d, h) = sha512_Round a b c d e f g h 0x983e5152ee66dfab w8;
         w9 = w9 + (sha512_sigma1 w7 + w2 + sha512_sigma0 w10);
         (c, g) = sha512_Round h a b c d e f g 0xa831c66d2db43210 w9;
         w10 = w10 + (sha512_sigma1 w8 + w3 + sha512_sigma0 w11);
         (b, f) = sha512_Round g h a b c d e f 0xb00327c898fb213f w10;
         w11 = w11 + (sha512_sigma1 w9 + w4 + sha512_sigma0 w12);
         (a, e) = sha512_Round f g h a b c d e 0xbf597fc7beef0ee4 w11;
         w12 = w12 + (sha512_sigma1 w10 + w5 + sha512_sigma0 w13);
         (h, d) = sha512_Round e f g h a b c d 0xc6e00bf33da88fc2 w12;
         w13 = w13 + (sha512_sigma1 w11 + w6 + sha512_sigma0 w14);
         (g, c) = sha512_Round d e f g h a b c 0xd5a79147930aa725 w13;
         w14 = w14 + (sha512_sigma1 w12 + w7 + sha512_sigma0 w15);
         (f, b) = sha512_Round c d e f g h a b 0x06ca6351e003826f w14;
         w15 = w15 + (sha512_sigma1 w13 + w8 + sha512_sigma0 w0);
         (e, a) = sha512_Round b c d e f g h a 0x142929670a0e6e70 w15
     in ((a, b, c, d, e, f, g, h), (w0, w1, w2, w3, w4, w5, w6, w7, w8, w9, w10, w11, w12, w13, w14, w15)))"

definition sha512_rounds2 :: "u64x8 \<Rightarrow> u64x16 \<Rightarrow> u64x8 \<times> u64x16" where
  "sha512_rounds2 = (\<lambda>(a, b, c, d, e, f, g, h) (w0, w1, w2, w3, w4, w5, w6, w7, w8, w9, w10, w11, w12, w13, w14, w15).
     let w0 = w0 + (sha512_sigma1 w14 + w9 + sha512_sigma0 w1);
         (d, h) = sha512_Round a b c d e f g h 0x27b70a8546d22ffc w0;
         w1 = w1 + (sha512_sigma1 w15 + w10 + sha512_sigma0 w2);
         (c, g) = sha512_Round h a b c d e f g 0x2e1b21385c26c926 w1;
         w2 = w2 + (sha512_sigma1 w0 + w11 + sha512_sigma0 w3);
         (b, f) = sha512_Round g h a b c d e f 0x4d2c6dfc5ac42aed w2;
         w3 = w3 + (sha512_sigma1 w1 + w12 + sha512_sigma0 w4);
         (a, e) = sha512_Round f g h a b c d e 0x53380d139d95b3df w3;
         w4 = w4 + (sha512_sigma1 w2 + w13 + sha512_sigma0 w5);
         (h, d) = sha512_Round e f g h a b c d 0x650a73548baf63de w4;
         w5 = w5 + (sha512_sigma1 w3 + w14 + sha512_sigma0 w6);
         (g, c) = sha512_Round d e f g h a b c 0x766a0abb3c77b2a8 w5;
         w6 = w6 + (sha512_sigma1 w4 + w15 + sha512_sigma0 w7);
         (f, b) = sha512_Round c d e f g h a b 0x81c2c92e47edaee6 w6;
         w7 = w7 + (sha512_sigma1 w5 + w0 + sha512_sigma0 w8);
         (e, a) = sha512_Round b c d e f g h a 0x92722c851482353b w7;
         w8 = w8 + (sha512_sigma1 w6 + w1 + sha512_sigma0 w9);
         (d, h) = sha512_Round a b c d e f g h 0xa2bfe8a14cf10364 w8;
         w9 = w9 + (sha512_sigma1 w7 + w2 + sha512_sigma0 w10);
         (c, g) = sha512_Round h a b c d e f g 0xa81a664bbc423001 w9;
         w10 = w10 + (sha512_sigma1 w8 + w3 + sha512_sigma0 w11);
         (b, f) = sha512_Round g h a b c d e f 0xc24b8b70d0f89791 w10;
         w11 = w11 + (sha512_sigma1 w9 + w4 + sha512_sigma0 w12);
         (a, e) = sha512_Round f g h a b c d e 0xc76c51a30654be30 w11;
         w12 = w12 + (sha512_sigma1 w10 + w5 + sha512_sigma0 w13);
         (h, d) = sha512_Round e f g h a b c d 0xd192e819d6ef5218 w12;
         w13 = w13 + (sha512_sigma1 w11 + w6 + sha512_sigma0 w14);
         (g, c) = sha512_Round d e f g h a b c 0xd69906245565a910 w13;
         w14 = w14 + (sha512_sigma1 w12 + w7 + sha512_sigma0 w15);
         (f, b) = sha512_Round c d e f g h a b 0xf40e35855771202a w14;
         w15 = w15 + (sha512_sigma1 w13 + w8 + sha512_sigma0 w0);
         (e, a) = sha512_Round b c d e f g h a 0x106aa07032bbd1b8 w15
     in ((a, b, c, d, e, f, g, h), (w0, w1, w2, w3, w4, w5, w6, w7, w8, w9, w10, w11, w12, w13, w14, w15)))"

definition sha512_rounds3 :: "u64x8 \<Rightarrow> u64x16 \<Rightarrow> u64x8 \<times> u64x16" where
  "sha512_rounds3 = (\<lambda>(a, b, c, d, e, f, g, h) (w0, w1, w2, w3, w4, w5, w6, w7, w8, w9, w10, w11, w12, w13, w14, w15).
     let w0 = w0 + (sha512_sigma1 w14 + w9 + sha512_sigma0 w1);
         (d, h) = sha512_Round a b c d e f g h 0x19a4c116b8d2d0c8 w0;
         w1 = w1 + (sha512_sigma1 w15 + w10 + sha512_sigma0 w2);
         (c, g) = sha512_Round h a b c d e f g 0x1e376c085141ab53 w1;
         w2 = w2 + (sha512_sigma1 w0 + w11 + sha512_sigma0 w3);
         (b, f) = sha512_Round g h a b c d e f 0x2748774cdf8eeb99 w2;
         w3 = w3 + (sha512_sigma1 w1 + w12 + sha512_sigma0 w4);
         (a, e) = sha512_Round f g h a b c d e 0x34b0bcb5e19b48a8 w3;
         w4 = w4 + (sha512_sigma1 w2 + w13 + sha512_sigma0 w5);
         (h, d) = sha512_Round e f g h a b c d 0x391c0cb3c5c95a63 w4;
         w5 = w5 + (sha512_sigma1 w3 + w14 + sha512_sigma0 w6);
         (g, c) = sha512_Round d e f g h a b c 0x4ed8aa4ae3418acb w5;
         w6 = w6 + (sha512_sigma1 w4 + w15 + sha512_sigma0 w7);
         (f, b) = sha512_Round c d e f g h a b 0x5b9cca4f7763e373 w6;
         w7 = w7 + (sha512_sigma1 w5 + w0 + sha512_sigma0 w8);
         (e, a) = sha512_Round b c d e f g h a 0x682e6ff3d6b2b8a3 w7;
         w8 = w8 + (sha512_sigma1 w6 + w1 + sha512_sigma0 w9);
         (d, h) = sha512_Round a b c d e f g h 0x748f82ee5defb2fc w8;
         w9 = w9 + (sha512_sigma1 w7 + w2 + sha512_sigma0 w10);
         (c, g) = sha512_Round h a b c d e f g 0x78a5636f43172f60 w9;
         w10 = w10 + (sha512_sigma1 w8 + w3 + sha512_sigma0 w11);
         (b, f) = sha512_Round g h a b c d e f 0x84c87814a1f0ab72 w10;
         w11 = w11 + (sha512_sigma1 w9 + w4 + sha512_sigma0 w12);
         (a, e) = sha512_Round f g h a b c d e 0x8cc702081a6439ec w11;
         w12 = w12 + (sha512_sigma1 w10 + w5 + sha512_sigma0 w13);
         (h, d) = sha512_Round e f g h a b c d 0x90befffa23631e28 w12;
         w13 = w13 + (sha512_sigma1 w11 + w6 + sha512_sigma0 w14);
         (g, c) = sha512_Round d e f g h a b c 0xa4506cebde82bde9 w13;
         w14 = w14 + (sha512_sigma1 w12 + w7 + sha512_sigma0 w15);
         (f, b) = sha512_Round c d e f g h a b 0xbef9a3f7b2c67915 w14;
         w15 = w15 + (sha512_sigma1 w13 + w8 + sha512_sigma0 w0);
         (e, a) = sha512_Round b c d e f g h a 0xc67178f2e372532b w15
     in ((a, b, c, d, e, f, g, h), (w0, w1, w2, w3, w4, w5, w6, w7, w8, w9, w10, w11, w12, w13, w14, w15)))"

definition sha512_rounds4 :: "u64x8 \<Rightarrow> u64x16 \<Rightarrow> u64x8" where
  "sha512_rounds4 = (\<lambda>(a, b, c, d, e, f, g, h) (w0, w1, w2, w3, w4, w5, w6, w7, w8, w9, w10, w11, w12, w13, w14, w15).
     let w0 = w0 + (sha512_sigma1 w14 + w9 + sha512_sigma0 w1);
         (d, h) = sha512_Round a b c d e f g h 0xca273eceea26619c w0;
         w1 = w1 + (sha512_sigma1 w15 + w10 + sha512_sigma0 w2);
         (c, g) = sha512_Round h a b c d e f g 0xd186b8c721c0c207 w1;
         w2 = w2 + (sha512_sigma1 w0 + w11 + sha512_sigma0 w3);
         (b, f) = sha512_Round g h a b c d e f 0xeada7dd6cde0eb1e w2;
         w3 = w3 + (sha512_sigma1 w1 + w12 + sha512_sigma0 w4);
         (a, e) = sha512_Round f g h a b c d e 0xf57d4f7fee6ed178 w3;
         w4 = w4 + (sha512_sigma1 w2 + w13 + sha512_sigma0 w5);
         (h, d) = sha512_Round e f g h a b c d 0x06f067aa72176fba w4;
         w5 = w5 + (sha512_sigma1 w3 + w14 + sha512_sigma0 w6);
         (g, c) = sha512_Round d e f g h a b c 0x0a637dc5a2c898a6 w5;
         w6 = w6 + (sha512_sigma1 w4 + w15 + sha512_sigma0 w7);
         (f, b) = sha512_Round c d e f g h a b 0x113f9804bef90dae w6;
         w7 = w7 + (sha512_sigma1 w5 + w0 + sha512_sigma0 w8);
         (e, a) = sha512_Round b c d e f g h a 0x1b710b35131c471b w7;
         w8 = w8 + (sha512_sigma1 w6 + w1 + sha512_sigma0 w9);
         (d, h) = sha512_Round a b c d e f g h 0x28db77f523047d84 w8;
         w9 = w9 + (sha512_sigma1 w7 + w2 + sha512_sigma0 w10);
         (c, g) = sha512_Round h a b c d e f g 0x32caab7b40c72493 w9;
         w10 = w10 + (sha512_sigma1 w8 + w3 + sha512_sigma0 w11);
         (b, f) = sha512_Round g h a b c d e f 0x3c9ebe0a15c9bebc w10;
         w11 = w11 + (sha512_sigma1 w9 + w4 + sha512_sigma0 w12);
         (a, e) = sha512_Round f g h a b c d e 0x431d67c49c100d4c w11;
         w12 = w12 + (sha512_sigma1 w10 + w5 + sha512_sigma0 w13);
         (h, d) = sha512_Round e f g h a b c d 0x4cc5d4becb3e42b6 w12;
         w13 = w13 + (sha512_sigma1 w11 + w6 + sha512_sigma0 w14);
         (g, c) = sha512_Round d e f g h a b c 0x597f299cfc657e2a w13;
         (f, b) = sha512_Round c d e f g h a b 0x5fcb6fab3ad6faec (w14 + sha512_sigma1 w12 + w7 + sha512_sigma0 w15);
         (e, a) = sha512_Round b c d e f g h a 0x6c44198c4a475817 (w15 + sha512_sigma1 w13 + w8 + sha512_sigma0 w0)
     in (a, b, c, d, e, f, g, h))"

definition sha512_Transform :: "u64 list \<Rightarrow> bytes \<Rightarrow> u64 list" where
  "sha512_Transform s chunk =
     (let (st, ws) = sha512_rounds0 (s ! 0, s ! 1, s ! 2, s ! 3, s ! 4, s ! 5, s ! 6, s ! 7) chunk;
          (st, ws) = sha512_rounds1 st ws;
          (st, ws) = sha512_rounds2 st ws;
          (st, ws) = sha512_rounds3 st ws;
          (a, b, c, d, e, f, g, h) = sha512_rounds4 st ws
      in [s ! 0 + a, s ! 1 + b, s ! 2 + c, s ! 3 + d, s ! 4 + e, s ! 5 + f, s ! 6 + g, s ! 7 + h])"

section \<open>The hasher class\<close>

type_synonym CSHA512 = "u64 list hasher"

definition CSHA512_new :: "bytes \<Rightarrow> CSHA512" where
  "CSHA512_new buf = \<lparr> hs_s = sha512_Initialize, hs_buf = buf, hs_bytes = 0 \<rparr>"

definition CSHA512_Write :: "CSHA512 \<Rightarrow> bytes \<Rightarrow> CSHA512" where
  "CSHA512_Write = hasher_write 128 sha512_Transform"

definition CSHA512_Finalize :: "CSHA512 \<Rightarrow> bytes" where
  "CSHA512_Finalize h =
     (let sizedesc = replicate 8 0 @ be_bytes 8 (push_bit 3 (hs_bytes h));
          h1 = CSHA512_Write h (hash_pad (1 + ((239 - unat (hs_bytes h) mod 128) mod 128)));
          h2 = CSHA512_Write h1 sizedesc
      in concat (map (be_bytes 8) (hs_s h2)))"

definition CSHA512_Reset :: "CSHA512 \<Rightarrow> CSHA512" where
  "CSHA512_Reset h = h\<lparr> hs_bytes := 0, hs_s := sha512_Initialize \<rparr>"

section \<open>The standard's definition\<close>

definition fips512_K :: "u64 list" where
  "fips512_K =
     [4794697086780616226, 8158064640168781261, 13096744586834688815, 16840607885511220156,
      4131703408338449720, 6480981068601479193, 10538285296894168987, 12329834152419229976,
      15566598209576043074, 1334009975649890238, 2608012711638119052, 6128411473006802146,
      8268148722764581231, 9286055187155687089, 11230858885718282805, 13951009754708518548,
      16472876342353939154, 17275323862435702243, 1135362057144423861, 2597628984639134821,
      3308224258029322869, 5365058923640841347, 6679025012923562964, 8573033837759648693,
      10970295158949994411, 12119686244451234320, 12683024718118986047, 13788192230050041572,
      14330467153632333762, 15395433587784984357, 489312712824947311, 1452737877330783856,
      2861767655752347644, 3322285676063803686, 5560940570517711597, 5996557281743188959,
      7280758554555802590, 8532644243296465576, 9350256976987008742, 10552545826968843579,
      11727347734174303076, 12113106623233404929, 14000437183269869457, 14369950271660146224,
      15101387698204529176, 15463397548674623760, 17586052441742319658, 1182934255886127544,
      1847814050463011016, 2177327727835720531, 2830643537854262169, 3796741975233480872,
      4115178125766777443, 5681478168544905931, 6601373596472566643, 7507060721942968483,
      8399075790359081724, 8693463985226723168, 9568029438360202098, 10144078919501101548,
      10430055236837252648, 11840083180663258601, 13761210420658862357, 14299343276471374635,
      14566680578165727644, 15097957966210449927, 16922976911328602910, 17689382322260857208,
      500013540394364858, 748580250866718886, 1242879168328830382, 1977374033974150939,
      2944078676154940804, 3659926193048069267, 4368137639120453308, 4836135668995329356,
      5532061633213252278, 6448918945643986474, 6902733635092675308, 7801388544844847127]"

definition fips512_Ch :: "u64 \<Rightarrow> u64 \<Rightarrow> u64 \<Rightarrow> u64" where
  "fips512_Ch x y z = (x AND y) XOR (NOT x AND z)"

definition fips512_Maj :: "u64 \<Rightarrow> u64 \<Rightarrow> u64 \<Rightarrow> u64" where
  "fips512_Maj x y z = (x AND y) XOR (x AND z) XOR (y AND z)"

definition fips512_Sigma :: "nat \<Rightarrow> nat \<Rightarrow> nat \<Rightarrow> u64 \<Rightarrow> u64" where
  "fips512_Sigma i j k x = word_rotr i x XOR word_rotr j x XOR word_rotr k x"

definition fips512_sigma :: "nat \<Rightarrow> nat \<Rightarrow> nat \<Rightarrow> u64 \<Rightarrow> u64" where
  "fips512_sigma i j k x = word_rotr i x XOR word_rotr j x XOR drop_bit k x"

fun fips512_W :: "bytes \<Rightarrow> nat \<Rightarrow> u64" where
  "fips512_W chunk t =
     (if t < 16 then be_word (take 8 (drop (8 * t) chunk))
      else fips512_sigma 19 61 6 (fips512_W chunk (t - 2)) + fips512_W chunk (t - 7) +
           fips512_sigma 1 8 7 (fips512_W chunk (t - 15)) + fips512_W chunk (t - 16))"

declare fips512_W.simps [simp del]

definition fips512_round :: "u64x8 \<Rightarrow> u64 \<Rightarrow> u64 \<Rightarrow> u64x8" where
  "fips512_round = (\<lambda>(a, b, c, d, e, f, g, h) k w.
     let t1 = h + fips512_Sigma 14 18 41 e + fips512_Ch e f g + k + w;
         t2 = fips512_Sigma 28 34 39 a + fips512_Maj a b c
     in (t1 + t2, a, b, c, d + t1, e, f, g))"

definition fips512_rounds :: "bytes \<Rightarrow> nat list \<Rightarrow> u64x8 \<Rightarrow> u64x8" where
  "fips512_rounds chunk ts st =
     foldl (\<lambda>st t. fips512_round st (fips512_K ! t) (fips512_W chunk t)) st ts"

definition fips512_compress :: "u64 list \<Rightarrow> bytes \<Rightarrow> u64 list" where
  "fips512_compress s chunk =
     (case fips512_rounds chunk [0..<80] (s ! 0, s ! 1, s ! 2, s ! 3, s ! 4, s ! 5, s ! 6, s ! 7) of
        (a, b, c, d, e, f, g, h) \<Rightarrow>
          [s ! 0 + a, s ! 1 + b, s ! 2 + c, s ! 3 + d, s ! 4 + e, s ! 5 + f, s ! 6 + g, s ! 7 + h])"

definition fips512_padding :: "nat \<Rightarrow> bytes" where
  "fips512_padding len = 0x80 # replicate ((239 - len mod 128) mod 128) 0 @ replicate 8 0 @
     be_bytes 8 (of_nat (8 * len) :: u64)"

definition fips_sha512 :: "bytes \<Rightarrow> bytes" where
  "fips_sha512 msg =
     concat (map (be_bytes 8)
       (compress_blocks 128 fips512_compress sha512_Initialize (msg @ fips512_padding (length msg))))"

section \<open>The unrolled rounds are the standard's\<close>

lemma Ch512_eq: "sha512_Ch x y z = fips512_Ch x y z"
  by (rule bit_word_eqI) (auto simp: sha512_Ch_def fips512_Ch_def bit_simps)

lemma Maj512_eq: "sha512_Maj x y z = fips512_Maj x y z"
  by (rule bit_word_eqI) (auto simp: sha512_Maj_def fips512_Maj_def bit_simps)

lemma rotr64_eq:
  assumes "0 < k" "k < 64"
  shows "drop_bit k x OR push_bit (64 - k) x = word_rotr k (x :: u64)"
  using rotr_shift_eq [of k x] assms by simp

lemma sha512_sigma_eq:
  "sha512_Sigma0 x = fips512_Sigma 28 34 39 x" "sha512_Sigma1 x = fips512_Sigma 14 18 41 x"
  "sha512_sigma0 x = fips512_sigma 1 8 7 x" "sha512_sigma1 x = fips512_sigma 19 61 6 x"
  using rotr64_eq [of 28 x] rotr64_eq [of 34 x] rotr64_eq [of 39 x] rotr64_eq [of 14 x]
    rotr64_eq [of 18 x] rotr64_eq [of 41 x] rotr64_eq [of 1 x] rotr64_eq [of 8 x]
    rotr64_eq [of 19 x] rotr64_eq [of 61 x]
  by (simp_all add: sha512_Sigma0_def sha512_Sigma1_def sha512_sigma0_def sha512_sigma1_def
      fips512_Sigma_def fips512_sigma_def)

lemma fips512_round_eq:
  "fips512_round (a, b, c, d, e, f, g, h) k w =
     (case sha512_Round a b c d e f g h k w of (d', h') \<Rightarrow> (h', a, b, c, d', e, f, g))"
  by (simp add: fips512_round_def sha512_Round_def Let_def sha512_sigma_eq Ch512_eq Maj512_eq)

lemma schedule512:
  "fips512_W chunk t + (sha512_sigma1 (fips512_W chunk (t + 14)) + fips512_W chunk (t + 9) +
     sha512_sigma0 (fips512_W chunk (t + 1))) = fips512_W chunk (t + 16)"
  by (subst (5) fips512_W.simps) (simp add: sha512_sigma_eq ac_simps)

lemma schedule512_start:
  "fips512_W chunk 0 + (sha512_sigma1 (fips512_W chunk 14) + fips512_W chunk 9 +
     sha512_sigma0 (fips512_W chunk 1)) = fips512_W chunk 16"
  "fips512_W chunk 1 + (sha512_sigma1 (fips512_W chunk 15) + fips512_W chunk 10 +
     sha512_sigma0 (fips512_W chunk 2)) = fips512_W chunk 17"
  using schedule512 [of chunk 0] schedule512 [of chunk 1] by (simp_all add: numeral_2_eq_2)

lemma schedule512_end:
  "fips512_W chunk 62 + sha512_sigma1 (fips512_W chunk 76) + fips512_W chunk 71 +
     sha512_sigma0 (fips512_W chunk 63) = fips512_W chunk 78"
  "fips512_W chunk 63 + sha512_sigma1 (fips512_W chunk 77) + fips512_W chunk 72 +
     sha512_sigma0 (fips512_W chunk 64) = fips512_W chunk 79"
  using schedule512 [of chunk 62] schedule512 [of chunk 63] by (simp_all add: add.assoc)

lemmas schedule512_1 = schedule512_start
  schedule512 [of chunk 2, simplified] schedule512 [of chunk 3, simplified] schedule512 [of chunk 4, simplified]
  schedule512 [of chunk 5, simplified] schedule512 [of chunk 6, simplified] schedule512 [of chunk 7, simplified]
  schedule512 [of chunk 8, simplified] schedule512 [of chunk 9, simplified] schedule512 [of chunk 10, simplified]
  schedule512 [of chunk 11, simplified] schedule512 [of chunk 12, simplified] schedule512 [of chunk 13, simplified]
  schedule512 [of chunk 14, simplified] schedule512 [of chunk 15, simplified] for chunk

lemmas schedule512_2 =
  schedule512 [of chunk 16, simplified] schedule512 [of chunk 17, simplified] schedule512 [of chunk 18, simplified]
  schedule512 [of chunk 19, simplified] schedule512 [of chunk 20, simplified] schedule512 [of chunk 21, simplified]
  schedule512 [of chunk 22, simplified] schedule512 [of chunk 23, simplified] schedule512 [of chunk 24, simplified]
  schedule512 [of chunk 25, simplified] schedule512 [of chunk 26, simplified] schedule512 [of chunk 27, simplified]
  schedule512 [of chunk 28, simplified] schedule512 [of chunk 29, simplified] schedule512 [of chunk 30, simplified]
  schedule512 [of chunk 31, simplified] for chunk

lemmas schedule512_3 =
  schedule512 [of chunk 32, simplified] schedule512 [of chunk 33, simplified] schedule512 [of chunk 34, simplified]
  schedule512 [of chunk 35, simplified] schedule512 [of chunk 36, simplified] schedule512 [of chunk 37, simplified]
  schedule512 [of chunk 38, simplified] schedule512 [of chunk 39, simplified] schedule512 [of chunk 40, simplified]
  schedule512 [of chunk 41, simplified] schedule512 [of chunk 42, simplified] schedule512 [of chunk 43, simplified]
  schedule512 [of chunk 44, simplified] schedule512 [of chunk 45, simplified] schedule512 [of chunk 46, simplified]
  schedule512 [of chunk 47, simplified] for chunk

lemmas schedule512_4 = schedule512_end
  schedule512 [of chunk 48, simplified] schedule512 [of chunk 49, simplified] schedule512 [of chunk 50, simplified]
  schedule512 [of chunk 51, simplified] schedule512 [of chunk 52, simplified] schedule512 [of chunk 53, simplified]
  schedule512 [of chunk 54, simplified] schedule512 [of chunk 55, simplified] schedule512 [of chunk 56, simplified]
  schedule512 [of chunk 57, simplified] schedule512 [of chunk 58, simplified] schedule512 [of chunk 59, simplified]
  schedule512 [of chunk 60, simplified] schedule512 [of chunk 61, simplified] schedule512 [of chunk 62, simplified]
  schedule512 [of chunk 63, simplified] for chunk

lemma fips512_rounds_Cons:
  "fips512_rounds chunk (t # ts) st =
     fips512_rounds chunk ts (fips512_round st (fips512_K ! t) (fips512_W chunk t))"
  "fips512_rounds chunk [] st = st"
  by (simp_all add: fips512_rounds_def)

lemma prod_cases8_u64:
  obtains a b c d e f g h where "(st :: u64x8) = (a, b, c, d, e, f, g, h)"
  by (cases st) auto

lemma fips512_W_start:
  "ReadBE64 chunk 0 = fips512_W chunk 0"
  "ReadBE64 chunk 8 = fips512_W chunk 1"
  "ReadBE64 chunk 16 = fips512_W chunk 2"
  "ReadBE64 chunk 24 = fips512_W chunk 3"
  "ReadBE64 chunk 32 = fips512_W chunk 4"
  "ReadBE64 chunk 40 = fips512_W chunk 5"
  "ReadBE64 chunk 48 = fips512_W chunk 6"
  "ReadBE64 chunk 56 = fips512_W chunk 7"
  "ReadBE64 chunk 64 = fips512_W chunk 8"
  "ReadBE64 chunk 72 = fips512_W chunk 9"
  "ReadBE64 chunk 80 = fips512_W chunk 10"
  "ReadBE64 chunk 88 = fips512_W chunk 11"
  "ReadBE64 chunk 96 = fips512_W chunk 12"
  "ReadBE64 chunk 104 = fips512_W chunk 13"
  "ReadBE64 chunk 112 = fips512_W chunk 14"
  "ReadBE64 chunk 120 = fips512_W chunk 15"
  by (simp_all add: ReadBE64_def fips512_W.simps)

lemma sha512_rounds0_eq:
  "sha512_rounds0 st chunk =
     (fips512_rounds chunk [0, 1, 2, 3, 4, 5, 6, 7, 8, 9, 10, 11, 12, 13, 14, 15] st,
     (fips512_W chunk 0, fips512_W chunk 1, fips512_W chunk 2, fips512_W chunk 3,
     fips512_W chunk 4, fips512_W chunk 5, fips512_W chunk 6, fips512_W chunk 7,
     fips512_W chunk 8, fips512_W chunk 9, fips512_W chunk 10, fips512_W chunk 11,
     fips512_W chunk 12, fips512_W chunk 13, fips512_W chunk 14, fips512_W chunk 15))"
proof -
  obtain a b c d e f g h where st: "st = (a, b, c, d, e, f, g, h)" by (rule prod_cases8_u64)
  show ?thesis
    unfolding st sha512_rounds0_def fips512_rounds_Cons
    by (simp only: prod.case Let_def fips512_W_start)
       (simp add: fips512_round_eq fips512_K_def split: prod.split)
qed

lemma sha512_rounds1_eq:
  "sha512_rounds1 st (fips512_W chunk 0, fips512_W chunk 1, fips512_W chunk 2, fips512_W chunk 3,
     fips512_W chunk 4, fips512_W chunk 5, fips512_W chunk 6, fips512_W chunk 7,
     fips512_W chunk 8, fips512_W chunk 9, fips512_W chunk 10, fips512_W chunk 11,
     fips512_W chunk 12, fips512_W chunk 13, fips512_W chunk 14, fips512_W chunk 15) =
     (fips512_rounds chunk [16, 17, 18, 19, 20, 21, 22, 23, 24, 25, 26, 27, 28, 29, 30, 31] st,
     (fips512_W chunk 16, fips512_W chunk 17, fips512_W chunk 18, fips512_W chunk 19,
     fips512_W chunk 20, fips512_W chunk 21, fips512_W chunk 22, fips512_W chunk 23,
     fips512_W chunk 24, fips512_W chunk 25, fips512_W chunk 26, fips512_W chunk 27,
     fips512_W chunk 28, fips512_W chunk 29, fips512_W chunk 30, fips512_W chunk 31))"
proof -
  obtain a b c d e f g h where st: "st = (a, b, c, d, e, f, g, h)" by (rule prod_cases8_u64)
  show ?thesis
    unfolding st sha512_rounds1_def fips512_rounds_Cons
    by (simp only: prod.case Let_def schedule512_1)
       (simp add: fips512_round_eq fips512_K_def split: prod.split)
qed

lemma sha512_rounds2_eq:
  "sha512_rounds2 st (fips512_W chunk 16, fips512_W chunk 17, fips512_W chunk 18, fips512_W chunk 19,
     fips512_W chunk 20, fips512_W chunk 21, fips512_W chunk 22, fips512_W chunk 23,
     fips512_W chunk 24, fips512_W chunk 25, fips512_W chunk 26, fips512_W chunk 27,
     fips512_W chunk 28, fips512_W chunk 29, fips512_W chunk 30, fips512_W chunk 31) =
     (fips512_rounds chunk [32, 33, 34, 35, 36, 37, 38, 39, 40, 41, 42, 43, 44, 45, 46, 47] st,
     (fips512_W chunk 32, fips512_W chunk 33, fips512_W chunk 34, fips512_W chunk 35,
     fips512_W chunk 36, fips512_W chunk 37, fips512_W chunk 38, fips512_W chunk 39,
     fips512_W chunk 40, fips512_W chunk 41, fips512_W chunk 42, fips512_W chunk 43,
     fips512_W chunk 44, fips512_W chunk 45, fips512_W chunk 46, fips512_W chunk 47))"
proof -
  obtain a b c d e f g h where st: "st = (a, b, c, d, e, f, g, h)" by (rule prod_cases8_u64)
  show ?thesis
    unfolding st sha512_rounds2_def fips512_rounds_Cons
    by (simp only: prod.case Let_def schedule512_2)
       (simp add: fips512_round_eq fips512_K_def split: prod.split)
qed

lemma sha512_rounds3_eq:
  "sha512_rounds3 st (fips512_W chunk 32, fips512_W chunk 33, fips512_W chunk 34, fips512_W chunk 35,
     fips512_W chunk 36, fips512_W chunk 37, fips512_W chunk 38, fips512_W chunk 39,
     fips512_W chunk 40, fips512_W chunk 41, fips512_W chunk 42, fips512_W chunk 43,
     fips512_W chunk 44, fips512_W chunk 45, fips512_W chunk 46, fips512_W chunk 47) =
     (fips512_rounds chunk [48, 49, 50, 51, 52, 53, 54, 55, 56, 57, 58, 59, 60, 61, 62, 63] st,
     (fips512_W chunk 48, fips512_W chunk 49, fips512_W chunk 50, fips512_W chunk 51,
     fips512_W chunk 52, fips512_W chunk 53, fips512_W chunk 54, fips512_W chunk 55,
     fips512_W chunk 56, fips512_W chunk 57, fips512_W chunk 58, fips512_W chunk 59,
     fips512_W chunk 60, fips512_W chunk 61, fips512_W chunk 62, fips512_W chunk 63))"
proof -
  obtain a b c d e f g h where st: "st = (a, b, c, d, e, f, g, h)" by (rule prod_cases8_u64)
  show ?thesis
    unfolding st sha512_rounds3_def fips512_rounds_Cons
    by (simp only: prod.case Let_def schedule512_3)
       (simp add: fips512_round_eq fips512_K_def split: prod.split)
qed

lemma sha512_rounds4_eq:
  "sha512_rounds4 st (fips512_W chunk 48, fips512_W chunk 49, fips512_W chunk 50, fips512_W chunk 51,
     fips512_W chunk 52, fips512_W chunk 53, fips512_W chunk 54, fips512_W chunk 55,
     fips512_W chunk 56, fips512_W chunk 57, fips512_W chunk 58, fips512_W chunk 59,
     fips512_W chunk 60, fips512_W chunk 61, fips512_W chunk 62, fips512_W chunk 63) =
     fips512_rounds chunk [64, 65, 66, 67, 68, 69, 70, 71, 72, 73, 74, 75, 76, 77, 78, 79] st"
proof -
  obtain a b c d e f g h where st: "st = (a, b, c, d, e, f, g, h)" by (rule prod_cases8_u64)
  show ?thesis
    unfolding st sha512_rounds4_def fips512_rounds_Cons
    by (simp only: prod.case Let_def schedule512_4)
       (simp add: fips512_round_eq fips512_K_def split: prod.split)
qed

lemma fips512_rounds_append:
  "fips512_rounds chunk (ts @ us) st = fips512_rounds chunk us (fips512_rounds chunk ts st)"
  by (simp add: fips512_rounds_def)

lemma sha512_Transform_eq: "sha512_Transform s chunk = fips512_compress s chunk"
proof -
  have "[0..<80] = [0, 1, 2, 3, 4, 5, 6, 7, 8, 9, 10, 11, 12, 13, 14, 15] @
      [16, 17, 18, 19, 20, 21, 22, 23, 24, 25, 26, 27, 28, 29, 30, 31] @
      [32, 33, 34, 35, 36, 37, 38, 39, 40, 41, 42, 43, 44, 45, 46, 47] @
      [48, 49, 50, 51, 52, 53, 54, 55, 56, 57, 58, 59, 60, 61, 62, 63] @
      [64, 65, 66, 67, 68, 69, 70, 71, 72, 73, 74, 75, 76, 77, 78, 79]"
    by code_simp
  then show ?thesis
    by (simp only: sha512_Transform_def fips512_compress_def sha512_rounds0_eq sha512_rounds1_eq
        sha512_rounds2_eq sha512_rounds3_eq sha512_rounds4_eq fips512_rounds_append Let_def prod.case)
qed

interpretation sha512_hasher: block_hasher 128 sha512_Transform sha512_Initialize CSHA512_Write
  by unfold_locales (simp_all add: CSHA512_Write_def hasher_write_absorbed)

lemma CSHA512_Finalize_absorbed:
  assumes "absorbed 128 sha512_Transform sha512_Initialize h msg"
  shows "CSHA512_Finalize h = fips_sha512 msg"
proof -
  have b: "unat (hs_bytes h) mod 128 = length msg mod 128"
    by (rule bufsize_eq [OF assms]) simp
  have bytes: "hs_bytes h = of_nat (length msg)" using assms by (simp add: absorbed_def)
  have pad: "hash_pad (1 + ((239 - unat (hs_bytes h) mod 128) mod 128)) @
      replicate 8 0 @ be_bytes 8 (push_bit 3 (hs_bytes h)) = fips512_padding (length msg)"
    unfolding b unfolding bytes by (simp add: hash_pad_def fips512_padding_def bytes_to_bits)
  have "sha512_Transform = fips512_compress" by (intro ext) (rule sha512_Transform_eq)
  with sha512_hasher.finish [OF assms, of "hash_pad (1 + ((239 - unat (hs_bytes h) mod 128) mod 128))"
      "replicate 8 0 @ be_bytes 8 (push_bit 3 (hs_bytes h))", unfolded pad]
  show ?thesis by (simp add: CSHA512_Finalize_def fips_sha512_def Let_def)
qed

text \<open>
  However a message is cut into pieces, and whatever the buffer of a new hasher contains, the
  SHA-512 digest is the one the standard defines for the whole message.
\<close>

theorem CSHA512_digest:
  assumes "length buf = 128"
  shows "CSHA512_Finalize (foldl CSHA512_Write (CSHA512_new buf) dats) = fips_sha512 (concat dats)"
  unfolding CSHA512_new_def
  using sha512_hasher.writes_absorbed [OF sha512_hasher.new_absorbed [OF assms], of dats]
  by (simp add: CSHA512_Finalize_absorbed)

theorem CSHA512_digest_witness:
  "CSHA512_Finalize (CSHA512_Write (CSHA512_Write (CSHA512_new (replicate 128 0)) [1]) [2, 3])
     = fips_sha512 [1, 2, 3]"
  using CSHA512_digest [of "replicate 128 0" "[[1], [2, 3]]"] by simp

end
