(* ===== verification/Ripemd160.thy ===== *)
theory Ripemd160
  imports Hasher
begin

text \<open>
  \<open>crypto/ripemd160.cpp\<close>: the unrolled RIPEMD-160 compression function and its hasher class, with
  the rolled definition (two lines of five rounds whose word order is given by the permutations
  \<open>\<rho>\<close> and \<open>\<pi>\<close>) it is proved equal to.
\<close>

section \<open>The compression function\<close>

type_synonym u32x10 = "u32 \<times> u32 \<times> u32 \<times> u32 \<times> u32 \<times> u32 \<times> u32 \<times> u32 \<times> u32 \<times> u32"
type_synonym u32_5 = "u32 \<times> u32 \<times> u32 \<times> u32 \<times> u32"
type_synonym u32_16 = "u32 \<times> u32 \<times> u32 \<times> u32 \<times> u32 \<times> u32 \<times> u32 \<times> u32 \<times>
  u32 \<times> u32 \<times> u32 \<times> u32 \<times> u32 \<times> u32 \<times> u32 \<times> u32"

definition ripemd160_f1 :: "u32 \<Rightarrow> u32 \<Rightarrow> u32 \<Rightarrow> u32" where
  "ripemd160_f1 x y z = x XOR y XOR z"

definition ripemd160_f2 :: "u32 \<Rightarrow> u32 \<Rightarrow> u32 \<Rightarrow> u32" where
  "ripemd160_f2 x y z = (x AND y) OR (NOT x AND z)"

definition ripemd160_f3 :: "u32 \<Rightarrow> u32 \<Rightarrow> u32 \<Rightarrow> u32" where
  "ripemd160_f3 x y z = (x OR NOT y) XOR z"

definition ripemd160_f4 :: "u32 \<Rightarrow> u32 \<Rightarrow> u32 \<Rightarrow> u32" where
  "ripemd160_f4 x y z = (x AND z) OR (y AND NOT z)"

definition ripemd160_f5 :: "u32 \<Rightarrow> u32 \<Rightarrow> u32 \<Rightarrow> u32" where
  "ripemd160_f5 x y z = x XOR (y OR NOT z)"

definition ripemd160_Initialize :: "u32 list" where
  "ripemd160_Initialize = [0x67452301, 0xEFCDAB89, 0x98BADCFE, 0x10325476, 0xC3D2E1F0]"

definition ripemd160_rol :: "u32 \<Rightarrow> nat \<Rightarrow> u32" where
  "ripemd160_rol x i = push_bit i x OR drop_bit (32 - i) x"

text \<open>One round; the result is the new \<open>a\<close> and \<open>c\<close>, which the code passes by reference.\<close>

definition ripemd160_Round ::
    "u32 \<Rightarrow> u32 \<Rightarrow> u32 \<Rightarrow> u32 \<Rightarrow> u32 \<Rightarrow> u32 \<Rightarrow> u32 \<Rightarrow> u32 \<Rightarrow> nat \<Rightarrow> u32 \<times> u32" where
  "ripemd160_Round a b c d e f x k r = (ripemd160_rol (a + f + x + k) r + e, ripemd160_rol c 10)"

definition ripemd160_R11 :: "u32 \<Rightarrow> u32 \<Rightarrow> u32 \<Rightarrow> u32 \<Rightarrow> u32 \<Rightarrow> u32 \<Rightarrow> nat \<Rightarrow> u32 \<times> u32" where
  "ripemd160_R11 a b c d e x r =
     ripemd160_Round a b c d e (ripemd160_f1 b c d) x 0 r"

definition ripemd160_R21 :: "u32 \<Rightarrow> u32 \<Rightarrow> u32 \<Rightarrow> u32 \<Rightarrow> u32 \<Rightarrow> u32 \<Rightarrow> nat \<Rightarrow> u32 \<times> u32" where
  "ripemd160_R21 a b c d e x r =
     ripemd160_Round a b c d e (ripemd160_f2 b c d) x 0x5A827999 r"

definition ripemd160_R31 :: "u32 \<Rightarrow> u32 \<Rightarrow> u32 \<Rightarrow> u32 \<Rightarrow> u32 \<Rightarrow> u32 \<Rightarrow> nat \<Rightarrow> u32 \<times> u32" where
  "ripemd160_R31 a b c d e x r =
     ripemd160_Round a b c d e (ripemd160_f3 b c d) x 0x6ED9EBA1 r"

definition ripemd160_R41 :: "u32 \<Rightarrow> u32 \<Rightarrow> u32 \<Rightarrow> u32 \<Rightarrow> u32 \<Rightarrow> u32 \<Rightarrow> nat \<Rightarrow> u32 \<times> u32" where
  "ripemd160_R41 a b c d e x r =
     ripemd160_Round a b c d e (ripemd160_f4 b c d) x 0x8F1BBCDC r"

definition ripemd160_R51 :: "u32 \<Rightarrow> u32 \<Rightarrow> u32 \<Rightarrow> u32 \<Rightarrow> u32 \<Rightarrow> u32 \<Rightarrow> nat \<Rightarrow> u32 \<times> u32" where
  "ripemd160_R51 a b c d e x r =
     ripemd160_Round a b c d e (ripemd160_f5 b c d) x 0xA953FD4E r"

definition ripemd160_R12 :: "u32 \<Rightarrow> u32 \<Rightarrow> u32 \<Rightarrow> u32 \<Rightarrow> u32 \<Rightarrow> u32 \<Rightarrow> nat \<Rightarrow> u32 \<times> u32" where
  "ripemd160_R12 a b c d e x r =
     ripemd160_Round a b c d e (ripemd160_f5 b c d) x 0x50A28BE6 r"

definition ripemd160_R22 :: "u32 \<Rightarrow> u32 \<Rightarrow> u32 \<Rightarrow> u32 \<Rightarrow> u32 \<Rightarrow> u32 \<Rightarrow> nat \<Rightarrow> u32 \<times> u32" where
  "ripemd160_R22 a b c d e x r =
     ripemd160_Round a b c d e (ripemd160_f4 b c d) x 0x5C4DD124 r"

definition ripemd160_R32 :: "u32 \<Rightarrow> u32 \<Rightarrow> u32 \<Rightarrow> u32 \<Rightarrow> u32 \<Rightarrow> u32 \<Rightarrow> nat \<Rightarrow> u32 \<times> u32" where
  "ripemd160_R32 a b c d e x r =
     ripemd160_Round a b c d e (ripemd160_f3 b c d) x 0x6D703EF3 r"

definition ripemd160_R42 :: "u32 \<Rightarrow> u32 \<Rightarrow> u32 \<Rightarrow> u32 \<Rightarrow> u32 \<Rightarrow> u32 \<Rightarrow> nat \<Rightarrow> u32 \<times> u32" where
  "ripemd160_R42 a b c d e x r =
     ripemd160_Round a b c d e (ripemd160_f2 b c d) x 0x7A6D76E9 r"

definition ripemd160_R52 :: "u32 \<Rightarrow> u32 \<Rightarrow> u32 \<Rightarrow> u32 \<Rightarrow> u32 \<Rightarrow> u32 \<Rightarrow> nat \<Rightarrow> u32 \<times> u32" where
  "ripemd160_R52 a b c d e x r =
     ripemd160_Round a b c d e (ripemd160_f1 b c d) x 0 r"

text \<open>The five groups of sixteen rounds, both lines interleaved.\<close>

definition ripemd160_rounds1 :: "u32x10 \<Rightarrow> u32_16 \<Rightarrow> u32x10" where
  "ripemd160_rounds1 = (\<lambda>(a1, b1, c1, d1, e1, a2, b2, c2, d2, e2)
     (w0, w1, w2, w3, w4, w5, w6, w7, w8, w9, w10, w11, w12, w13, w14, w15).
     let (a1, c1) = ripemd160_R11 a1 b1 c1 d1 e1 w0 11;
         (a2, c2) = ripemd160_R12 a2 b2 c2 d2 e2 w5 8;
         (e1, b1) = ripemd160_R11 e1 a1 b1 c1 d1 w1 14;
         (e2, b2) = ripemd160_R12 e2 a2 b2 c2 d2 w14 9;
         (d1, a1) = ripemd160_R11 d1 e1 a1 b1 c1 w2 15;
         (d2, a2) = ripemd160_R12 d2 e2 a2 b2 c2 w7 9;
         (c1, e1) = ripemd160_R11 c1 d1 e1 a1 b1 w3 12;
         (c2, e2) = ripemd160_R12 c2 d2 e2 a2 b2 w0 11;
         (b1, d1) = ripemd160_R11 b1 c1 d1 e1 a1 w4 5;
         (b2, d2) = ripemd160_R12 b2 c2 d2 e2 a2 w9 13;
         (a1, c1) = ripemd160_R11 a1 b1 c1 d1 e1 w5 8;
         (a2, c2) = ripemd160_R12 a2 b2 c2 d2 e2 w2 15;
         (e1, b1) = ripemd160_R11 e1 a1 b1 c1 d1 w6 7;
         (e2, b2) = ripemd160_R12 e2 a2 b2 c2 d2 w11 15;
         (d1, a1) = ripemd160_R11 d1 e1 a1 b1 c1 w7 9;
         (d2, a2) = ripemd160_R12 d2 e2 a2 b2 c2 w4 5;
         (c1, e1) = ripemd160_R11 c1 d1 e1 a1 b1 w8 11;
         (c2, e2) = ripemd160_R12 c2 d2 e2 a2 b2 w13 7;
         (b1, d1) = ripemd160_R11 b1 c1 d1 e1 a1 w9 13;
         (b2, d2) = ripemd160_R12 b2 c2 d2 e2 a2 w6 7;
         (a1, c1) = ripemd160_R11 a1 b1 c1 d1 e1 w10 14;
         (a2, c2) = ripemd160_R12 a2 b2 c2 d2 e2 w15 8;
         (e1, b1) = ripemd160_R11 e1 a1 b1 c1 d1 w11 15;
         (e2, b2) = ripemd160_R12 e2 a2 b2 c2 d2 w8 11;
         (d1, a1) = ripemd160_R11 d1 e1 a1 b1 c1 w12 6;
         (d2, a2) = ripemd160_R12 d2 e2 a2 b2 c2 w1 14;
         (c1, e1) = ripemd160_R11 c1 d1 e1 a1 b1 w13 7;
         (c2, e2) = ripemd160_R12 c2 d2 e2 a2 b2 w10 14;
         (b1, d1) = ripemd160_R11 b1 c1 d1 e1 a1 w14 9;
         (b2, d2) = ripemd160_R12 b2 c2 d2 e2 a2 w3 12;
         (a1, c1) = ripemd160_R11 a1 b1 c1 d1 e1 w15 8;
         (a2, c2) = ripemd160_R12 a2 b2 c2 d2 e2 w12 6
     in (a1, b1, c1, d1, e1, a2, b2, c2, d2, e2))"

definition ripemd160_rounds2 :: "u32x10 \<Rightarrow> u32_16 \<Rightarrow> u32x10" where
  "ripemd160_rounds2 = (\<lambda>(a1, b1, c1, d1, e1, a2, b2, c2, d2, e2)
     (w0, w1, w2, w3, w4, w5, w6, w7, w8, w9, w10, w11, w12, w13, w14, w15).
     let (e1, b1) = ripemd160_R21 e1 a1 b1 c1 d1 w7 7;
         (e2, b2) = ripemd160_R22 e2 a2 b2 c2 d2 w6 9;
         (d1, a1) = ripemd160_R21 d1 e1 a1 b1 c1 w4 6;
         (d2, a2) = ripemd160_R22 d2 e2 a2 b2 c2 w11 13;
         (c1, e1) = ripemd160_R21 c1 d1 e1 a1 b1 w13 8;
         (c2, e2) = ripemd160_R22 c2 d2 e2 a2 b2 w3 15;
         (b1, d1) = ripemd160_R21 b1 c1 d1 e1 a1 w1 13;
         (b2, d2) = ripemd160_R22 b2 c2 d2 e2 a2 w7 7;
         (a1, c1) = ripemd160_R21 a1 b1 c1 d1 e1 w10 11;
         (a2, c2) = ripemd160_R22 a2 b2 c2 d2 e2 w0 12;
         (e1, b1) = ripemd160_R21 e1 a1 b1 c1 d1 w6 9;
         (e2, b2) = ripemd160_R22 e2 a2 b2 c2 d2 w13 8;
         (d1, a1) = ripemd160_R21 d1 e1 a1 b1 c1 w15 7;
         (d2, a2) = ripemd160_R22 d2 e2 a2 b2 c2 w5 9;
         (c1, e1) = ripemd160_R21 c1 d1 e1 a1 b1 w3 15;
         (c2, e2) = ripemd160_R22 c2 d2 e2 a2 b2 w10 11;
         (b1, d1) = ripemd160_R21 b1 c1 d1 e1 a1 w12 7;
         (b2, d2) = ripemd160_R22 b2 c2 d2 e2 a2 w14 7;
         (a1, c1) = ripemd160_R21 a1 b1 c1 d1 e1 w0 12;
         (a2, c2) = ripemd160_R22 a2 b2 c2 d2 e2 w15 7;
         (e1, b1) = ripemd160_R21 e1 a1 b1 c1 d1 w9 15;
         (e2, b2) = ripemd160_R22 e2 a2 b2 c2 d2 w8 12;
         (d1, a1) = ripemd160_R21 d1 e1 a1 b1 c1 w5 9;
         (d2, a2) = ripemd160_R22 d2 e2 a2 b2 c2 w12 7;
         (c1, e1) = ripemd160_R21 c1 d1 e1 a1 b1 w2 11;
         (c2, e2) = ripemd160_R22 c2 d2 e2 a2 b2 w4 6;
         (b1, d1) = ripemd160_R21 b1 c1 d1 e1 a1 w14 7;
         (b2, d2) = ripemd160_R22 b2 c2 d2 e2 a2 w9 15;
         (a1, c1) = ripemd160_R21 a1 b1 c1 d1 e1 w11 13;
         (a2, c2) = ripemd160_R22 a2 b2 c2 d2 e2 w1 13;
         (e1, b1) = ripemd160_R21 e1 a1 b1 c1 d1 w8 12;
         (e2, b2) = ripemd160_R22 e2 a2 b2 c2 d2 w2 11
     in (a1, b1, c1, d1, e1, a2, b2, c2, d2, e2))"

definition ripemd160_rounds3 :: "u32x10 \<Rightarrow> u32_16 \<Rightarrow> u32x10" where
  "ripemd160_rounds3 = (\<lambda>(a1, b1, c1, d1, e1, a2, b2, c2, d2, e2)
     (w0, w1, w2, w3, w4, w5, w6, w7, w8, w9, w10, w11, w12, w13, w14, w15).
     let (d1, a1) = ripemd160_R31 d1 e1 a1 b1 c1 w3 11;
         (d2, a2) = ripemd160_R32 d2 e2 a2 b2 c2 w15 9;
         (c1, e1) = ripemd160_R31 c1 d1 e1 a1 b1 w10 13;
         (c2, e2) = ripemd160_R32 c2 d2 e2 a2 b2 w5 7;
         (b1, d1) = ripemd160_R31 b1 c1 d1 e1 a1 w14 6;
         (b2, d2) = ripemd160_R32 b2 c2 d2 e2 a2 w1 15;
         (a1, c1) = ripemd160_R31 a1 b1 c1 d1 e1 w4 7;
         (a2, c2) = ripemd160_R32 a2 b2 c2 d2 e2 w3 11;
         (e1, b1) = ripemd160_R31 e1 a1 b1 c1 d1 w9 14;
         (e2, b2) = ripemd160_R32 e2 a2 b2 c2 d2 w7 8;
         (d1, a1) = ripemd160_R31 d1 e1 a1 b1 c1 w15 9;
         (d2, a2) = ripemd160_R32 d2 e2 a2 b2 c2 w14 6;
         (c1, e1) = ripemd160_R31 c1 d1 e1 a1 b1 w8 13;
         (c2, e2) = ripemd160_R32 c2 d2 e2 a2 b2 w6 6;
         (b1, d1) = ripemd160_R31 b1 c1 d1 e1 a1 w1 15;
         (b2, d2) = ripemd160_R32 b2 c2 d2 e2 a2 w9 14;
         (a1, c1) = ripemd160_R31 a1 b1 c1 d1 e1 w2 14;
         (a2, c2) = ripemd160_R32 a2 b2 c2 d2 e2 w11 12;
         (e1, b1) = ripemd160_R31 e1 a1 b1 c1 d1 w7 8;
         (e2, b2) = ripemd160_R32 e2 a2 b2 c2 d2 w8 13;
         (d1, a1) = ripemd160_R31 d1 e1 a1 b1 c1 w0 13;
         (d2, a2) = ripemd160_R32 d2 e2 a2 b2 c2 w12 5;
         (c1, e1) = ripemd160_R31 c1 d1 e1 a1 b1 w6 6;
         (c2, e2) = ripemd160_R32 c2 d2 e2 a2 b2 w2 14;
         (b1, d1) = ripemd160_R31 b1 c1 d1 e1 a1 w13 5;
         (b2, d2) = ripemd160_R32 b2 c2 d2 e2 a2 w10 13;
         (a1, c1) = ripemd160_R31 a1 b1 c1 d1 e1 w11 12;
         (a2, c2) = ripemd160_R32 a2 b2 c2 d2 e2 w0 13;
         (e1, b1) = ripemd160_R31 e1 a1 b1 c1 d1 w5 7;
         (e2, b2) = ripemd160_R32 e2 a2 b2 c2 d2 w4 7;
         (d1, a1) = ripemd160_R31 d1 e1 a1 b1 c1 w12 5;
         (d2, a2) = ripemd160_R32 d2 e2 a2 b2 c2 w13 5
     in (a1, b1, c1, d1, e1, a2, b2, c2, d2, e2))"

definition ripemd160_rounds4 :: "u32x10 \<Rightarrow> u32_16 \<Rightarrow> u32x10" where
  "ripemd160_rounds4 = (\<lambda>(a1, b1, c1, d1, e1, a2, b2, c2, d2, e2)
     (w0, w1, w2, w3, w4, w5, w6, w7, w8, w9, w10, w11, w12, w13, w14, w15).
     let (c1, e1) = ripemd160_R41 c1 d1 e1 a1 b1 w1 11;
         (c2, e2) = ripemd160_R42 c2 d2 e2 a2 b2 w8 15;
         (b1, d1) = ripemd160_R41 b1 c1 d1 e1 a1 w9 12;
         (b2, d2) = ripemd160_R42 b2 c2 d2 e2 a2 w6 5;
         (a1, c1) = ripemd160_R41 a1 b1 c1 d1 e1 w11 14;
         (a2, c2) = ripemd160_R42 a2 b2 c2 d2 e2 w4 8;
         (e1, b1) = ripemd160_R41 e1 a1 b1 c1 d1 w10 15;
         (e2, b2) = ripemd160_R42 e2 a2 b2 c2 d2 w1 11;
         (d1, a1) = ripemd160_R41 d1 e1 a1 b1 c1 w0 14;
         (d2, a2) = ripemd160_R42 d2 e2 a2 b2 c2 w3 14;
         (c1, e1) = ripemd160_R41 c1 d1 e1 a1 b1 w8 15;
         (c2, e2) = ripemd160_R42 c2 d2 e2 a2 b2 w11 14;
         (b1, d1) = ripemd160_R41 b1 c1 d1 e1 a1 w12 9;
         (b2, d2) = ripemd160_R42 b2 c2 d2 e2 a2 w15 6;
         (a1, c1) = ripemd160_R41 a1 b1 c1 d1 e1 w4 8;
         (a2, c2) = ripemd160_R42 a2 b2 c2 d2 e2 w0 14;
         (e1, b1) = ripemd160_R41 e1 a1 b1 c1 d1 w13 9;
         (e2, b2) = ripemd160_R42 e2 a2 b2 c2 d2 w5 6;
         (d1, a1) = ripemd160_R41 d1 e1 a1 b1 c1 w3 14;
         (d2, a2) = ripemd160_R42 d2 e2 a2 b2 c2 w12 9;
         (c1, e1) = ripemd160_R41 c1 d1 e1 a1 b1 w7 5;
         (c2, e2) = ripemd160_R42 c2 d2 e2 a2 b2 w2 12;
         (b1, d1) = ripemd160_R41 b1 c1 d1 e1 a1 w15 6;
         (b2, d2) = ripemd160_R42 b2 c2 d2 e2 a2 w13 9;
         (a1, c1) = ripemd160_R41 a1 b1 c1 d1 e1 w14 8;
         (a2, c2) = ripemd160_R42 a2 b2 c2 d2 e2 w9 12;
         (e1, b1) = ripemd160_R41 e1 a1 b1 c1 d1 w5 6;
         (e2, b2) = ripemd160_R42 e2 a2 b2 c2 d2 w7 5;
         (d1, a1) = ripemd160_R41 d1 e1 a1 b1 c1 w6 5;
         (d2, a2) = ripemd160_R42 d2 e2 a2 b2 c2 w10 15;
         (c1, e1) = ripemd160_R41 c1 d1 e1 a1 b1 w2 12;
         (c2, e2) = ripemd160_R42 c2 d2 e2 a2 b2 w14 8
     in (a1, b1, c1, d1, e1, a2, b2, c2, d2, e2))"

definition ripemd160_rounds5 :: "u32x10 \<Rightarrow> u32_16 \<Rightarrow> u32x10" where
  "ripemd160_rounds5 = (\<lambda>(a1, b1, c1, d1, e1, a2, b2, c2, d2, e2)
     (w0, w1, w2, w3, w4, w5, w6, w7, w8, w9, w10, w11, w12, w13, w14, w15).
     let (b1, d1) = ripemd160_R51 b1 c1 d1 e1 a1 w4 9;
         (b2, d2) = ripemd160_R52 b2 c2 d2 e2 a2 w12 8;
         (a1, c1) = ripemd160_R51 a1 b1 c1 d1 e1 w0 15;
         (a2, c2) = ripemd160_R52 a2 b2 c2 d2 e2 w15 5;
         (e1, b1) = ripemd160_R51 e1 a1 b1 c1 d1 w5 5;
         (e2, b2) = ripemd160_R52 e2 a2 b2 c2 d2 w10 12;
         (d1, a1) = ripemd160_R51 d1 e1 a1 b1 c1 w9 11;
         (d2, a2) = ripemd160_R52 d2 e2 a2 b2 c2 w4 9;
         (c1, e1) = ripemd160_R51 c1 d1 e1 a1 b1 w7 6;
         (c2, e2) = ripemd160_R52 c2 d2 e2 a2 b2 w1 12;
         (b1, d1) = ripemd160_R51 b1 c1 d1 e1 a1 w12 8;
         (b2, d2) = ripemd160_R52 b2 c2 d2 e2 a2 w5 5;
         (a1, c1) = ripemd160_R51 a1 b1 c1 d1 e1 w2 13;
         (a2, c2) = ripemd160_R52 a2 b2 c2 d2 e2 w8 14;
         (e1, b1) = ripemd160_R51 e1 a1 b1 c1 d1 w10 12;
         (e2, b2) = ripemd160_R52 e2 a2 b2 c2 d2 w7 6;
         (d1, a1) = ripemd160_R51 d1 e1 a1 b1 c1 w14 5;
         (d2, a2) = ripemd160_R52 d2 e2 a2 b2 c2 w6 8;
         (c1, e1) = ripemd160_R51 c1 d1 e1 a1 b1 w1 12;
         (c2, e2) = ripemd160_R52 c2 d2 e2 a2 b2 w2 13;
         (b1, d1) = ripemd160_R51 b1 c1 d1 e1 a1 w3 13;
         (b2, d2) = ripemd160_R52 b2 c2 d2 e2 a2 w13 6;
         (a1, c1) = ripemd160_R51 a1 b1 c1 d1 e1 w8 14;
         (a2, c2) = ripemd160_R52 a2 b2 c2 d2 e2 w14 5;
         (e1, b1) = ripemd160_R51 e1 a1 b1 c1 d1 w11 11;
         (e2, b2) = ripemd160_R52 e2 a2 b2 c2 d2 w0 15;
         (d1, a1) = ripemd160_R51 d1 e1 a1 b1 c1 w6 8;
         (d2, a2) = ripemd160_R52 d2 e2 a2 b2 c2 w3 13;
         (c1, e1) = ripemd160_R51 c1 d1 e1 a1 b1 w15 5;
         (c2, e2) = ripemd160_R52 c2 d2 e2 a2 b2 w9 11;
         (b1, d1) = ripemd160_R51 b1 c1 d1 e1 a1 w13 6;
         (b2, d2) = ripemd160_R52 b2 c2 d2 e2 a2 w11 11
     in (a1, b1, c1, d1, e1, a2, b2, c2, d2, e2))"

definition ripemd160_Transform :: "u32 list \<Rightarrow> bytes \<Rightarrow> u32 list" where
  "ripemd160_Transform s chunk =
     (let ws = (ReadLE32 chunk 0, ReadLE32 chunk 4, ReadLE32 chunk 8, ReadLE32 chunk 12,
                ReadLE32 chunk 16, ReadLE32 chunk 20, ReadLE32 chunk 24, ReadLE32 chunk 28,
                ReadLE32 chunk 32, ReadLE32 chunk 36, ReadLE32 chunk 40, ReadLE32 chunk 44,
                ReadLE32 chunk 48, ReadLE32 chunk 52, ReadLE32 chunk 56, ReadLE32 chunk 60);
          st = (s ! 0, s ! 1, s ! 2, s ! 3, s ! 4, s ! 0, s ! 1, s ! 2, s ! 3, s ! 4);
          st = ripemd160_rounds1 st ws;
          st = ripemd160_rounds2 st ws;
          st = ripemd160_rounds3 st ws;
          st = ripemd160_rounds4 st ws;
          (a1, b1, c1, d1, e1, a2, b2, c2, d2, e2) = ripemd160_rounds5 st ws
      in [s ! 1 + c1 + d2, s ! 2 + d1 + e2, s ! 3 + e1 + a2, s ! 4 + a1 + b2, s ! 0 + b1 + c2])"

section \<open>The hasher class\<close>

type_synonym CRIPEMD160 = "u32 list hasher"

definition CRIPEMD160_new :: "bytes \<Rightarrow> CRIPEMD160" where
  "CRIPEMD160_new buf = \<lparr> hs_s = ripemd160_Initialize, hs_buf = buf, hs_bytes = 0 \<rparr>"

definition CRIPEMD160_Write :: "CRIPEMD160 \<Rightarrow> bytes \<Rightarrow> CRIPEMD160" where
  "CRIPEMD160_Write = hasher_write 64 ripemd160_Transform"

definition CRIPEMD160_Finalize :: "CRIPEMD160 \<Rightarrow> bytes" where
  "CRIPEMD160_Finalize h =
     (let sizedesc = le_bytes 8 (push_bit 3 (hs_bytes h));
          h1 = CRIPEMD160_Write h (hash_pad (1 + ((119 - unat (hs_bytes h) mod 64) mod 64)));
          h2 = CRIPEMD160_Write h1 sizedesc
      in concat (map (le_bytes 4) (hs_s h2)))"

definition CRIPEMD160_Reset :: "CRIPEMD160 \<Rightarrow> CRIPEMD160" where
  "CRIPEMD160_Reset h = h\<lparr> hs_bytes := 0, hs_s := ripemd160_Initialize \<rparr>"

section \<open>The rolled definition\<close>

definition rmd_f :: "nat \<Rightarrow> u32 \<Rightarrow> u32 \<Rightarrow> u32 \<Rightarrow> u32" where
  "rmd_f g x y z =
     (if g = 0 then x XOR y XOR z
      else if g = 1 then (x AND y) OR (NOT x AND z)
      else if g = 2 then (x OR NOT y) XOR z
      else if g = 3 then (x AND z) OR (y AND NOT z)
      else x XOR (y OR NOT z))"

definition rmd_KL :: "u32 list" where
  "rmd_KL = [0, 1518500249, 1859775393, 2400959708, 2840853838]"

definition rmd_KR :: "u32 list" where
  "rmd_KR = [1352829926, 1548603684, 1836072691, 2053994217, 0]"

text \<open>The rotation of each round, by the index of the message word.\<close>

definition rmd_S :: "nat list list" where
  "rmd_S =
     [[11, 14, 15, 12, 5, 8, 7, 9, 11, 13, 14, 15, 6, 7, 9, 8],
      [12, 13, 11, 15, 6, 9, 9, 7, 12, 15, 11, 13, 7, 8, 7, 7],
      [13, 15, 14, 11, 7, 7, 6, 8, 13, 14, 13, 12, 5, 5, 6, 9],
      [14, 11, 12, 14, 8, 6, 5, 5, 15, 12, 15, 14, 9, 9, 8, 6],
      [15, 12, 13, 13, 9, 5, 8, 6, 14, 11, 12, 11, 8, 6, 5, 5]]"

definition rmd_rho :: "nat \<Rightarrow> nat" where
  "rmd_rho i = [7, 4, 13, 1, 10, 6, 15, 3, 12, 0, 9, 5, 2, 14, 11, 8] ! i"

definition rmd_pi :: "nat \<Rightarrow> nat" where
  "rmd_pi i = (9 * i + 5) mod 16"

definition rmd_left :: "nat \<Rightarrow> nat list" where
  "rmd_left g = map (\<lambda>i. (rmd_rho ^^ g) i) [0..<16]"

definition rmd_right :: "nat \<Rightarrow> nat list" where
  "rmd_right g = map (\<lambda>i. (rmd_rho ^^ g) (rmd_pi i)) [0..<16]"

definition rmd_step :: "(u32 \<Rightarrow> u32 \<Rightarrow> u32 \<Rightarrow> u32) \<Rightarrow> u32 \<Rightarrow> nat \<Rightarrow> u32 \<Rightarrow> u32_5 \<Rightarrow> u32_5" where
  "rmd_step f k s x = (\<lambda>(a, b, c, d, e).
     (e, ripemd160_rol (a + f b c d + x + k) s + e, b, ripemd160_rol c 10, d))"

definition rmd_line ::
    "(u32 \<Rightarrow> u32 \<Rightarrow> u32 \<Rightarrow> u32) \<Rightarrow> u32 \<Rightarrow> nat list \<Rightarrow> u32 list \<Rightarrow> nat list \<Rightarrow> u32_5 \<Rightarrow> u32_5" where
  "rmd_line f k ss ws ts st = foldl (\<lambda>st t. rmd_step f k (ss ! t) (ws ! t) st) st ts"

definition rmd_words :: "bytes \<Rightarrow> u32 list" where
  "rmd_words chunk = map (\<lambda>i. le_word (take 4 (drop (4 * i) chunk))) [0..<16]"

definition rmd_compress :: "u32 list \<Rightarrow> bytes \<Rightarrow> u32 list" where
  "rmd_compress s chunk =
     (let st = (s ! 0, s ! 1, s ! 2, s ! 3, s ! 4);
          (a, b, c, d, e) = foldl (\<lambda>st g. rmd_line (rmd_f g) (rmd_KL ! g) (rmd_S ! g)
             (rmd_words chunk) (rmd_left g) st) st [0, 1, 2, 3, 4];
          (a', b', c', d', e') = foldl (\<lambda>st g. rmd_line (rmd_f (4 - g)) (rmd_KR ! g) (rmd_S ! g)
             (rmd_words chunk) (rmd_right g) st) st [0, 1, 2, 3, 4]
      in [s ! 1 + c + d', s ! 2 + d + e', s ! 3 + e + a', s ! 4 + a + b', s ! 0 + b + c'])"

definition rmd_padding :: "nat \<Rightarrow> bytes" where
  "rmd_padding len = 0x80 # replicate ((119 - len mod 64) mod 64) 0 @
     le_bytes 8 (of_nat (8 * len) :: u64)"

definition ripemd160_digest :: "bytes \<Rightarrow> bytes" where
  "ripemd160_digest msg =
     concat (map (le_bytes 4)
       (compress_blocks 64 rmd_compress ripemd160_Initialize (msg @ rmd_padding (length msg))))"

section \<open>The unrolled rounds are the rolled ones\<close>

lemma rmd_step_eq:
  "rmd_step (rmd_f 0) 0 s x (a, b, c, d, e) =
     (case ripemd160_R11 a b c d e x s of (a', c') \<Rightarrow> (e, a', b, c', d))"
  "rmd_step (rmd_f 1) 0x5A827999 s x (a, b, c, d, e) =
     (case ripemd160_R21 a b c d e x s of (a', c') \<Rightarrow> (e, a', b, c', d))"
  "rmd_step (rmd_f 2) 0x6ED9EBA1 s x (a, b, c, d, e) =
     (case ripemd160_R31 a b c d e x s of (a', c') \<Rightarrow> (e, a', b, c', d))"
  "rmd_step (rmd_f 3) 0x8F1BBCDC s x (a, b, c, d, e) =
     (case ripemd160_R41 a b c d e x s of (a', c') \<Rightarrow> (e, a', b, c', d))"
  "rmd_step (rmd_f 4) 0xA953FD4E s x (a, b, c, d, e) =
     (case ripemd160_R51 a b c d e x s of (a', c') \<Rightarrow> (e, a', b, c', d))"
  "rmd_step (rmd_f 4) 0x50A28BE6 s x (a, b, c, d, e) =
     (case ripemd160_R12 a b c d e x s of (a', c') \<Rightarrow> (e, a', b, c', d))"
  "rmd_step (rmd_f 3) 0x5C4DD124 s x (a, b, c, d, e) =
     (case ripemd160_R22 a b c d e x s of (a', c') \<Rightarrow> (e, a', b, c', d))"
  "rmd_step (rmd_f 2) 0x6D703EF3 s x (a, b, c, d, e) =
     (case ripemd160_R32 a b c d e x s of (a', c') \<Rightarrow> (e, a', b, c', d))"
  "rmd_step (rmd_f 1) 0x7A6D76E9 s x (a, b, c, d, e) =
     (case ripemd160_R42 a b c d e x s of (a', c') \<Rightarrow> (e, a', b, c', d))"
  by (simp_all add: rmd_step_def ripemd160_Round_def rmd_f_def
      ripemd160_R11_def ripemd160_R21_def ripemd160_R31_def ripemd160_R41_def ripemd160_R51_def
      ripemd160_R12_def ripemd160_R22_def ripemd160_R32_def ripemd160_R42_def ripemd160_R52_def
      ripemd160_f1_def ripemd160_f2_def ripemd160_f3_def ripemd160_f4_def ripemd160_f5_def)

lemma ripemd160_R52_eq: "ripemd160_R52 = ripemd160_R11"
  by (intro ext) (simp add: ripemd160_R52_def ripemd160_R11_def)

lemmas rmd_tables = rmd_KL_def rmd_KR_def rmd_S_def

lemma rmd_line_Cons:
  "rmd_line f k ss ws (t # ts) st = rmd_line f k ss ws ts (rmd_step f k (ss ! t) (ws ! t) st)"
  "rmd_line f k ss ws [] st = st"
  by (simp_all add: rmd_line_def)

lemma ripemd160_rounds1_eq:
  "ripemd160_rounds1 (a, b, c, d, e, a', b', c', d', e')
     (w0, w1, w2, w3, w4, w5, w6, w7, w8, w9, w10, w11, w12, w13, w14, w15) =
   (case rmd_line (rmd_f 0) (rmd_KL ! 0) (rmd_S ! 0)
           [w0, w1, w2, w3, w4, w5, w6, w7, w8, w9, w10, w11, w12, w13, w14, w15] [0, 1, 2, 3, 4, 5, 6, 7, 8, 9, 10, 11, 12, 13, 14, 15] (a, b, c, d, e) of
      (p, q, r, s, t) \<Rightarrow>
    case rmd_line (rmd_f 4) (rmd_KR ! 0) (rmd_S ! 0)
           [w0, w1, w2, w3, w4, w5, w6, w7, w8, w9, w10, w11, w12, w13, w14, w15] [5, 14, 7, 0, 9, 2, 11, 4, 13, 6, 15, 8, 1, 10, 3, 12] (a', b', c', d', e') of
      (p', q', r', s', t') \<Rightarrow> (q, r, s, t, p, q', r', s', t', p'))"
  unfolding ripemd160_rounds1_def rmd_line_Cons
  by (simp only: prod.case Let_def)
     (simp add: rmd_tables rmd_step_eq split: prod.split del: One_nat_def)

lemma ripemd160_rounds2_eq:
  "ripemd160_rounds2 (b, c, d, e, a, b', c', d', e', a')
     (w0, w1, w2, w3, w4, w5, w6, w7, w8, w9, w10, w11, w12, w13, w14, w15) =
   (case rmd_line (rmd_f 1) (rmd_KL ! 1) (rmd_S ! 1)
           [w0, w1, w2, w3, w4, w5, w6, w7, w8, w9, w10, w11, w12, w13, w14, w15] [7, 4, 13, 1, 10, 6, 15, 3, 12, 0, 9, 5, 2, 14, 11, 8] (a, b, c, d, e) of
      (p, q, r, s, t) \<Rightarrow>
    case rmd_line (rmd_f 3) (rmd_KR ! 1) (rmd_S ! 1)
           [w0, w1, w2, w3, w4, w5, w6, w7, w8, w9, w10, w11, w12, w13, w14, w15] [6, 11, 3, 7, 0, 13, 5, 10, 14, 15, 8, 12, 4, 9, 1, 2] (a', b', c', d', e') of
      (p', q', r', s', t') \<Rightarrow> (r, s, t, p, q, r', s', t', p', q'))"
  unfolding ripemd160_rounds2_def rmd_line_Cons
  by (simp only: prod.case Let_def)
     (simp add: rmd_tables rmd_step_eq split: prod.split del: One_nat_def)

lemma ripemd160_rounds3_eq:
  "ripemd160_rounds3 (c, d, e, a, b, c', d', e', a', b')
     (w0, w1, w2, w3, w4, w5, w6, w7, w8, w9, w10, w11, w12, w13, w14, w15) =
   (case rmd_line (rmd_f 2) (rmd_KL ! 2) (rmd_S ! 2)
           [w0, w1, w2, w3, w4, w5, w6, w7, w8, w9, w10, w11, w12, w13, w14, w15] [3, 10, 14, 4, 9, 15, 8, 1, 2, 7, 0, 6, 13, 11, 5, 12] (a, b, c, d, e) of
      (p, q, r, s, t) \<Rightarrow>
    case rmd_line (rmd_f 2) (rmd_KR ! 2) (rmd_S ! 2)
           [w0, w1, w2, w3, w4, w5, w6, w7, w8, w9, w10, w11, w12, w13, w14, w15] [15, 5, 1, 3, 7, 14, 6, 9, 11, 8, 12, 2, 10, 0, 4, 13] (a', b', c', d', e') of
      (p', q', r', s', t') \<Rightarrow> (s, t, p, q, r, s', t', p', q', r'))"
  unfolding ripemd160_rounds3_def rmd_line_Cons
  by (simp only: prod.case Let_def)
     (simp add: rmd_tables rmd_step_eq split: prod.split del: One_nat_def)

lemma ripemd160_rounds4_eq:
  "ripemd160_rounds4 (d, e, a, b, c, d', e', a', b', c')
     (w0, w1, w2, w3, w4, w5, w6, w7, w8, w9, w10, w11, w12, w13, w14, w15) =
   (case rmd_line (rmd_f 3) (rmd_KL ! 3) (rmd_S ! 3)
           [w0, w1, w2, w3, w4, w5, w6, w7, w8, w9, w10, w11, w12, w13, w14, w15] [1, 9, 11, 10, 0, 8, 12, 4, 13, 3, 7, 15, 14, 5, 6, 2] (a, b, c, d, e) of
      (p, q, r, s, t) \<Rightarrow>
    case rmd_line (rmd_f 1) (rmd_KR ! 3) (rmd_S ! 3)
           [w0, w1, w2, w3, w4, w5, w6, w7, w8, w9, w10, w11, w12, w13, w14, w15] [8, 6, 4, 1, 3, 11, 15, 0, 5, 12, 2, 13, 9, 7, 10, 14] (a', b', c', d', e') of
      (p', q', r', s', t') \<Rightarrow> (t, p, q, r, s, t', p', q', r', s'))"
  unfolding ripemd160_rounds4_def rmd_line_Cons
  by (simp only: prod.case Let_def)
     (simp add: rmd_tables rmd_step_eq split: prod.split del: One_nat_def)

lemma ripemd160_rounds5_eq:
  "ripemd160_rounds5 (e, a, b, c, d, e', a', b', c', d')
     (w0, w1, w2, w3, w4, w5, w6, w7, w8, w9, w10, w11, w12, w13, w14, w15) =
   (case rmd_line (rmd_f 4) (rmd_KL ! 4) (rmd_S ! 4)
           [w0, w1, w2, w3, w4, w5, w6, w7, w8, w9, w10, w11, w12, w13, w14, w15] [4, 0, 5, 9, 7, 12, 2, 10, 14, 1, 3, 8, 11, 6, 15, 13] (a, b, c, d, e) of
      (p, q, r, s, t) \<Rightarrow>
    case rmd_line (rmd_f 0) (rmd_KR ! 4) (rmd_S ! 4)
           [w0, w1, w2, w3, w4, w5, w6, w7, w8, w9, w10, w11, w12, w13, w14, w15] [12, 15, 10, 4, 1, 5, 8, 7, 6, 2, 13, 14, 0, 3, 9, 11] (a', b', c', d', e') of
      (p', q', r', s', t') \<Rightarrow> (p, q, r, s, t, p', q', r', s', t'))"
  unfolding ripemd160_rounds5_def rmd_line_Cons
  by (simp only: prod.case Let_def)
     (simp add: rmd_tables rmd_step_eq ripemd160_R52_eq split: prod.split del: One_nat_def)

lemma rmd_orders:
  "rmd_left 0 = [0, 1, 2, 3, 4, 5, 6, 7, 8, 9, 10, 11, 12, 13, 14, 15]"
  "rmd_left 1 = [7, 4, 13, 1, 10, 6, 15, 3, 12, 0, 9, 5, 2, 14, 11, 8]"
  "rmd_left 2 = [3, 10, 14, 4, 9, 15, 8, 1, 2, 7, 0, 6, 13, 11, 5, 12]"
  "rmd_left 3 = [1, 9, 11, 10, 0, 8, 12, 4, 13, 3, 7, 15, 14, 5, 6, 2]"
  "rmd_left 4 = [4, 0, 5, 9, 7, 12, 2, 10, 14, 1, 3, 8, 11, 6, 15, 13]"
  "rmd_right 0 = [5, 14, 7, 0, 9, 2, 11, 4, 13, 6, 15, 8, 1, 10, 3, 12]"
  "rmd_right 1 = [6, 11, 3, 7, 0, 13, 5, 10, 14, 15, 8, 12, 4, 9, 1, 2]"
  "rmd_right 2 = [15, 5, 1, 3, 7, 14, 6, 9, 11, 8, 12, 2, 10, 0, 4, 13]"
  "rmd_right 3 = [8, 6, 4, 1, 3, 11, 15, 0, 5, 12, 2, 13, 9, 7, 10, 14]"
  "rmd_right 4 = [12, 15, 10, 4, 1, 5, 8, 7, 6, 2, 13, 14, 0, 3, 9, 11]"
  by code_simp+

lemma rmd_words_eq:
  "rmd_words chunk = [ReadLE32 chunk 0, ReadLE32 chunk 4, ReadLE32 chunk 8, ReadLE32 chunk 12, ReadLE32 chunk 16, ReadLE32 chunk 20, ReadLE32 chunk 24, ReadLE32 chunk 28, 
     ReadLE32 chunk 32, ReadLE32 chunk 36, ReadLE32 chunk 40, ReadLE32 chunk 44, ReadLE32 chunk 48, ReadLE32 chunk 52, ReadLE32 chunk 56, ReadLE32 chunk 60]"
proof -
  have "[0..<16] = [0, 1, 2, 3, 4, 5, 6, 7, 8, 9, 10, 11, 12, 13, 14, 15]" by code_simp
  then show ?thesis by (simp add: rmd_words_def ReadLE32_def)
qed

lemma diff_nums: "(4::nat) - 0 = 4" "(4::nat) - 1 = 3" "(4::nat) - 2 = 2" "(4::nat) - 3 = 1" "(4::nat) - 4 = 0"
  by simp_all

lemma ripemd160_Transform_eq: "ripemd160_Transform s chunk = rmd_compress s chunk"
proof -
  let ?X = "[ReadLE32 chunk 0, ReadLE32 chunk 4, ReadLE32 chunk 8, ReadLE32 chunk 12, ReadLE32 chunk 16, ReadLE32 chunk 20, ReadLE32 chunk 24, ReadLE32 chunk 28, ReadLE32 chunk 32, ReadLE32 chunk 36, ReadLE32 chunk 40, ReadLE32 chunk 44, ReadLE32 chunk 48, ReadLE32 chunk 52, ReadLE32 chunk 56, ReadLE32 chunk 60]"
  obtain a0 b0 c0 d0 e0 where l0: "rmd_line (rmd_f 0) (rmd_KL ! 0) (rmd_S ! 0) ?X
      [0, 1, 2, 3, 4, 5, 6, 7, 8, 9, 10, 11, 12, 13, 14, 15] (s ! 0, s ! 1, s ! 2, s ! 3, s ! 4) = (a0, b0, c0, d0, e0)" by (rule prod_cases5)
  obtain a0' b0' c0' d0' e0' where r0: "rmd_line (rmd_f 4) (rmd_KR ! 0) (rmd_S ! 0) ?X
      [5, 14, 7, 0, 9, 2, 11, 4, 13, 6, 15, 8, 1, 10, 3, 12] (s ! 0, s ! 1, s ! 2, s ! 3, s ! 4) = (a0', b0', c0', d0', e0')" by (rule prod_cases5)
  obtain a1 b1 c1 d1 e1 where l1: "rmd_line (rmd_f 1) (rmd_KL ! 1) (rmd_S ! 1) ?X
      [7, 4, 13, 1, 10, 6, 15, 3, 12, 0, 9, 5, 2, 14, 11, 8] (a0, b0, c0, d0, e0) = (a1, b1, c1, d1, e1)" by (rule prod_cases5)
  obtain a1' b1' c1' d1' e1' where r1: "rmd_line (rmd_f 3) (rmd_KR ! 1) (rmd_S ! 1) ?X
      [6, 11, 3, 7, 0, 13, 5, 10, 14, 15, 8, 12, 4, 9, 1, 2] (a0', b0', c0', d0', e0') = (a1', b1', c1', d1', e1')" by (rule prod_cases5)
  obtain a2 b2 c2 d2 e2 where l2: "rmd_line (rmd_f 2) (rmd_KL ! 2) (rmd_S ! 2) ?X
      [3, 10, 14, 4, 9, 15, 8, 1, 2, 7, 0, 6, 13, 11, 5, 12] (a1, b1, c1, d1, e1) = (a2, b2, c2, d2, e2)" by (rule prod_cases5)
  obtain a2' b2' c2' d2' e2' where r2: "rmd_line (rmd_f 2) (rmd_KR ! 2) (rmd_S ! 2) ?X
      [15, 5, 1, 3, 7, 14, 6, 9, 11, 8, 12, 2, 10, 0, 4, 13] (a1', b1', c1', d1', e1') = (a2', b2', c2', d2', e2')" by (rule prod_cases5)
  obtain a3 b3 c3 d3 e3 where l3: "rmd_line (rmd_f 3) (rmd_KL ! 3) (rmd_S ! 3) ?X
      [1, 9, 11, 10, 0, 8, 12, 4, 13, 3, 7, 15, 14, 5, 6, 2] (a2, b2, c2, d2, e2) = (a3, b3, c3, d3, e3)" by (rule prod_cases5)
  obtain a3' b3' c3' d3' e3' where r3: "rmd_line (rmd_f 1) (rmd_KR ! 3) (rmd_S ! 3) ?X
      [8, 6, 4, 1, 3, 11, 15, 0, 5, 12, 2, 13, 9, 7, 10, 14] (a2', b2', c2', d2', e2') = (a3', b3', c3', d3', e3')" by (rule prod_cases5)
  obtain a4 b4 c4 d4 e4 where l4: "rmd_line (rmd_f 4) (rmd_KL ! 4) (rmd_S ! 4) ?X
      [4, 0, 5, 9, 7, 12, 2, 10, 14, 1, 3, 8, 11, 6, 15, 13] (a3, b3, c3, d3, e3) = (a4, b4, c4, d4, e4)" by (rule prod_cases5)
  obtain a4' b4' c4' d4' e4' where r4: "rmd_line (rmd_f 0) (rmd_KR ! 4) (rmd_S ! 4) ?X
      [12, 15, 10, 4, 1, 5, 8, 7, 6, 2, 13, 14, 0, 3, 9, 11] (a3', b3', c3', d3', e3') = (a4', b4', c4', d4', e4')" by (rule prod_cases5)
  show ?thesis
    by (simp only: ripemd160_Transform_def rmd_compress_def rmd_words_eq rmd_orders Let_def foldl.simps
        ripemd160_rounds1_eq ripemd160_rounds2_eq ripemd160_rounds3_eq ripemd160_rounds4_eq
        ripemd160_rounds5_eq prod.case l0 l1 l2 l3 l4 r0 r1 r2 r3 r4 diff_nums)
qed

interpretation ripemd160_hasher:
  block_hasher 64 ripemd160_Transform ripemd160_Initialize CRIPEMD160_Write
  by unfold_locales (simp_all add: CRIPEMD160_Write_def hasher_write_absorbed)

lemma CRIPEMD160_Finalize_absorbed:
  assumes "absorbed 64 ripemd160_Transform ripemd160_Initialize h msg"
  shows "CRIPEMD160_Finalize h = ripemd160_digest msg"
proof -
  have b: "unat (hs_bytes h) mod 64 = length msg mod 64"
    by (rule bufsize_eq [OF assms]) simp
  have bytes: "hs_bytes h = of_nat (length msg)" using assms by (simp add: absorbed_def)
  have pad: "hash_pad (1 + ((119 - unat (hs_bytes h) mod 64) mod 64)) @
      le_bytes 8 (push_bit 3 (hs_bytes h)) = rmd_padding (length msg)"
    unfolding b unfolding bytes by (simp add: hash_pad_def rmd_padding_def bytes_to_bits)
  have "ripemd160_Transform = rmd_compress" by (intro ext) (rule ripemd160_Transform_eq)
  with ripemd160_hasher.finish [OF assms,
      of "hash_pad (1 + ((119 - unat (hs_bytes h) mod 64) mod 64))"
      "le_bytes 8 (push_bit 3 (hs_bytes h))", unfolded pad]
  show ?thesis by (simp add: CRIPEMD160_Finalize_def ripemd160_digest_def Let_def)
qed

text \<open>
  However a message is cut into pieces, and whatever the buffer of a new hasher contains, the
  RIPEMD-160 digest is the one of the rolled definition for the whole message: each of the 160
  unrolled steps uses the right word, rotation, function and constant.
\<close>

theorem CRIPEMD160_digest:
  assumes "length buf = 64"
  shows "CRIPEMD160_Finalize (foldl CRIPEMD160_Write (CRIPEMD160_new buf) dats)
           = ripemd160_digest (concat dats)"
  unfolding CRIPEMD160_new_def
  using ripemd160_hasher.writes_absorbed [OF ripemd160_hasher.new_absorbed [OF assms], of dats]
  by (simp add: CRIPEMD160_Finalize_absorbed)

theorem CRIPEMD160_digest_witness:
  "CRIPEMD160_Finalize (CRIPEMD160_Write (CRIPEMD160_Write (CRIPEMD160_new (replicate 64 0)) [1]) [2, 3])
     = ripemd160_digest [1, 2, 3]"
  using CRIPEMD160_digest [of "replicate 64 0" "[[1], [2, 3]]"] by simp

end
