(* ===== verification/Hash.thy ===== *)
theory Hash
  imports Sha256 Sha512 Ripemd160 Transaction
begin

text \<open>
  \<open>hash.h\<close>, \<open>hash.cpp\<close> and the two HMAC classes: the double SHA-256 and the 160-bit hash, hashes of
  serialized objects and transaction identifiers, HMAC, MurmurHash3 and SipHash-2-4. Buffers and
  arrays the code leaves uninitialised are arguments of the constructors; the theorems show that no
  result depends on them.
\<close>

section \<open>Double SHA-256 and the 160-bit hash\<close>

definition CHash256_Finalize :: "CSHA256 \<Rightarrow> bytes" where
  "CHash256_Finalize sha =
     (let buf = CSHA256_Finalize sha
      in CSHA256_Finalize (CSHA256_Write (CSHA256_Reset (CSHA256_pad sha)) buf))"

definition CHash160_Finalize :: "bytes \<Rightarrow> CSHA256 \<Rightarrow> bytes" where
  "CHash160_Finalize junk sha =
     (let buf = CSHA256_Finalize sha
      in CRIPEMD160_Finalize (CRIPEMD160_Write (CRIPEMD160_new junk) buf))"

text \<open>The memory of the objects whose content does not matter.\<close>

definition blank64 :: bytes where
  "blank64 = replicate 64 0"

definition Hash :: "bytes \<Rightarrow> uint256" where
  "Hash p = le_word (CHash256_Finalize (CSHA256_Write (CSHA256_new blank64) p))"

definition Hash_2 :: "bytes \<Rightarrow> bytes \<Rightarrow> uint256" where
  "Hash_2 p1 p2 =
     le_word (CHash256_Finalize (CSHA256_Write (CSHA256_Write (CSHA256_new blank64) p1) p2))"

definition Hash_3 :: "bytes \<Rightarrow> bytes \<Rightarrow> bytes \<Rightarrow> uint256" where
  "Hash_3 p1 p2 p3 =
     le_word (CHash256_Finalize (CSHA256_Write (CSHA256_Write (CSHA256_Write
       (CSHA256_new blank64) p1) p2) p3))"

definition Hash160 :: "bytes \<Rightarrow> uint160" where
  "Hash160 p = le_word (CHash160_Finalize blank64 (CSHA256_Write (CSHA256_new blank64) p))"

text \<open>A \<open>CHashWriter\<close> hashes the bytes its serializers write, piece by piece.\<close>

definition CHashWriter_GetHash :: "bytes list \<Rightarrow> uint256" where
  "CHashWriter_GetHash writes =
     le_word (CHash256_Finalize (foldl CSHA256_Write (CSHA256_new blank64) writes))"

definition SerializeHash :: "bytes \<Rightarrow> uint256" where
  "SerializeHash ser = CHashWriter_GetHash [ser]"

text \<open>Transaction identifiers; a failing cast in the extension data makes the hash fail.\<close>

definition ComputeHash :: "CTransaction \<Rightarrow> ser_error + uint256" where
  "ComputeHash tx = sbind (SerializeTransaction False tx) (\<lambda>bs. Inr (SerializeHash bs))"

definition GetWitnessHash :: "CTransaction \<Rightarrow> ser_error + uint256" where
  "GetWitnessHash tx =
     (if \<not> HasWitness tx then ComputeHash tx
      else sbind (SerializeTransaction True tx) (\<lambda>bs. Inr (SerializeHash bs)))"

definition sha256d :: "bytes \<Rightarrow> uint256" where
  "sha256d msg = le_word (fips_sha256 (fips_sha256 msg))"

definition hash160 :: "bytes \<Rightarrow> uint160" where
  "hash160 msg = le_word (ripemd160_digest (fips_sha256 msg))"

lemma new_absorbed_sha256:
  "absorbed 64 sha256_block sha256_Initialize (CSHA256_new blank64) []"
  unfolding CSHA256_new_def by (rule sha256_hasher.new_absorbed) (simp add: blank64_def)

lemma CHash256_Finalize_absorbed:
  assumes "absorbed 64 sha256_block sha256_Initialize h msg"
  shows "CHash256_Finalize h = fips_sha256 (fips_sha256 msg)"
  using sha256_hasher.write_absorbs [OF CSHA256_Reset_absorbed [OF assms], of "fips_sha256 msg"]
  by (simp add: CHash256_Finalize_def CSHA256_Finalize_absorbed [OF assms] CSHA256_Finalize_absorbed)

lemma CHashWriter_eq: "CHashWriter_GetHash writes = sha256d (concat writes)"
  using CHash256_Finalize_absorbed [OF sha256_hasher.writes_absorbed [OF new_absorbed_sha256]]
  by (simp add: CHashWriter_GetHash_def sha256d_def)

lemma Hash_eq:
  "Hash p = sha256d p" "Hash_2 p q = sha256d (p @ q)" "Hash_3 p q r = sha256d (p @ q @ r)"
  using CHashWriter_eq [of "[p]"] CHashWriter_eq [of "[p, q]"] CHashWriter_eq [of "[p, q, r]"]
  by (simp_all add: CHashWriter_GetHash_def Hash_def Hash_2_def Hash_3_def)

lemma SerializeHash_eq: "SerializeHash bs = sha256d bs"
  by (simp add: SerializeHash_def CHashWriter_eq)

lemma new_absorbed_ripemd160:
  assumes "length junk = 64"
  shows "absorbed 64 ripemd160_Transform ripemd160_Initialize (CRIPEMD160_new junk) []"
  unfolding CRIPEMD160_new_def by (rule ripemd160_hasher.new_absorbed) (rule assms)

lemma Hash160_eq: "Hash160 p = hash160 p"
proof -
  have sha: "CSHA256_Finalize (CSHA256_Write (CSHA256_new blank64) p) = fips_sha256 p"
    using CSHA256_Finalize_absorbed [OF sha256_hasher.write_absorbs [OF new_absorbed_sha256, of p]]
    by simp
  have "length blank64 = 64" by (simp add: blank64_def)
  from CRIPEMD160_Finalize_absorbed [OF ripemd160_hasher.write_absorbs
      [OF new_absorbed_ripemd160 [OF this], of "fips_sha256 p"]]
  show ?thesis by (simp add: Hash160_def CHash160_Finalize_def hash160_def sha)
qed

section \<open>HMAC\<close>

record 'h hmac =
  hm_outer :: 'h
  hm_inner :: 'h

definition xor_pad :: "byte \<Rightarrow> bytes \<Rightarrow> bytes" where
  "xor_pad c rkey = map (\<lambda>b. b XOR c) rkey"

definition CHMAC_SHA256 :: "bytes \<Rightarrow> bytes \<Rightarrow> bytes \<Rightarrow> bytes \<Rightarrow> CSHA256 hmac" where
  "CHMAC_SHA256 buf1 buf2 buf3 key =
     (let rkey = (if length key \<le> 64 then key @ replicate (64 - length key) 0
                  else CSHA256_Finalize (CSHA256_Write (CSHA256_new buf3) key) @ replicate 32 0);
          rkey = xor_pad 0x5c rkey;
          out = CSHA256_Write (CSHA256_new buf1) rkey;
          rkey = xor_pad (0x5c XOR 0x36) rkey
      in \<lparr> hm_outer = out, hm_inner = CSHA256_Write (CSHA256_new buf2) rkey \<rparr>)"

definition CHMAC_SHA256_Write :: "CSHA256 hmac \<Rightarrow> bytes \<Rightarrow> CSHA256 hmac" where
  "CHMAC_SHA256_Write m dat = m\<lparr> hm_inner := CSHA256_Write (hm_inner m) dat \<rparr>"

definition CHMAC_SHA256_Finalize :: "CSHA256 hmac \<Rightarrow> bytes" where
  "CHMAC_SHA256_Finalize m =
     (let temp = CSHA256_Finalize (hm_inner m)
      in CSHA256_Finalize (CSHA256_Write (hm_outer m) temp))"

definition CHMAC_SHA512 :: "bytes \<Rightarrow> bytes \<Rightarrow> bytes \<Rightarrow> bytes \<Rightarrow> CSHA512 hmac" where
  "CHMAC_SHA512 buf1 buf2 buf3 key =
     (let rkey = (if length key \<le> 128 then key @ replicate (128 - length key) 0
                  else CSHA512_Finalize (CSHA512_Write (CSHA512_new buf3) key) @ replicate 64 0);
          rkey = xor_pad 0x5c rkey;
          out = CSHA512_Write (CSHA512_new buf1) rkey;
          rkey = xor_pad (0x5c XOR 0x36) rkey
      in \<lparr> hm_outer = out, hm_inner = CSHA512_Write (CSHA512_new buf2) rkey \<rparr>)"

definition CHMAC_SHA512_Write :: "CSHA512 hmac \<Rightarrow> bytes \<Rightarrow> CSHA512 hmac" where
  "CHMAC_SHA512_Write m dat = m\<lparr> hm_inner := CSHA512_Write (hm_inner m) dat \<rparr>"

definition CHMAC_SHA512_Finalize :: "CSHA512 hmac \<Rightarrow> bytes" where
  "CHMAC_SHA512_Finalize m =
     (let temp = CSHA512_Finalize (hm_inner m)
      in CSHA512_Finalize (CSHA512_Write (hm_outer m) temp))"

definition BIP32Hash :: "uint256 \<Rightarrow> u32 \<Rightarrow> byte \<Rightarrow> bytes \<Rightarrow> bytes" where
  "BIP32Hash chainCode nChild header dat =
     (let num = [ucast (drop_bit 24 nChild AND 0xFF), ucast (drop_bit 16 nChild AND 0xFF),
                 ucast (drop_bit 8 nChild AND 0xFF), ucast (drop_bit 0 nChild AND 0xFF)];
          junk = replicate 128 0
      in CHMAC_SHA512_Finalize (CHMAC_SHA512_Write (CHMAC_SHA512_Write (CHMAC_SHA512_Write
           (CHMAC_SHA512 junk junk junk (le_bytes 32 chainCode)) [header]) dat) num))"

text \<open>
  The contract HMAC needs of a hasher: a fresh object, however it is fed, yields the digest of the
  concatenation.
\<close>

locale digest_object =
  fixes blk :: nat and new :: "bytes \<Rightarrow> 'h" and wr :: "'h \<Rightarrow> bytes \<Rightarrow> 'h"
    and fin :: "'h \<Rightarrow> bytes" and H :: "bytes \<Rightarrow> bytes"
  assumes digest: "length buf = blk \<Longrightarrow> fin (foldl wr (new buf) dats) = H (concat dats)"
begin

lemma digest_one: "length buf = blk \<Longrightarrow> fin (wr (new buf) p) = H p"
  using digest [of buf "[p]"] by simp

lemma nested:
  "length buf1 = blk \<Longrightarrow> length buf2 = blk \<Longrightarrow>
     fin (wr (wr (new buf1) ok) (fin (foldl wr (wr (new buf2) ik) dats))) = H (ok @ H (ik @ concat dats))"
  using digest [of buf1 "[ok, fin (foldl wr (wr (new buf2) ik) dats)]"] digest [of buf2 "ik # dats"]
  by simp

end

interpretation sha256_digest: digest_object 64 CSHA256_new CSHA256_Write CSHA256_Finalize fips_sha256
proof unfold_locales
  fix buf dats
  assume "length (buf :: bytes) = 64"
  then show "CSHA256_Finalize (foldl CSHA256_Write (CSHA256_new buf) dats) = fips_sha256 (concat dats)"
    unfolding CSHA256_new_def
    using CSHA256_Finalize_absorbed [OF sha256_hasher.writes_absorbed [OF sha256_hasher.new_absorbed]]
    by simp
qed

interpretation sha512_digest: digest_object 128 CSHA512_new CSHA512_Write CSHA512_Finalize fips_sha512
proof unfold_locales
  fix buf dats
  assume "length (buf :: bytes) = 128"
  then show "CSHA512_Finalize (foldl CSHA512_Write (CSHA512_new buf) dats) = fips_sha512 (concat dats)"
    unfolding CSHA512_new_def
    using CSHA512_Finalize_absorbed [OF sha512_hasher.writes_absorbed [OF sha512_hasher.new_absorbed]]
    by simp
qed

definition hmac_key :: "(bytes \<Rightarrow> bytes) \<Rightarrow> nat \<Rightarrow> bytes \<Rightarrow> bytes" where
  "hmac_key H blk key =
     (let k = (if length key \<le> blk then key else H key) in k @ replicate (blk - length k) 0)"

definition hmac_of :: "(bytes \<Rightarrow> bytes) \<Rightarrow> nat \<Rightarrow> bytes \<Rightarrow> bytes \<Rightarrow> bytes" where
  "hmac_of H blk key msg =
     H (xor_pad 0x5c (hmac_key H blk key) @ H (xor_pad 0x36 (hmac_key H blk key) @ msg))"

lemma xor_pad_twice: "xor_pad 0x6A (xor_pad 0x5c k) = xor_pad 0x36 k"
proof -
  have "(0x6A :: byte) = 0x5c XOR 0x36" by simp
  moreover have "(b XOR x) XOR (x XOR y) = b XOR y" for b x y :: byte
    by (rule bit_word_eqI) (auto simp: bit_xor_iff)
  ultimately have "(b XOR 0x5c) XOR 0x6A = b XOR 0x36" for b :: byte by (simp only:)
  then show ?thesis by (simp only: xor_pad_def map_map comp_def)
qed

lemma length_fips512_compress [simp]: "length (fips512_compress s chunk) = 8"
  by (simp add: fips512_compress_def split: prod.split)

lemma length_fips_sha512 [simp]: "length (fips_sha512 msg) = 64"
  by (simp add: fips_sha512_def length_concat_be_bytes length_compress_blocks [where k = 8]
      sha512_Initialize_def)

lemma CHMAC_Write_inner:
  "hm_inner (foldl CHMAC_SHA256_Write m dats) = foldl CSHA256_Write (hm_inner m) dats"
  "hm_outer (foldl CHMAC_SHA256_Write m dats) = hm_outer m"
  "hm_inner (foldl CHMAC_SHA512_Write m' dats) = foldl CSHA512_Write (hm_inner m') dats"
  "hm_outer (foldl CHMAC_SHA512_Write m' dats) = hm_outer m'"
  by (induction dats arbitrary: m m') (simp_all add: CHMAC_SHA256_Write_def CHMAC_SHA512_Write_def)

lemma CHMAC_SHA256_eq:
  assumes "length buf1 = 64" "length buf2 = 64" "length buf3 = 64"
  shows "CHMAC_SHA256_Finalize (foldl CHMAC_SHA256_Write (CHMAC_SHA256 buf1 buf2 buf3 key) dats)
           = hmac_of fips_sha256 64 key (concat dats)"
proof -
  have "CHMAC_SHA256 buf1 buf2 buf3 key =
      \<lparr> hm_outer = CSHA256_Write (CSHA256_new buf1) (xor_pad 0x5c (hmac_key fips_sha256 64 key)),
        hm_inner = CSHA256_Write (CSHA256_new buf2) (xor_pad 0x36 (hmac_key fips_sha256 64 key)) \<rparr>"
    using assms(3) by (simp add: CHMAC_SHA256_def hmac_key_def Let_def xor_pad_twice sha256_digest.digest_one)
  then show ?thesis
    using assms sha256_digest.nested [of buf1 buf2]
    by (simp add: CHMAC_SHA256_Finalize_def CHMAC_Write_inner hmac_of_def)
qed

lemma CHMAC_SHA512_eq:
  assumes "length buf1 = 128" "length buf2 = 128" "length buf3 = 128"
  shows "CHMAC_SHA512_Finalize (foldl CHMAC_SHA512_Write (CHMAC_SHA512 buf1 buf2 buf3 key) dats)
           = hmac_of fips_sha512 128 key (concat dats)"
proof -
  have "CHMAC_SHA512 buf1 buf2 buf3 key =
      \<lparr> hm_outer = CSHA512_Write (CSHA512_new buf1) (xor_pad 0x5c (hmac_key fips_sha512 128 key)),
        hm_inner = CSHA512_Write (CSHA512_new buf2) (xor_pad 0x36 (hmac_key fips_sha512 128 key)) \<rparr>"
    using assms(3)
    by (simp add: CHMAC_SHA512_def hmac_key_def Let_def xor_pad_twice sha512_digest.digest_one)
  then show ?thesis
    using assms sha512_digest.nested [of buf1 buf2]
    by (simp add: CHMAC_SHA512_Finalize_def CHMAC_Write_inner hmac_of_def)
qed

section \<open>MurmurHash3\<close>

definition ROTL32 :: "u32 \<Rightarrow> nat \<Rightarrow> u32" where
  "ROTL32 x r = push_bit r x OR drop_bit (32 - r) x"

definition murmur_c1 :: u32 where "murmur_c1 = 0xcc9e2d51"
definition murmur_c2 :: u32 where "murmur_c2 = 0x1b873593"

fun murmur_body :: "nat \<Rightarrow> bytes \<Rightarrow> u32 \<Rightarrow> u32" where
  "murmur_body 0 blocks h1 = h1"
| "murmur_body (Suc nblocks) blocks h1 =
     (let k1 = ReadLE32 blocks 0;
          k1 = ROTL32 (k1 * murmur_c1) 15 * murmur_c2;
          h1 = ROTL32 (h1 XOR k1) 13
      in murmur_body nblocks (drop 4 blocks) (h1 * 5 + 0xe6546b64))"

definition murmur_tail :: "bytes \<Rightarrow> u32 \<Rightarrow> u32" where
  "murmur_tail tl4 h1 =
     (let k1 = 0;
          k1 = (if length tl4 \<ge> 3 then k1 XOR push_bit 16 (ucast (tl4 ! 2)) else k1);
          k1 = (if length tl4 \<ge> 2 then k1 XOR push_bit 8 (ucast (tl4 ! 1)) else k1)
      in if length tl4 \<ge> 1
         then h1 XOR (ROTL32 ((k1 XOR ucast (tl4 ! 0)) * murmur_c1) 15 * murmur_c2)
         else h1)"

definition MurmurHash3 :: "u32 \<Rightarrow> bytes \<Rightarrow> u32" where
  "MurmurHash3 nHashSeed vDataToHash =
     (let nblocks = length vDataToHash div 4;
          h1 = murmur_body nblocks vDataToHash nHashSeed;
          h1 = murmur_tail (drop (nblocks * 4) vDataToHash) h1;
          h1 = h1 XOR of_nat (length vDataToHash);
          h1 = (h1 XOR drop_bit 16 h1) * 0x85ebca6b;
          h1 = (h1 XOR drop_bit 13 h1) * 0xc2b2ae35
      in h1 XOR drop_bit 16 h1)"

section \<open>SipHash-2-4\<close>

type_synonym sip_state = "u64 \<times> u64 \<times> u64 \<times> u64"

definition ROTL64 :: "u64 \<Rightarrow> nat \<Rightarrow> u64" where
  "ROTL64 x b = push_bit b x OR drop_bit (64 - b) x"

definition SIPROUND :: "sip_state \<Rightarrow> sip_state" where
  "SIPROUND = (\<lambda>(v0, v1, v2, v3).
     let v0 = v0 + v1; v1 = ROTL64 v1 13; v1 = v1 XOR v0;
         v0 = ROTL64 v0 32;
         v2 = v2 + v3; v3 = ROTL64 v3 16; v3 = v3 XOR v2;
         v0 = v0 + v3; v3 = ROTL64 v3 21; v3 = v3 XOR v0;
         v2 = v2 + v1; v1 = ROTL64 v1 17; v1 = v1 XOR v2;
         v2 = ROTL64 v2 32
     in (v0, v1, v2, v3))"

record CSipHasher =
  sip_v :: sip_state
  sip_tmp :: u64
  sip_count :: nat

definition CSipHasher_new :: "u64 \<Rightarrow> u64 \<Rightarrow> CSipHasher" where
  "CSipHasher_new k0 k1 =
     \<lparr> sip_v = (0x736f6d6570736575 XOR k0, 0x646f72616e646f6d XOR k1,
                0x6c7967656e657261 XOR k0, 0x7465646279746573 XOR k1),
       sip_tmp = 0, sip_count = 0 \<rparr>"

text \<open>The code's \<open>v3 ^= t; SIPROUND; SIPROUND; v0 ^= t\<close>.\<close>

definition sip_absorb :: "u64 \<Rightarrow> sip_state \<Rightarrow> sip_state" where
  "sip_absorb t = (\<lambda>(v0, v1, v2, v3).
     case SIPROUND (SIPROUND (v0, v1, v2, v3 XOR t)) of (v0, v1, v2, v3) \<Rightarrow> (v0 XOR t, v1, v2, v3))"

text \<open>\<open>Write(uint64_t)\<close> asserts that whole words have been written; \<open>None\<close> is the failed assertion.\<close>

definition CSipHasher_Write64 :: "CSipHasher \<Rightarrow> u64 \<Rightarrow> CSipHasher option" where
  "CSipHasher_Write64 h dat =
     (if sip_count h mod 8 = 0
      then Some (h\<lparr> sip_v := sip_absorb dat (sip_v h), sip_count := sip_count h + 8 \<rparr>)
      else None)"

fun sip_write_loop :: "bytes \<Rightarrow> sip_state \<Rightarrow> u64 \<Rightarrow> nat \<Rightarrow> sip_state \<times> u64 \<times> nat" where
  "sip_write_loop [] v t c = (v, t, c)"
| "sip_write_loop (b # dat) v t c =
     (let t = t OR push_bit (8 * (c mod 8)) (ucast b);
          c = c + 1
      in if c mod 8 = 0 then sip_write_loop dat (sip_absorb t v) 0 c
         else sip_write_loop dat v t c)"

definition CSipHasher_Write :: "CSipHasher \<Rightarrow> bytes \<Rightarrow> CSipHasher" where
  "CSipHasher_Write h dat =
     (case sip_write_loop dat (sip_v h) (sip_tmp h) (sip_count h) of (v, t, c) \<Rightarrow>
        h\<lparr> sip_v := v, sip_tmp := t, sip_count := c \<rparr>)"

definition sip_finish :: "u64 \<Rightarrow> sip_state \<Rightarrow> u64" where
  "sip_finish t v =
     (case sip_absorb t v of (v0, v1, v2, v3) \<Rightarrow>
      case SIPROUND (SIPROUND (SIPROUND (SIPROUND (v0, v1, v2 XOR 0xFF, v3)))) of (v0, v1, v2, v3) \<Rightarrow>
        v0 XOR v1 XOR v2 XOR v3)"

definition CSipHasher_Finalize :: "CSipHasher \<Rightarrow> u64" where
  "CSipHasher_Finalize h =
     sip_finish (sip_tmp h OR push_bit 56 (of_nat (sip_count h))) (sip_v h)"

definition GetUint64 :: "uint256 \<Rightarrow> nat \<Rightarrow> u64" where
  "GetUint64 val pos = le_word (take 8 (drop (pos * 8) (le_bytes 32 val)))"

text \<open>The unrolled variants for one hash and for a hash and a number.\<close>

definition SipHashUint256 :: "u64 \<Rightarrow> u64 \<Rightarrow> uint256 \<Rightarrow> u64" where
  "SipHashUint256 k0 k1 val =
     (let d = GetUint64 val 0;
          v0 = 0x736f6d6570736575 XOR k0;
          v1 = 0x646f72616e646f6d XOR k1;
          v2 = 0x6c7967656e657261 XOR k0;
          v3 = 0x7465646279746573 XOR k1 XOR d;
          (v0, v1, v2, v3) = SIPROUND (SIPROUND (v0, v1, v2, v3));
          v0 = v0 XOR d; d = GetUint64 val 1; v3 = v3 XOR d;
          (v0, v1, v2, v3) = SIPROUND (SIPROUND (v0, v1, v2, v3));
          v0 = v0 XOR d; d = GetUint64 val 2; v3 = v3 XOR d;
          (v0, v1, v2, v3) = SIPROUND (SIPROUND (v0, v1, v2, v3));
          v0 = v0 XOR d; d = GetUint64 val 3; v3 = v3 XOR d;
          (v0, v1, v2, v3) = SIPROUND (SIPROUND (v0, v1, v2, v3));
          v0 = v0 XOR d; v3 = v3 XOR push_bit 59 4;
          (v0, v1, v2, v3) = SIPROUND (SIPROUND (v0, v1, v2, v3));
          v0 = v0 XOR push_bit 59 4; v2 = v2 XOR 0xFF;
          (v0, v1, v2, v3) = SIPROUND (SIPROUND (SIPROUND (SIPROUND (v0, v1, v2, v3))))
      in v0 XOR v1 XOR v2 XOR v3)"

definition SipHashUint256Extra :: "u64 \<Rightarrow> u64 \<Rightarrow> uint256 \<Rightarrow> u32 \<Rightarrow> u64" where
  "SipHashUint256Extra k0 k1 val extra =
     (let d = GetUint64 val 0;
          v0 = 0x736f6d6570736575 XOR k0;
          v1 = 0x646f72616e646f6d XOR k1;
          v2 = 0x6c7967656e657261 XOR k0;
          v3 = 0x7465646279746573 XOR k1 XOR d;
          (v0, v1, v2, v3) = SIPROUND (SIPROUND (v0, v1, v2, v3));
          v0 = v0 XOR d; d = GetUint64 val 1; v3 = v3 XOR d;
          (v0, v1, v2, v3) = SIPROUND (SIPROUND (v0, v1, v2, v3));
          v0 = v0 XOR d; d = GetUint64 val 2; v3 = v3 XOR d;
          (v0, v1, v2, v3) = SIPROUND (SIPROUND (v0, v1, v2, v3));
          v0 = v0 XOR d; d = GetUint64 val 3; v3 = v3 XOR d;
          (v0, v1, v2, v3) = SIPROUND (SIPROUND (v0, v1, v2, v3));
          v0 = v0 XOR d; d = push_bit 56 36 OR ucast extra; v3 = v3 XOR d;
          (v0, v1, v2, v3) = SIPROUND (SIPROUND (v0, v1, v2, v3));
          v0 = v0 XOR d; v2 = v2 XOR 0xFF;
          (v0, v1, v2, v3) = SIPROUND (SIPROUND (SIPROUND (SIPROUND (v0, v1, v2, v3))))
      in v0 XOR v1 XOR v2 XOR v3)"

subsection \<open>The streaming hasher computes SipHash-2-4 of the concatenation\<close>

definition sip_blocks :: "bytes \<Rightarrow> u64 list" where
  "sip_blocks m = map (\<lambda>i. le_word (take 8 (drop (8 * i) m))) [0..<length m div 8]"

definition sip_rest :: "bytes \<Rightarrow> bytes" where
  "sip_rest m = drop (8 * (length m div 8)) m"

definition siphash_2_4 :: "u64 \<Rightarrow> u64 \<Rightarrow> bytes \<Rightarrow> u64" where
  "siphash_2_4 k0 k1 m =
     sip_finish (le_word (sip_rest m) OR push_bit 56 (of_nat (length m)))
       (fold sip_absorb (sip_blocks m) (sip_v (CSipHasher_new k0 k1)))"

lemma le_word_append: "le_word (xs @ ys) = le_word xs OR push_bit (8 * length xs) (le_word ys)"
  by (induction xs) (simp_all add: push_bit_or or.assoc)

lemma sip_snoc_full:
  assumes "Suc (length m) mod 8 = 0"
  shows "sip_blocks (m @ [b]) = sip_blocks m @ [le_word (sip_rest m @ [b])]"
    and "sip_rest (m @ [b]) = []"
proof -
  obtain k where m: "length m = 8 * k + 7"
  proof
    show "length m = 8 * (length m div 8) + 7" using assms by presburger
  qed
  then have d: "length m div 8 = k" "Suc (length m) div 8 = Suc k" by simp_all
  have "take 8 (drop (8 * i) (m @ [b])) = take 8 (drop (8 * i) m)" if "i < k" for i
    using that m by simp
  then show "sip_blocks (m @ [b]) = sip_blocks m @ [le_word (sip_rest m @ [b])]"
    using m by (simp add: sip_blocks_def sip_rest_def d)
  show "sip_rest (m @ [b]) = []" using m d by (simp add: sip_rest_def)
qed

lemma sip_snoc_part:
  assumes "Suc (length m) mod 8 \<noteq> 0"
  shows "sip_blocks (m @ [b]) = sip_blocks m" and "sip_rest (m @ [b]) = sip_rest m @ [b]"
proof -
  have d: "Suc (length m) div 8 = length m div 8" using assms by presburger
  have "take 8 (drop (8 * i) (m @ [b])) = take 8 (drop (8 * i) m)" if "i < length m div 8" for i
    using that by simp
  then show "sip_blocks (m @ [b]) = sip_blocks m" by (simp add: sip_blocks_def d)
  show "sip_rest (m @ [b]) = sip_rest m @ [b]" by (simp add: sip_rest_def d)
qed

lemma length_sip_rest: "length (sip_rest m) = length m mod 8"
  by (simp add: sip_rest_def minus_mult_div_eq_mod)

lemma sip_write_loop_append:
  "sip_write_loop (xs @ ys) v t c =
     (case sip_write_loop xs v t c of (v, t, c) \<Rightarrow> sip_write_loop ys v t c)"
  by (induction xs arbitrary: v t c) (simp_all add: Let_def)

lemma sip_write_loop_eq:
  "sip_write_loop m v 0 0 = (fold sip_absorb (sip_blocks m) v, le_word (sip_rest m), length m)"
proof (induction m rule: rev_induct)
  case Nil
  then show ?case by (simp add: sip_blocks_def sip_rest_def)
next
  case (snoc b m)
  then show ?case
    by (cases "Suc (length m) mod 8 = 0")
       (simp_all add: sip_write_loop_append sip_snoc_full sip_snoc_part Let_def le_word_append
          length_sip_rest)
qed

lemma CSipHasher_writes:
  "foldl CSipHasher_Write (CSipHasher_new k0 k1) dats
     = CSipHasher_Write (CSipHasher_new k0 k1) (concat dats)"
proof (induction dats rule: rev_induct)
  case Nil
  then show ?case by (simp add: CSipHasher_Write_def)
next
  case (snoc d dats)
  then show ?case
    by (simp add: CSipHasher_Write_def sip_write_loop_append split: prod.split)
qed

lemma CSipHasher_eq:
  "CSipHasher_Finalize (CSipHasher_Write (CSipHasher_new k0 k1) m) = siphash_2_4 k0 k1 m"
  using sip_write_loop_eq [of m "sip_v (CSipHasher_new k0 k1)"]
  by (simp add: CSipHasher_Finalize_def CSipHasher_Write_def siphash_2_4_def CSipHasher_new_def)

lemma SipHashUint256_chain:
  "SipHashUint256 k0 k1 val = sip_finish (push_bit 59 4)
     (sip_absorb (GetUint64 val 3) (sip_absorb (GetUint64 val 2) (sip_absorb (GetUint64 val 1)
       (sip_absorb (GetUint64 val 0) (sip_v (CSipHasher_new k0 k1))))))"
  by (simp add: SipHashUint256_def Let_def sip_finish_def sip_absorb_def CSipHasher_new_def
      xor.assoc split: prod.split)

lemma SipHashUint256Extra_chain:
  "SipHashUint256Extra k0 k1 val extra = sip_finish (push_bit 56 36 OR ucast extra)
     (sip_absorb (GetUint64 val 3) (sip_absorb (GetUint64 val 2) (sip_absorb (GetUint64 val 1)
       (sip_absorb (GetUint64 val 0) (sip_v (CSipHasher_new k0 k1))))))"
  by (simp add: SipHashUint256Extra_def Let_def sip_finish_def sip_absorb_def CSipHasher_new_def
      xor.assoc split: prod.split)

lemma sip_blocks_uint256:
  assumes "length xs < 8"
  shows "sip_blocks (le_bytes 32 val @ xs) = [GetUint64 val 0, GetUint64 val 1, GetUint64 val 2, GetUint64 val 3]"
    and "sip_rest (le_bytes 32 val @ xs) = xs"
proof -
  have d: "(32 + length xs) div 8 = 4" using assms by simp
  have r: "[0..<4] = [0, 1, 2, 3 :: nat]" by code_simp
  show "sip_blocks (le_bytes 32 val @ xs) = [GetUint64 val 0, GetUint64 val 1, GetUint64 val 2, GetUint64 val 3]"
    by (simp add: sip_blocks_def GetUint64_def d r del: le_bytes.simps)
  show "sip_rest (le_bytes 32 val @ xs) = xs"
    by (simp add: sip_rest_def d del: le_bytes.simps)
qed

lemma le_word_ucast: "le_word (le_bytes 4 (w :: u32)) = (ucast w :: u64)"
proof (rule bit_word_eqI)
  fix i
  assume "i < LENGTH(64)"
  moreover have "i div 8 < 4 \<longleftrightarrow> i < 32" by auto
  ultimately show "bit (le_word (le_bytes 4 w) :: u64) i = bit (ucast w :: u64) i"
    using bit_imp_le_length [of w i]
    by (cases "i < 32") (auto simp: bit_le_word bit_le_bytes_nth bit_simps simp del: le_bytes.simps)
qed

text \<open>The unrolled SipHashUint256 and SipHashUint256Extra are SipHash-2-4 of the hash's 32
  bytes, respectively of the hash followed by the 4 bytes of the number, and the streaming
  CSipHasher computes the same function of the concatenation of whatever is written to it.\<close>

theorem siphash_equivalence:
  "SipHashUint256 k0 k1 val = siphash_2_4 k0 k1 (le_bytes 32 val)
   \<and> SipHashUint256Extra k0 k1 val extra = siphash_2_4 k0 k1 (le_bytes 32 val @ le_bytes 4 extra)
   \<and> CSipHasher_Finalize (foldl CSipHasher_Write (CSipHasher_new k0 k1) dats)
       = siphash_2_4 k0 k1 (concat dats)"
  using sip_blocks_uint256 [of "[]" val] sip_blocks_uint256 [of "le_bytes 4 extra" val]
  by (simp add: SipHashUint256_chain SipHashUint256Extra_chain siphash_2_4_def CSipHasher_writes
      CSipHasher_eq le_word_ucast or.commute del: le_bytes.simps)

section \<open>What the hash functions guarantee\<close>

text \<open>
  C26: the hashes of \<open>hash.h\<close> are the double SHA-256 of the concatenation of what is hashed, however it
  is split into writes, and \<open>Hash160\<close> is RIPEMD-160 of SHA-256.
\<close>

theorem hash_digests:
  "Hash p = sha256d p \<and> Hash_2 p q = sha256d (p @ q) \<and> Hash_3 p q r = sha256d (p @ q @ r)
   \<and> CHashWriter_GetHash writes = sha256d (concat writes) \<and> Hash160 p = hash160 p"
  by (simp add: Hash_eq CHashWriter_eq Hash160_eq)

text \<open>
  C40: \<open>CHMAC_SHA256\<close> and \<open>CHMAC_SHA512\<close> compute HMAC, as its standard defines it, of the concatenation of
  the writes, for keys shorter and longer than a block and whatever the objects' buffers held before.
\<close>

theorem CHMAC_digests:
  assumes "length b1 = 64" "length b2 = 64" "length b3 = 64"
    and "length c1 = 128" "length c2 = 128" "length c3 = 128"
  shows "CHMAC_SHA256_Finalize (foldl CHMAC_SHA256_Write (CHMAC_SHA256 b1 b2 b3 key) dats)
           = hmac_of fips_sha256 64 key (concat dats)
       \<and> CHMAC_SHA512_Finalize (foldl CHMAC_SHA512_Write (CHMAC_SHA512 c1 c2 c3 key) dats)
           = hmac_of fips_sha512 128 key (concat dats)"
  using CHMAC_SHA256_eq [OF assms(1-3)] CHMAC_SHA512_eq [OF assms(4-6)] by simp

theorem CHMAC_digests_witness:
  "CHMAC_SHA256_Finalize (foldl CHMAC_SHA256_Write
       (CHMAC_SHA256 (replicate 64 1) (replicate 64 2) (replicate 64 3) (replicate 70 7)) [[1], [2, 3]])
     = hmac_of fips_sha256 64 (replicate 70 7) [1, 2, 3]"
  using CHMAC_digests [of "replicate 64 1" "replicate 64 2" "replicate 64 3" "replicate 128 1"
      "replicate 128 2" "replicate 128 3" "replicate 70 7" "[[1], [2, 3]]"]
  by (simp add: numeral_nat del: replicate_Suc)

lemma tx_bytes_strip: "tx_bytes False (strip_witness tx) = tx_bytes False tx"
proof -
  have "ser_txin (strip_in i) = ser_txin i" for i by (simp add: ser_txin_def strip_in_def)
  then show ?thesis by (simp add: tx_bytes_def strip_witness_def ser_vector_def comp_def)
qed

text \<open>
  C27: the transaction identifier is the double SHA-256 of the serialization without witnesses and
  the witness hash that of the full one. The identifier ignores exactly the witnesses: two
  well-formed transactions have the same preimage if and only if they differ in witnesses only, so
  two transactions of the same identifier that differ otherwise are a collision of the hash.
\<close>

theorem txid_preimage:
  assumes "wf_tx tx" "wf_tx tx'"
  shows "ComputeHash tx = Inr (sha256d (tx_bytes False tx))
       \<and> GetWitnessHash tx = Inr (sha256d (tx_bytes (HasWitness tx) tx))
       \<and> (tx_bytes False tx = tx_bytes False tx' \<longleftrightarrow> strip_witness tx = strip_witness tx')"
proof (intro conjI)
  have ext: "wf_ext (extData tx)" using assms(1) by (simp add: wf_tx_def)
  show hash: "ComputeHash tx = Inr (sha256d (tx_bytes False tx))"
    by (simp add: ComputeHash_def SerializeTransaction_wf [OF ext] SerializeHash_eq)
  show "GetWitnessHash tx = Inr (sha256d (tx_bytes (HasWitness tx) tx))"
    using hash by (simp add: GetWitnessHash_def SerializeTransaction_wf [OF ext] SerializeHash_eq)
  have ext0: "extData CTransaction_default = CExtData_default" by (simp add: CTransaction_default_def)
  show "tx_bytes False tx = tx_bytes False tx' \<longleftrightarrow> strip_witness tx = strip_witness tx'"
    using Unserialize_basic [OF assms(1) ext0, of False "[]"]
      Unserialize_basic [OF assms(2) ext0, of False "[]"] tx_bytes_strip [of tx] tx_bytes_strip [of tx']
    by auto
qed

theorem txid_preimage_witness:
  "ComputeHash CTransaction_default = Inr (sha256d (tx_bytes False CTransaction_default))"
  using txid_preimage [of CTransaction_default CTransaction_default]
  by (simp add: CTransaction_default_def wf_tx_def wf_ext_def CExtData_default_def extdata_type_defs)

end
