(* ===== verification/Merkle.thy ===== *)
theory Merkle
  imports Hash
begin

text \<open>
  \<open>consensus/merkle.cpp\<close>: the constant-space computation of a Merkle root, of the branch of a leaf, and
  of the flag that warns of a duplicated sub-tree; what a branch proves; and which trees share a root.
\<close>

section \<open>The computation\<close>

definition hash_nodes :: "uint256 \<Rightarrow> uint256 \<Rightarrow> uint256" where
  "hash_nodes left right = Hash_2 (ser_uint256 left) (ser_uint256 right)"

text \<open>What the two loops that climb the tree do to the branch, when one is asked for, at a level.\<close>

definition branch_step ::
  "bool \<Rightarrow> uint256 list \<Rightarrow> int \<Rightarrow> nat \<Rightarrow> uint256 \<Rightarrow> bool \<times> uint256 list \<Rightarrow> bool \<times> uint256 list" where
  "branch_step pbranch inner matchlevel level h m =
     (case m of (matchh, branch) \<Rightarrow>
        if pbranch
        then if matchh then (matchh, branch @ [inner ! level])
             else if matchlevel = int level then (True, branch @ [h])
             else (matchh, branch)
        else (matchh, branch))"

text \<open>
  The loop over the low zero bits of \<open>count\<close>. A shift by more than 31 bits is undefined in the code; the
  loop stops there, which a non-zero \<open>count\<close> never reaches.
\<close>

function climb ::
  "bool \<Rightarrow> uint256 list \<Rightarrow> int \<Rightarrow> u32 \<Rightarrow> nat \<Rightarrow> uint256 \<Rightarrow> bool \<Rightarrow> bool \<times> uint256 list
     \<Rightarrow> nat \<times> uint256 \<times> bool \<times> bool \<times> uint256 list" where
  "climb pbranch inner matchlevel count level h mutated m =
     (if level \<ge> 32 \<or> bit count level then (level, h, mutated, m)
      else climb pbranch inner matchlevel count (level + 1) (hash_nodes (inner ! level) h)
             (mutated \<or> inner ! level = h) (branch_step pbranch inner matchlevel level h m))"
  by pat_completeness auto
termination
  by (relation "measure (\<lambda>(p, i, ml, c, level, h, mu, m). 32 - level)") auto

declare climb.simps [simp del]

record merkle_state =
  ms_count :: u32
  ms_inner :: "uint256 list"
  ms_matchlevel :: int
  ms_mutated :: bool
  ms_branch :: "uint256 list"

definition add_leaf :: "bool \<Rightarrow> u32 \<Rightarrow> merkle_state \<Rightarrow> uint256 \<Rightarrow> merkle_state" where
  "add_leaf pbranch branchpos s leaf =
     (let count = ms_count s + 1 in
      case climb pbranch (ms_inner s) (ms_matchlevel s) count 0 leaf (ms_mutated s)
             (ms_count s = branchpos, ms_branch s) of
        (level, h, mutated, matchh, branch) \<Rightarrow>
          \<lparr> ms_count = count, ms_inner = (ms_inner s)[level := h],
            ms_matchlevel = (if matchh then int level else ms_matchlevel s),
            ms_mutated = mutated, ms_branch = branch \<rparr>)"

text \<open>The level of the lowest bit that is set.\<close>

function first_level :: "u32 \<Rightarrow> nat \<Rightarrow> nat" where
  "first_level count level = (if level \<ge> 32 \<or> bit count level then level else first_level count (level + 1))"
  by pat_completeness auto
termination
  by (relation "measure (\<lambda>(c, level). 32 - level)") auto

declare first_level.simps [simp del]

text \<open>
  The final sweep over the rightmost branch. The loop ends when \<open>count\<close> is a power of two; with more
  than \<open>2 ^ 31\<close> leaves \<open>count\<close> wraps to zero and the code's shifts are undefined.
\<close>

function sweep ::
  "bool \<Rightarrow> uint256 list \<Rightarrow> int \<Rightarrow> u32 \<Rightarrow> nat \<Rightarrow> uint256 \<Rightarrow> bool \<times> uint256 list \<Rightarrow> uint256 \<times> uint256 list" where
  "sweep pbranch inner matchlevel count level h m =
     (if level \<ge> 32 \<or> count = push_bit level 1 then (h, snd m)
      else let m1 = (fst m, if pbranch \<and> fst m then snd m @ [h] else snd m);
               count' = count + push_bit level 1
           in case climb pbranch inner matchlevel count' (level + 1) (hash_nodes h h) False m1 of
                (level', h', _, m') \<Rightarrow> sweep pbranch inner matchlevel count' level' h' m')"
  by pat_completeness auto

lemma climb_level: "level \<le> fst (climb p i ml count level h mu m)"
proof (induction p i ml count level h mu m rule: climb.induct)
  case (1 p i ml count level h mu m)
  then show ?case by (subst climb.simps) fastforce
qed

lemma climb_level_less:
  "(level', y) = climb p i ml count (Suc level) h mu m \<Longrightarrow> \<not> 32 \<le> level \<Longrightarrow> 32 - level' < 32 - level"
  using climb_level [of "Suc level" p i ml count h mu m] by (auto dest: sym)

termination sweep
  by (relation "measure (\<lambda>(p, i, ml, c, level, h, m). 32 - level)")
    (auto elim: climb_level_less)

declare sweep.simps [simp del]

definition MerkleComputation :: "uint256 list \<Rightarrow> u32 \<Rightarrow> bool \<Rightarrow> uint256 \<times> bool \<times> uint256 list" where
  "MerkleComputation leaves branchpos pbranch =
     (if leaves = [] then (0, False, [])
      else let s = foldl (add_leaf pbranch branchpos)
                     \<lparr> ms_count = 0, ms_inner = replicate 32 0, ms_matchlevel = -1, ms_mutated = False, ms_branch = [] \<rparr>
                     leaves;
               level = first_level (ms_count s) 0;
               (h, branch) = sweep pbranch (ms_inner s) (ms_matchlevel s) (ms_count s) level (ms_inner s ! level)
                 (ms_matchlevel s = int level, ms_branch s)
           in (h, ms_mutated s, branch))"

definition ComputeMerkleRoot :: "uint256 list \<Rightarrow> uint256 \<times> bool" where
  "ComputeMerkleRoot leaves = (case MerkleComputation leaves (- 1) False of (root, mutated, _) \<Rightarrow> (root, mutated))"

definition ComputeMerkleBranch :: "uint256 list \<Rightarrow> u32 \<Rightarrow> uint256 list" where
  "ComputeMerkleBranch leaves position = (case MerkleComputation leaves position True of (_, _, branch) \<Rightarrow> branch)"

primrec branch_root :: "uint256 \<Rightarrow> u32 \<Rightarrow> uint256 list \<Rightarrow> uint256" where
  "branch_root hash nIndex [] = hash"
| "branch_root hash nIndex (it # vMerkleBranch) =
     branch_root (if nIndex AND 1 \<noteq> 0 then Hash_2 (ser_uint256 it) (ser_uint256 hash)
                  else Hash_2 (ser_uint256 hash) (ser_uint256 it)) (drop_bit 1 nIndex) vMerkleBranch"

definition ComputeMerkleRootFromBranch :: "uint256 \<Rightarrow> uint256 list \<Rightarrow> u32 \<Rightarrow> uint256" where
  "ComputeMerkleRootFromBranch leaf vMerkleBranch nIndex = branch_root leaf nIndex vMerkleBranch"

section \<open>Trees\<close>

text \<open>
  The root of the tree of height \<open>d\<close> over at most \<open>2 ^ d\<close> leaves, whether two full sub-trees next to each
  other have the same root, and the siblings on the way from a leaf to the root.
\<close>

fun tree_root :: "nat \<Rightarrow> uint256 list \<Rightarrow> uint256" where
  "tree_root 0 xs = hd xs"
| "tree_root (Suc d) xs =
     (let l = tree_root d (take (2 ^ d) xs); r = drop (2 ^ d) xs
      in hash_nodes l (if r = [] then l else tree_root d r))"

fun tree_mutated :: "nat \<Rightarrow> uint256 list \<Rightarrow> bool" where
  "tree_mutated 0 xs = False"
| "tree_mutated (Suc d) xs =
     (let l = take (2 ^ d) xs; r = drop (2 ^ d) xs
      in tree_mutated d l \<or> tree_mutated d r \<or> length r = 2 ^ d \<and> tree_root d l = tree_root d r)"

fun tree_branch :: "nat \<Rightarrow> uint256 list \<Rightarrow> nat \<Rightarrow> uint256 list" where
  "tree_branch 0 xs pos = []"
| "tree_branch (Suc d) xs pos =
     (let l = take (2 ^ d) xs; r = drop (2 ^ d) xs
      in if pos < 2 ^ d then tree_branch d l pos @ [tree_root d (if r = [] then l else r)]
         else tree_branch d r (pos - 2 ^ d) @ [tree_root d l])"

text \<open>The height of the smallest tree with room for \<open>n\<close> leaves.\<close>

definition tree_height :: "nat \<Rightarrow> nat" where
  "tree_height n = (LEAST d. n \<le> 2 ^ d)"

text \<open>The leaves below the \<open>j\<close>-th node of a level.\<close>

definition subtree :: "uint256 list \<Rightarrow> nat \<Rightarrow> nat \<Rightarrow> uint256 list" where
  "subtree xs l j = take (2 ^ l) (drop (j * 2 ^ l) xs)"

abbreviation node :: "uint256 list \<Rightarrow> nat \<Rightarrow> nat \<Rightarrow> uint256" where
  "node xs l j \<equiv> tree_root l (subtree xs l j)"

abbreviation path :: "uint256 list \<Rightarrow> nat \<Rightarrow> nat \<Rightarrow> uint256 list" where
  "path xs l p \<equiv> tree_branch l (subtree xs l (p div 2 ^ l)) (p mod 2 ^ l)"

lemma subtree_halves:
  "take (2 ^ l) (subtree xs (Suc l) j) = subtree xs l (2 * j)"
  "drop (2 ^ l) (subtree xs (Suc l) j) = subtree xs l (2 * j + 1)"
  by (simp_all add: subtree_def drop_take min_def algebra_simps)

lemma subtree_eq_Nil: "subtree xs l j = [] \<longleftrightarrow> length xs \<le> j * 2 ^ l"
  by (simp add: subtree_def)

lemma node_Suc:
  "node xs (Suc l) j = hash_nodes (node xs l (2 * j))
     (if length xs \<le> (2 * j + 1) * 2 ^ l then node xs l (2 * j) else node xs l (2 * j + 1))"
  using subtree_eq_Nil [of xs l "2 * j + 1"] by (simp add: subtree_halves Let_def)

lemma path_Suc:
  "path xs (Suc l) p = path xs l p @
     [if odd (p div 2 ^ l) then node xs l (p div 2 ^ l - 1)
      else if length xs \<le> (p div 2 ^ l + 1) * 2 ^ l then node xs l (p div 2 ^ l)
      else node xs l (p div 2 ^ l + 1)]"
proof -
  define q where "q = p div 2 ^ l"
  have p: "p div 2 ^ Suc l = q div 2" "p mod 2 ^ Suc l = p mod 2 ^ l + 2 ^ l * (q mod 2)"
    using div_mult2_eq [of p "2 ^ l" 2] mod_mult2_eq [of p "2 ^ l" 2] by (simp_all add: q_def mult.commute)
  have lt: "p mod 2 ^ l < 2 ^ l" by simp
  show ?thesis
  proof (cases "even q")
    case True
    then have "2 * (q div 2) = q" "q mod 2 = 0" by simp_all
    with p lt True show ?thesis
      using subtree_eq_Nil [of xs l "q + 1"] by (simp add: subtree_halves Let_def q_def [symmetric] del: div_mult_self1)
  next
    case False
    then have "2 * (q div 2) = q - 1" "q mod 2 = 1" "Suc (q - 1) = q" by presburger+
    with p lt False show ?thesis by (simp add: subtree_halves Let_def q_def [symmetric])
  qed
qed

lemma count_bit: "l < 32 \<Longrightarrow> bit (of_nat c :: u32) l \<longleftrightarrow> odd (c div 2 ^ l)"
  by (simp add: bit_of_nat_iff bit_iff_odd [of c])

definition inner_ok :: "uint256 list \<Rightarrow> nat \<Rightarrow> uint256 list \<Rightarrow> bool" where
  "inner_ok xs c inner \<longleftrightarrow> length inner = 32 \<and>
     (\<forall>l < 32. odd (c div 2 ^ l) \<longrightarrow> inner ! l = node xs l (c div 2 ^ l - 1))"

text \<open>
  Where the leaf at \<open>p\<close> is: below the node that is being combined, below a node that is stored, or not
  yet seen.
\<close>

definition stored :: "uint256 list \<Rightarrow> nat \<Rightarrow> nat \<Rightarrow> int \<Rightarrow> nat \<Rightarrow> uint256 list \<Rightarrow> bool" where
  "stored xs p c matchlevel l branch \<longleftrightarrow>
     (if p < c
      then \<exists>m \<ge> l. matchlevel = int m \<and> odd (c div 2 ^ m) \<and> p div 2 ^ m = c div 2 ^ m - 1 \<and> branch = path xs m p
      else matchlevel = - 1 \<and> branch = [])"

definition match_ok :: "uint256 list \<Rightarrow> nat \<Rightarrow> nat \<Rightarrow> int \<Rightarrow> nat \<Rightarrow> nat \<Rightarrow> bool \<times> uint256 list \<Rightarrow> bool" where
  "match_ok xs p c matchlevel l k m \<longleftrightarrow>
     (if fst m then p div 2 ^ l = k - 1 \<and> snd m = path xs l p else p \<noteq> c \<and> stored xs p c matchlevel l (snd m))"

lemma branch_step_ok:
  assumes "match_ok xs p c ml l (2 * q) m" "0 < q" "c div 2 ^ l = 2 * q - 1" "(2 * q - 1) * 2 ^ l < length xs"
    and "inner_ok xs c inner" "l < 32"
  shows "match_ok xs p c ml (Suc l) q (branch_step True inner ml l (node xs l (2 * q - 1)) m)"
proof -
  have pred: "odd (2 * q - 1)" "(2 * q - 1) div 2 = q - 1" "2 * q - 1 - 1 = 2 * q - 2"
    "even (2 * q - 2)" "(2 * q - 2) div 2 = q - 1" "2 * q - 2 + 1 = 2 * q - 1"
    using assms(2) by presburger+
  have inner: "inner ! l = node xs l (2 * q - 2)"
    using assms(3,5,6) pred(1,3) by (simp add: inner_ok_def)
  obtain matchh branch where m: "m = (matchh, branch)" by (cases m)
  have half: "p div 2 ^ Suc l = p div 2 ^ l div 2" using div_mult2_eq [of p "2 ^ l" 2] by (simp add: mult.commute)
  consider "matchh" | "\<not> matchh" "ml = int l" "p < c" | "\<not> matchh" "ml \<noteq> int l" 
    using assms(1) unfolding m match_ok_def stored_def by (cases "p < c") auto
  then show ?thesis
  proof cases
    case 1
    with assms(1) m have "p div 2 ^ l = 2 * q - 1" "branch = path xs l p" by (simp_all add: match_ok_def)
    then show ?thesis
      using 1 half pred path_Suc [of l xs p] by (simp add: m branch_step_def match_ok_def inner del: tree_branch.simps power_Suc)
  next
    case 2
    with assms(1,3) m have p: "p div 2 ^ l = 2 * q - 2" and "branch = path xs l p"
      by (auto simp: match_ok_def stored_def)
    then show ?thesis
      using 2 half assms(4) pred path_Suc [of l xs p] by (simp add: m branch_step_def match_ok_def del: tree_branch.simps power_Suc)
  next
    case 3
    have "p \<noteq> c" "stored xs p c ml (Suc l) branch"
      using 3 assms(1) m by (auto simp: match_ok_def stored_def Suc_le_eq le_neq_implies_less)
    with 3 show ?thesis by (simp add: m branch_step_def match_ok_def)
  qed
qed

text \<open>The sibling pairs of full nodes with the same hash.\<close>

definition twins :: "uint256 list \<Rightarrow> nat \<Rightarrow> nat \<Rightarrow> bool" where
  "twins xs l j \<longleftrightarrow> node xs l (2 * j) = node xs l (2 * j + 1)"

text \<open>What holds when a loop that climbs reaches level \<open>l\<close>, with the \<open>k\<close>-th node of it in hand.\<close>

definition climb_at ::
  "uint256 list \<Rightarrow> bool \<Rightarrow> nat \<Rightarrow> nat \<Rightarrow> int \<Rightarrow> nat \<Rightarrow> nat \<Rightarrow> uint256 \<Rightarrow> bool \<times> uint256 list \<Rightarrow> bool" where
  "climb_at xs pb p c ml l k h m \<longleftrightarrow>
     0 < k \<and> c div 2 ^ l = k - 1 \<and> (k - 1) * 2 ^ l < length xs \<and> h = node xs l (k - 1) \<and>
     (pb \<longrightarrow> match_ok xs p c ml l k m)"

lemma climb_at_Suc:
  assumes "climb_at xs pb p c ml l (2 * q) h m" "inner_ok xs c inner" "l < 32"
  shows "climb_at xs pb p c ml (Suc l) q (hash_nodes (inner ! l) h) (branch_step pb inner ml l h m)"
    and "inner ! l = h \<longleftrightarrow> twins xs l (q - 1)"
proof -
  from assms(1) have q: "0 < q" and c: "c div 2 ^ l = 2 * q - 1" and len: "(2 * q - 1) * 2 ^ l < length xs"
    and h: "h = node xs l (2 * q - 1)" by (simp_all add: climb_at_def)
  have pred: "odd (2 * q - 1)" "(2 * q - 1) div 2 = q - 1" "2 * q - 1 - 1 = 2 * (q - 1)" "2 * (q - 1) + 1 = 2 * q - 1"
    using q by presburger+
  have inner: "inner ! l = node xs l (2 * (q - 1))"
    using c assms(2,3) pred(1,3) by (simp add: inner_ok_def)
  show "inner ! l = h \<longleftrightarrow> twins xs l (q - 1)" unfolding twins_def inner h pred(4) ..
  have "c div 2 ^ Suc l = q - 1"
    using div_mult2_eq [of c "2 ^ l" 2] c pred(2) by (simp add: mult.commute)
  moreover have "(q - 1) * 2 ^ Suc l < length xs"
    using len pred(3,4) by (simp add: algebra_simps)
  moreover have "hash_nodes (inner ! l) h = node xs (Suc l) (q - 1)"
    using node_Suc [of l xs "q - 1"] len unfolding pred(4) by (simp add: inner h del: tree_root.simps)
  moreover have "pb \<longrightarrow> match_ok xs p c ml (Suc l) q (branch_step pb inner ml l h m)"
    using branch_step_ok [OF _ q c len assms(2,3)] assms(1) h by (auto simp: climb_at_def)
  ultimately show "climb_at xs pb p c ml (Suc l) q (hash_nodes (inner ! l) h) (branch_step pb inner ml l h m)"
    using q by (simp add: climb_at_def del: power_Suc tree_root.simps)
qed

lemma climb_ok:
  assumes "climb_at xs pb p c ml l k h m" "inner_ok xs c inner" "k * 2 ^ l < 2 ^ 32" "count = of_nat (k * 2 ^ l)"
  obtains l' k' h' mu' m' where "climb pb inner ml count l h mu m = (l', h', mu', m')"
    "climb_at xs pb p c ml l' k' h' m'" "odd k'" "k' * 2 ^ l' = k * 2 ^ l" "l \<le> l'" "l' < 32"
    "mu' \<longleftrightarrow> mu \<or> (\<exists>i. l \<le> i \<and> i < l' \<and> twins xs i (k * 2 ^ l div 2 ^ Suc i - 1))"
  using assms
proof (induction k arbitrary: l h mu m thesis rule: less_induct)
  case (less k)
  have "0 < k" using less.prems(2) by (simp add: climb_at_def)
  have "(2 :: nat) ^ l < 2 ^ 32" using less.prems(4) \<open>0 < k\<close>
    by (metis mult.commute mult_le_mono2 nat_mult_1_right One_nat_def Suc_leI order_le_less_trans)
  then have l: "l < 32" using power_less_imp_less_exp [of "2 :: nat" l 32] by simp
  have bit: "bit count l \<longleftrightarrow> odd k" using less.prems(5) l by (simp add: count_bit del: of_nat_mult)
  show ?case
  proof (cases "odd k")
    case True
    then have "climb pb inner ml count l h mu m = (l, h, mu, m)" by (subst climb.simps) (simp add: bit)
    from less.prems(1) [OF this less.prems(2) True refl order_refl l] show ?thesis by (meson leD)
  next
    case False
    then obtain q where k: "k = 2 * q" by auto
    note up = climb_at_Suc [OF less.prems(2) [unfolded k] less.prems(3) l]
    have "q < k" using k \<open>0 < k\<close> by simp
    have eq: "q * 2 ^ Suc l = k * 2 ^ l" by (simp add: k)
    let ?mu = "mu \<or> inner ! l = h"
    obtain l' k' h' mu' m' where rec: "climb pb inner ml count (Suc l) (hash_nodes (inner ! l) h) ?mu
          (branch_step pb inner ml l h m) = (l', h', mu', m')"
      and at: "climb_at xs pb p c ml l' k' h' m'" "odd k'" "k' * 2 ^ l' = q * 2 ^ Suc l" "Suc l \<le> l'" "l' < 32"
      and mu: "mu' \<longleftrightarrow> ?mu \<or> (\<exists>i. Suc l \<le> i \<and> i < l' \<and> twins xs i (q * 2 ^ Suc l div 2 ^ Suc i - 1))"
      using less.IH [OF \<open>q < k\<close> _ up(1) less.prems(3), of ?mu] less.prems(4,5) unfolding eq by blast
    have "climb pb inner ml count l h mu m = (l', h', mu', m')"
      using rec False l by (subst climb.simps) (simp add: bit)
    moreover have "mu' \<longleftrightarrow> mu \<or> (\<exists>i. l \<le> i \<and> i < l' \<and> twins xs i (k * 2 ^ l div 2 ^ Suc i - 1))"
    proof -
      have "k * 2 ^ l div 2 ^ Suc l = q" by (simp add: k)
      then have "twins xs l (q - 1) = twins xs l (k * 2 ^ l div 2 ^ Suc l - 1)" by simp
      with mu up(2) at(4) show ?thesis unfolding eq
        by (metis Suc_le_eq le_eq_less_or_eq order_refl)
    qed
    ultimately show ?thesis using less.prems(1) at eq by (metis Suc_leD)
  qed
qed

lemma pow2_dvd_odd: "odd (k :: nat) \<Longrightarrow> 2 ^ i dvd k * 2 ^ l \<longleftrightarrow> i \<le> l"
proof
  assume "odd k" "2 ^ i dvd k * 2 ^ l"
  show "i \<le> l"
  proof (rule ccontr)
    assume "\<not> i \<le> l"
    then have "(2 :: nat) ^ Suc l dvd 2 ^ i" by (intro le_imp_power_dvd) simp
    then have "2 ^ Suc l dvd k * 2 ^ l" using \<open>2 ^ i dvd k * 2 ^ l\<close> by (rule dvd_trans)
    then show False using \<open>odd k\<close> by simp
  qed
qed (simp add: le_imp_power_dvd dvd_mult)

text \<open>Counting one more changes the bits below and at the lowest bit that is set, and no other.\<close>

lemma count_up:
  assumes "Suc c = k * 2 ^ l" "odd (k :: nat)"
  shows "i < l \<Longrightarrow> even (Suc c div 2 ^ i)" "Suc c div 2 ^ l = k" "c div 2 ^ l = k - 1"
    "l < i \<Longrightarrow> Suc c div 2 ^ i = c div 2 ^ i"
proof -
  have "0 < k" using assms(2) by (cases k) auto
  show "Suc c div 2 ^ l = k" unfolding assms(1) by simp
  show low: "c div 2 ^ l = k - 1"
  proof (rule div_nat_eqI)
    have "Suc c = 2 ^ l * (k - 1) + 2 ^ l" using assms(1) \<open>0 < k\<close> by (cases k) (simp_all add: mult.commute)
    moreover have "(0 :: nat) < 2 ^ l" by simp
    ultimately show "2 ^ l * (k - 1) \<le> c" "c < 2 ^ l * Suc (k - 1)" by (linarith, simp)
  qed
  show "even (Suc c div 2 ^ i)" if "i < l"
  proof -
    have "(2 :: nat) ^ l = 2 ^ i * 2 ^ (l - i)" using that by (simp flip: power_add)
    then have "Suc c div 2 ^ i = k * 2 ^ (l - i)" unfolding assms(1) by (simp add: ac_simps)
    then show ?thesis using that by simp
  qed
  show "Suc c div 2 ^ i = c div 2 ^ i" if "l < i"
  proof -
    have "(2 :: nat) ^ i = 2 ^ l * (2 * 2 ^ (i - Suc l))" using that by (simp flip: power_Suc power_add)
    then have "n div 2 ^ i = n div 2 ^ l div 2 div 2 ^ (i - Suc l)" for n :: nat by (simp add: div_mult2_eq)
    moreover have "k div 2 = (k - 1) div 2" using assms(2) by presburger
    ultimately show ?thesis using low \<open>Suc c div 2 ^ l = k\<close> by simp
  qed
qed

definition leaves_ok :: "uint256 list \<Rightarrow> bool \<Rightarrow> nat \<Rightarrow> nat \<Rightarrow> merkle_state \<Rightarrow> bool" where
  "leaves_ok xs pb p c s \<longleftrightarrow>
     ms_count s = of_nat c \<and> inner_ok xs c (ms_inner s) \<and>
     (ms_mutated s \<longleftrightarrow> (\<exists>i j. (j + 1) * 2 ^ Suc i \<le> c \<and> twins xs i j)) \<and>
     (pb \<longrightarrow> stored xs p c (ms_matchlevel s) 0 (ms_branch s))"

lemma inner_ok_update:
  assumes "inner_ok xs c inner" "Suc c = k * 2 ^ l" "odd k" "l < 32"
  shows "inner_ok xs (Suc c) (inner[l := node xs l (k - 1)])"
  using assms count_up [OF assms(2,3)] unfolding inner_ok_def
  by (metis length_list_update linorder_neqE_nat nth_list_update_eq nth_list_update_neq)

lemma stored_update:
  assumes "match_ok xs p c ml l k (matchh, branch)" "Suc c = k * 2 ^ l" "odd k"
  shows "stored xs p (Suc c) (if matchh then int l else ml) 0 branch"
proof (cases matchh)
  case True
  have "0 < k" using assms(3) by (cases k) auto
  have p: "p div 2 ^ l = k - 1" "branch = path xs l p" using assms(1) True by (simp_all add: match_ok_def)
  have "p < Suc c" unfolding assms(2) using p(1) \<open>0 < k\<close>
    by (metis diff_less div_less_iff_less_mult zero_less_one zero_less_numeral zero_less_power)
  with True p count_up(2) [OF assms(2,3)] assms(3) show ?thesis by (auto simp: stored_def)
next
  case False
  then have st: "p \<noteq> c" "stored xs p c ml l branch" using assms(1) by (simp_all add: match_ok_def)
  have up: "Suc c div 2 ^ m = c div 2 ^ m" if "odd (c div 2 ^ m)" "m \<ge> l" for m
    using that count_up(3) [OF assms(2,3)] count_up(4) [OF assms(2,3)] assms(3) by (cases "m = l") auto
  show ?thesis
  proof (cases "p < c")
    case True
    with st False up show ?thesis by (fastforce simp: stored_def)
  next
    case no: False
    with st False show ?thesis by (auto simp: stored_def)
  qed
qed

lemma add_leaf_ok:
  assumes "leaves_ok xs pb p c s" "c < length xs" "length xs < 2 ^ 32" "p < 2 ^ 32"
  shows "leaves_ok xs pb p (Suc c) (add_leaf pb (of_nat p) s (xs ! c))"
proof -
  from assms(1) have s: "ms_count s = of_nat c" "inner_ok xs c (ms_inner s)"
    "ms_mutated s \<longleftrightarrow> (\<exists>i j. (j + 1) * 2 ^ Suc i \<le> c \<and> twins xs i j)"
    "pb \<longrightarrow> stored xs p c (ms_matchlevel s) 0 (ms_branch s)"
    by (auto simp: leaves_ok_def)
  have "ms_count s = of_nat p \<longleftrightarrow> p = c"
    using assms(2-4) by (auto simp: s(1) word_of_nat_eq_iff take_bit_nat_def)
  then have at0: "climb_at xs pb p c (ms_matchlevel s) 0 (Suc c) (xs ! c) (ms_count s = of_nat p, ms_branch s)"
    using assms(2) s(4) by (auto simp: climb_at_def match_ok_def subtree_def hd_drop_conv_nth take_Suc stored_def)
  have "Suc c * 2 ^ 0 < 2 ^ 32" using assms(2,3) by simp
  then obtain l k h mu m
    where res: "climb pb (ms_inner s) (ms_matchlevel s) (of_nat (Suc c * 2 ^ 0)) 0 (xs ! c) (ms_mutated s)
        (ms_count s = of_nat p, ms_branch s) = (l, h, mu, m)"
      and at: "climb_at xs pb p c (ms_matchlevel s) l k h m" and k: "odd k" "k * 2 ^ l = Suc c * 2 ^ 0" "0 \<le> l" "l < 32"
      and mu0: "mu \<longleftrightarrow> ms_mutated s \<or> (\<exists>i. 0 \<le> i \<and> i < l \<and> twins xs i (Suc c * 2 ^ 0 div 2 ^ Suc i - 1))"
    by (rule climb_ok [OF at0 s(2) _ refl, where mu = "ms_mutated s"])
  obtain matchh branch where m: "m = (matchh, branch)" by (cases m)
  have mu: "mu \<longleftrightarrow> ms_mutated s \<or> (\<exists>i < l. twins xs i (Suc c div 2 ^ Suc i - 1))"
    and k: "odd k" "k * 2 ^ l = Suc c" and l: "l < 32"
    using mu0 k by simp_all
  have "(\<exists>i < l. twins xs i (Suc c div 2 ^ Suc i - 1)) \<longleftrightarrow> (\<exists>i j. (j + 1) * 2 ^ Suc i = Suc c \<and> twins xs i j)"
  proof -
    have "(j + 1) * 2 ^ Suc i = Suc c \<longleftrightarrow> i < l \<and> j = Suc c div 2 ^ Suc i - 1" for i j
      using pow2_dvd_odd [OF k(1), of "Suc i" l] unfolding k(2)
      by (metis Suc_le_eq add_diff_cancel_right' dvd_div_mult_self dvd_triv_right nonzero_mult_div_cancel_right
          power_not_zero zero_neq_numeral Suc_eq_plus1 mult_0 nat.simps(3) not0_implies_Suc)
    then show ?thesis by metis
  qed
  with mu s(3) have "mu \<longleftrightarrow> (\<exists>i j. (j + 1) * 2 ^ Suc i \<le> Suc c \<and> twins xs i j)"
    by (metis le_Suc_eq)
  moreover have "inner_ok xs (Suc c) ((ms_inner s)[l := h])"
    using inner_ok_update [OF s(2) k(2) [symmetric] k(1) l] at by (simp add: climb_at_def)
  moreover have "pb \<longrightarrow> stored xs p (Suc c) (if matchh then int l else ms_matchlevel s) 0 branch"
    using stored_update [OF _ k(2) [symmetric] k(1)] at by (auto simp: climb_at_def m)
  ultimately show ?thesis
    using res s(1) by (simp add: add_leaf_def leaves_ok_def m add.commute)
qed

lemma add_leaves_ok:
  assumes "leaves_ok xs pb p c s" "c \<le> length xs" "length xs < 2 ^ 32" "p < 2 ^ 32"
  shows "leaves_ok xs pb p (length xs) (foldl (add_leaf pb (of_nat p)) s (drop c xs))"
  using assms(1,2)
proof (induction "length xs - c" arbitrary: c s)
  case (Suc n)
  then have "c < length xs" by simp
  then have "drop c xs = xs ! c # drop (Suc c) xs" by (simp add: Cons_nth_drop_Suc)
  moreover have "leaves_ok xs pb p (Suc c) (add_leaf pb (of_nat p) s (xs ! c))"
    by (rule add_leaf_ok [OF Suc.prems(1) \<open>c < length xs\<close> assms(3,4)])
  ultimately show ?case using Suc.hyps(1) [of "Suc c"] Suc.hyps(2) \<open>c < length xs\<close> by simp
qed simp

lemma odd_part: "0 < c \<Longrightarrow> \<exists>k l. c = k * 2 ^ l \<and> odd (k :: nat)"
proof (induction c rule: less_induct)
  case (less c)
  show ?case
  proof (cases "even c")
    case True
    then obtain d where "c = 2 * d" by auto
    moreover from this less.IH [of d] less.prems obtain k l where "d = k * 2 ^ l" "odd k" by auto
    ultimately have "c = k * 2 ^ Suc l \<and> odd k" by simp
    then show ?thesis by blast
  next
    case False
    then have "c = c * 2 ^ 0 \<and> odd c" by simp
    then show ?thesis by blast
  qed
qed

lemma first_level_eq:
  assumes "odd k" "l < 32" "i \<le> l"
  shows "first_level (of_nat (k * 2 ^ l)) i = l"
  using assms(3)
proof (induction "l - i" arbitrary: i)
  case 0
  then show ?case using assms by (subst first_level.simps) (simp add: count_bit del: of_nat_mult)
next
  case (Suc n)
  then have "i < l" by simp
  have "k * 2 ^ l = k * 2 ^ (l - Suc i) * 2 * 2 ^ i" using \<open>i < l\<close> by (simp flip: power_Suc power_add add: mult.assoc)
  then have "even (k * 2 ^ l div 2 ^ i)" by (metis dvd_triv_right nonzero_mult_div_cancel_right power_not_zero zero_neq_numeral)
  then show ?case
    using Suc assms(2) \<open>i < l\<close> by (subst first_level.simps) (simp add: count_bit del: of_nat_mult)
qed

definition sweep_at ::
  "uint256 list \<Rightarrow> bool \<Rightarrow> nat \<Rightarrow> int \<Rightarrow> nat \<Rightarrow> nat \<Rightarrow> uint256 \<Rightarrow> bool \<times> uint256 list \<Rightarrow> bool" where
  "sweep_at xs pb p ml l k h m \<longleftrightarrow>
     odd k \<and> (k - 1) * 2 ^ l < length xs \<and> length xs \<le> k * 2 ^ l \<and> k * 2 ^ l \<le> 2 ^ 31 \<and>
     (0 < l \<longrightarrow> 2 ^ (l - 1) < length xs) \<and> h = node xs l (k - 1) \<and>
     (pb \<longrightarrow> p < length xs \<and>
        (if fst m then p div 2 ^ l = k - 1 \<and> snd m = path xs l p
         else stored xs p (length xs) ml (Suc l) (snd m)))"

lemma tree_height_eq:
  assumes "n \<le> 2 ^ l" "0 < l \<longrightarrow> 2 ^ (l - 1) < n"
  shows "tree_height n = l"
  unfolding tree_height_def
proof (rule Least_equality)
  show "n \<le> 2 ^ l" by (rule assms(1))
  fix d assume "n \<le> 2 ^ d"
  show "l \<le> d"
  proof (rule ccontr)
    assume "\<not> l \<le> d"
    then have "(2 :: nat) ^ d \<le> 2 ^ (l - 1)" "0 < l" by (auto intro!: power_increasing)
    with assms(2) \<open>n \<le> 2 ^ d\<close> show False by linarith
  qed
qed

lemma tree_height_room: "n \<le> 2 ^ tree_height n"
  unfolding tree_height_def by (rule LeastI [of _ n]) (rule less_imp_le [OF less_exp])

lemma sweep_done:
  assumes "sweep_at xs pb p ml l 1 h m"
  shows "tree_height (length xs) = l" "h = tree_root l xs" "pb \<longrightarrow> snd m = tree_branch l xs p"
proof -
  from assms have len: "length xs \<le> 2 ^ l" "0 < l \<longrightarrow> 2 ^ (l - 1) < length xs" and h: "h = node xs l 0"
    by (simp_all add: sweep_at_def)
  show "tree_height (length xs) = l" by (rule tree_height_eq [OF len])
  have all: "subtree xs l 0 = xs" using len by (simp add: subtree_def)
  with h show "h = tree_root l xs" by simp
  have "fst m" if pb
  proof (rule ccontr)
    assume "\<not> fst m"
    with assms that obtain j where "Suc l \<le> j" "odd (length xs div 2 ^ j)" by (auto simp: sweep_at_def stored_def)
    moreover from this have "(2 :: nat) ^ l < 2 ^ j" by (intro power_strict_increasing) simp_all
    ultimately show False using len by simp
  qed
  moreover have "p mod 2 ^ l = p" if "p div 2 ^ l = 0" using that mod_mult_div_eq [of p "2 ^ l"] by simp
  ultimately show "pb \<longrightarrow> snd m = tree_branch l xs p" using assms all by (auto simp: sweep_at_def)
qed

lemma sweep_step:
  assumes at: "sweep_at xs pb p ml l k h m" and k: "k \<noteq> 1" and inner: "inner_ok xs (length xs) inner"
    and m1: "m1 = (fst m, if pb \<and> fst m then snd m @ [h] else snd m)"
  obtains l' k' h' m' mu where
    "climb pb inner ml (of_nat (k * 2 ^ l) + push_bit l 1) (l + 1) (hash_nodes h h) False m1 = (l', h', mu, m')"
    "sweep_at xs pb p ml l' k' h' m'" "k' * 2 ^ l' = (k + 1) * 2 ^ l" "l < l'"
proof -
  define q where "q = (k - 1) div 2"
  let ?n = "length xs"
  have odd: "odd k" and lo: "(k - 1) * 2 ^ l < ?n" and hi: "?n \<le> k * 2 ^ l" "k * 2 ^ l \<le> 2 ^ 31"
    and h: "h = node xs l (k - 1)"
    using at by (simp_all add: sweep_at_def)
  have q: "k = 2 * q + 1" "0 < q" using odd k by (auto simp: q_def elim!: oddE)
  have room: "(q + 1) * 2 ^ Suc l \<le> 2 ^ 31"
  proof -
    have "3 * 2 ^ l \<le> k * 2 ^ l" using q by (intro mult_right_mono) simp_all
    moreover have "(0 :: nat) < 2 ^ l" by simp
    ultimately have "(2 :: nat) ^ l < 2 ^ 31" using hi(2) by linarith
    then have "l < 31" using power_less_imp_less_exp [of "2 :: nat" l 31] by simp
    then have p31: "(2 :: nat) ^ 31 = 2 ^ (30 - l) * 2 * 2 ^ l"
      by (simp flip: power_Suc power_add)
    then have "k \<le> 2 ^ (30 - l) * 2" using hi(2) by (metis mult_le_cancel2 zero_less_numeral zero_less_power)
    then have "q + 1 \<le> 2 ^ (30 - l)" using q by presburger
    then have "(q + 1) * 2 ^ Suc l \<le> 2 ^ (30 - l) * 2 ^ Suc l" by (rule mult_right_mono) simp
    then show ?thesis unfolding p31 by (simp only: power_Suc mult.assoc)
  qed
  have eqk: "(q + 1) * 2 ^ Suc l = (k + 1) * 2 ^ l" by (simp add: q(1) algebra_simps)
  have double: "q * 2 ^ Suc l = (k - 1) * 2 ^ l" by (simp add: q(1))
  have "climb_at xs pb p ?n ml (Suc l) (q + 1) (hash_nodes h h) m1"
  proof -
    have "?n div 2 ^ Suc l = q"
    proof (rule div_nat_eqI)
      show "2 ^ Suc l * q \<le> ?n" using lo unfolding double [symmetric] by (simp add: ac_simps)
      have "k * 2 ^ l < (k + 1) * 2 ^ l" by simp
      then show "?n < 2 ^ Suc l * Suc q" using hi(1) unfolding eqk [symmetric] by (simp add: ac_simps)
    qed
    moreover have "hash_nodes h h = node xs (Suc l) q"
      using node_Suc [of l xs q] hi(1) q(1) h by (simp del: tree_root.simps)
    moreover have "match_ok xs p ?n ml (Suc l) (q + 1) m1" if pb
    proof (cases "fst m")
      case True
      with at that have p: "p div 2 ^ l = 2 * q" "snd m = path xs l p" by (simp_all add: sweep_at_def q(1))
      moreover have "p div 2 ^ Suc l = q"
        using div_mult2_eq [of p "2 ^ l" 2] p(1) by (simp add: mult.commute)
      ultimately show ?thesis
        using path_Suc [of l xs p] hi(1) True that h q(1)
        by (simp add: m1 match_ok_def del: tree_branch.simps power_Suc)
    next
      case False
      with at that show ?thesis by (simp add: m1 match_ok_def sweep_at_def)
    qed
    ultimately show ?thesis using lo unfolding double [symmetric] by (simp add: climb_at_def del: tree_root.simps power_Suc)
  qed
  moreover have "(q + 1) * 2 ^ Suc l < 2 ^ 32" using room by simp
  ultimately obtain l' k' h' mu m' where res: "climb pb inner ml (of_nat ((q + 1) * 2 ^ Suc l)) (Suc l) (hash_nodes h h) False m1
      = (l', h', mu, m')"
    and at': "climb_at xs pb p ?n ml l' k' h' m'" "odd k'" "k' * 2 ^ l' = (q + 1) * 2 ^ Suc l" "Suc l \<le> l'" "l' < 32"
    and "mu \<longleftrightarrow> False \<or> (\<exists>i. Suc l \<le> i \<and> i < l' \<and> twins xs i ((q + 1) * 2 ^ Suc l div 2 ^ Suc i - 1))"
    by (rule climb_ok [OF _ inner _ refl, where mu = False])
  have "sweep_at xs pb p ml l' k' h' m'"
  proof -
    have "2 * 2 ^ (l' - 1) = (2 :: nat) ^ l'" using at'(4) by (cases l') simp_all
    also have "\<dots> \<le> k' * 2 ^ l'" using at'(2) by (cases k') simp_all
    also have "\<dots> \<le> 2 * ((k - 1) * 2 ^ l)" using q at'(3) eqk by (simp add: algebra_simps)
    finally have "2 ^ (l' - 1) < ?n" using lo by simp
    moreover have "?n \<le> k' * 2 ^ l'" using hi(1) at'(3) eqk by (simp add: algebra_simps)
    moreover have "even (?n div 2 ^ l')" using at'(1,2) by (auto simp: climb_at_def)
    then have "stored xs p ?n ml (Suc l') (snd m')" if "stored xs p ?n ml l' (snd m')"
      using that by (auto simp: stored_def Suc_le_eq) (metis le_neq_implies_less)
    ultimately show ?thesis
      using at' room at by (auto simp: sweep_at_def climb_at_def match_ok_def)
  qed
  moreover have "of_nat (k * 2 ^ l) + push_bit l 1 = (of_nat ((q + 1) * 2 ^ Suc l) :: u32)"
    unfolding eqk by (simp add: push_bit_eq_mult algebra_simps)
  ultimately show ?thesis using that res at'(3,4) eqk by simp
qed

lemma sweep_ok:
  assumes "sweep_at xs pb p ml l k h m" "inner_ok xs (length xs) inner"
  obtains branch where
    "sweep pb inner ml (of_nat (k * 2 ^ l)) l h m = (tree_root (tree_height (length xs)) xs, branch)"
    "pb \<longrightarrow> branch = tree_branch (tree_height (length xs)) xs p"
  using assms
proof (induction "32 - l" arbitrary: l k h m thesis rule: less_induct)
  case less
  have k: "0 < k" "k * 2 ^ l \<le> 2 ^ 31" using less.prems(2) by (auto simp: sweep_at_def intro: odd_pos)
  then have "(2 :: nat) ^ l \<le> 2 ^ 31" by (cases k) auto
  then have l: "l < 32" using power_le_imp_le_exp [of "2 :: nat" l 31] by simp
  have one: "of_nat (k * 2 ^ l) = (push_bit l 1 :: u32) \<longleftrightarrow> k = 1"
  proof -
    have "(push_bit l 1 :: u32) = of_nat (2 ^ l)" by (simp add: push_bit_eq_mult)
    moreover have "of_nat (k * 2 ^ l) = (of_nat (2 ^ l) :: u32) \<longleftrightarrow> k * 2 ^ l = 2 ^ l"
      using k(2) l \<open>2 ^ l \<le> 2 ^ 31\<close> unfolding word_of_nat_eq_iff by (simp add: take_bit_nat_eq_self)
    ultimately show ?thesis by simp
  qed
  show ?case
  proof (cases "k = 1")
    case True
    with less.prems(1) sweep_done [OF less.prems(2) [unfolded True]] one show ?thesis
      by (subst (asm) sweep.simps) simp
  next
    case False
    obtain l' k' h' m' mu where res: "climb pb inner ml (of_nat (k * 2 ^ l) + push_bit l 1) (l + 1) (hash_nodes h h) False
        (fst m, if pb \<and> fst m then snd m @ [h] else snd m) = (l', h', mu, m')"
      and at: "sweep_at xs pb p ml l' k' h' m'" and c: "k' * 2 ^ l' = (k + 1) * 2 ^ l" and "l < l'"
      by (rule sweep_step [OF less.prems(2) False less.prems(3) refl])
    have "of_nat (k * 2 ^ l) + push_bit l 1 = (of_nat (k' * 2 ^ l') :: u32)"
      unfolding c by (simp add: push_bit_eq_mult algebra_simps)
    then have "sweep pb inner ml (of_nat (k * 2 ^ l)) l h m = sweep pb inner ml (of_nat (k' * 2 ^ l')) l' h' m'"
      using res False one l by (subst sweep.simps) (simp del: of_nat_mult)
    moreover have "32 - l' < 32 - l" using l \<open>l < l'\<close> by simp
    ultimately show ?thesis using less.hyps [OF _ _ at less.prems(3)] less.prems(1) by metis
  qed
qed

text \<open>A flagged list is one with two equal full siblings somewhere.\<close>

lemma subtree_take: "(j + 1) * 2 ^ i \<le> n \<Longrightarrow> subtree (take n xs) i j = subtree xs i j"
  by (simp add: subtree_def take_drop min_def)

lemma subtree_drop: "i \<le> d \<Longrightarrow> subtree (drop (2 ^ d) xs) i j = subtree xs i (2 ^ (d - i) + j)"
  by (simp add: subtree_def algebra_simps flip: power_add)

lemma twins_take: "(j + 1) * 2 ^ Suc i \<le> n \<Longrightarrow> twins (take n xs) i j = twins xs i j"
  by (simp add: twins_def subtree_take algebra_simps)

lemma twins_drop: "i < d \<Longrightarrow> twins (drop (2 ^ d) xs) i j = twins xs i (2 ^ (d - Suc i) + j)"
proof -
  assume "i < d"
  then have "(2 :: nat) ^ (d - i) = 2 * 2 ^ (d - Suc i)" by (simp flip: power_Suc add: Suc_diff_Suc)
  then show ?thesis using \<open>i < d\<close> by (simp add: twins_def subtree_drop algebra_simps)
qed

lemma pow2_le_room: "(j + 1) * 2 ^ i \<le> (2 :: nat) ^ d \<Longrightarrow> i \<le> d"
proof -
  assume "(j + 1) * 2 ^ i \<le> (2 :: nat) ^ d"
  then have "(2 :: nat) ^ i \<le> 2 ^ d" by (simp only: distrib_right)
  then show ?thesis using power_le_imp_le_exp [of "2 :: nat" i d] by simp
qed

lemma twins_split:
  assumes "length xs \<le> 2 ^ Suc d"
  shows "(\<exists>i j. (j + 1) * 2 ^ Suc i \<le> length xs \<and> twins xs i j) \<longleftrightarrow>
     (\<exists>i j. (j + 1) * 2 ^ Suc i \<le> length (take (2 ^ d) xs) \<and> twins (take (2 ^ d) xs) i j) \<or>
     (\<exists>i j. (j + 1) * 2 ^ Suc i \<le> length (drop (2 ^ d) xs) \<and> twins (drop (2 ^ d) xs) i j) \<or>
     length (drop (2 ^ d) xs) = 2 ^ d \<and> twins xs d 0" (is "?L \<longleftrightarrow> ?A \<or> ?B \<or> ?C")
proof
  assume ?L
  then obtain i j where ij: "(j + 1) * 2 ^ Suc i \<le> length xs" "twins xs i j" by blast
  have "i \<le> d" using pow2_le_room [OF order_trans [OF ij(1) assms]] by simp
  show "?A \<or> ?B \<or> ?C"
  proof (cases "i = d")
    case True
    then have "j = 0" using order_trans [OF ij(1) assms] by simp
    with True ij assms show ?thesis by simp
  next
    case False
    then have "Suc i \<le> d" using \<open>i \<le> d\<close> by simp
    then have pow: "(2 :: nat) ^ d = 2 ^ (d - Suc i) * 2 ^ Suc i" by (simp flip: power_add del: power_Suc)
    show ?thesis
    proof (cases "j < 2 ^ (d - Suc i)")
      case True
      then have "(j + 1) * 2 ^ Suc i \<le> 2 ^ d" unfolding pow by (intro mult_right_mono) simp_all
      with ij have "(j + 1) * 2 ^ Suc i \<le> length (take (2 ^ d) xs) \<and> twins (take (2 ^ d) xs) i j"
        using twins_take [of j i "2 ^ d" xs] by simp
      then have ?A by blast
      then show ?thesis ..
    next
      case False
      then obtain j' where j: "j = 2 ^ (d - Suc i) + j'" using le_Suc_ex by (metis not_less)
      then have "(j' + 1) * 2 ^ Suc i \<le> length (drop (2 ^ d) xs)"
        using ij(1) by (simp add: pow algebra_simps)
      moreover have "twins (drop (2 ^ d) xs) i j'" using ij(2) j \<open>Suc i \<le> d\<close> by (simp add: twins_drop)
      ultimately have ?B by blast
      then show ?thesis by blast
    qed
  qed
next
  assume "?A \<or> ?B \<or> ?C"
  then consider ?A | ?B | ?C by blast
  then show ?L
  proof cases
    case 1
    then show ?thesis using twins_take by fastforce
  next
    case 2
    then obtain i j where ij: "(j + 1) * 2 ^ Suc i \<le> length xs - 2 ^ d" "twins (drop (2 ^ d) xs) i j" by auto
    moreover have "length xs - 2 ^ d \<le> 2 ^ d" using assms by simp
    ultimately have i: "Suc i \<le> d" using pow2_le_room order_trans by blast
    then have pow: "(2 :: nat) ^ d = 2 ^ (d - Suc i) * 2 ^ Suc i" by (simp flip: power_add del: power_Suc)
    have "(2 ^ (d - Suc i) + j + 1) * 2 ^ Suc i = 2 ^ d + (j + 1) * 2 ^ Suc i" unfolding pow by (simp add: algebra_simps)
    moreover have "0 < (j + 1) * 2 ^ Suc i" by simp
    ultimately have "(2 ^ (d - Suc i) + j + 1) * 2 ^ Suc i \<le> length xs" using ij(1) by linarith
    moreover have "twins xs i (2 ^ (d - Suc i) + j)" using ij(2) i by (simp add: twins_drop)
    ultimately show ?thesis by blast
  next
    case 3
    have "length xs - 2 ^ d = 2 ^ d" "(0 :: nat) < 2 ^ d" using 3 by simp_all
    then have "2 * 2 ^ d \<le> length xs" by linarith
    with 3 have "(0 + 1) * 2 ^ Suc d \<le> length xs" "twins xs d 0" by simp_all
    then show ?thesis by blast
  qed
qed

lemma tree_mutated_iff:
  "length xs \<le> 2 ^ d \<Longrightarrow> tree_mutated d xs \<longleftrightarrow> (\<exists>i j. (j + 1) * 2 ^ Suc i \<le> length xs \<and> twins xs i j)"
proof (induction d arbitrary: xs)
  case 0
  have "\<not> (j + 1) * 2 ^ Suc i \<le> length xs" for i j using pow2_le_room [of j "Suc i" 0] 0 by fastforce
  then show ?case by simp
next
  case (Suc d)
  have "twins xs d 0 \<longleftrightarrow> tree_root d (take (2 ^ d) xs) = tree_root d (drop (2 ^ d) xs)"
    using Suc.prems by (simp add: twins_def subtree_def)
  moreover have "tree_mutated d (take (2 ^ d) xs) \<longleftrightarrow>
      (\<exists>i j. (j + 1) * 2 ^ Suc i \<le> length (take (2 ^ d) xs) \<and> twins (take (2 ^ d) xs) i j)"
    by (rule Suc.IH) simp
  moreover have "tree_mutated d (drop (2 ^ d) xs) \<longleftrightarrow>
      (\<exists>i j. (j + 1) * 2 ^ Suc i \<le> length (drop (2 ^ d) xs) \<and> twins (drop (2 ^ d) xs) i j)"
    by (rule Suc.IH) (use Suc.prems in simp)
  ultimately show ?case
    unfolding twins_split [OF Suc.prems] tree_mutated.simps Let_def by blast
qed

section \<open>Level by level\<close>

text \<open>The reference: each level pairs the nodes of the one below, the last with itself if it has no other.\<close>

fun pair_up :: "uint256 list \<Rightarrow> uint256 list" where
  "pair_up [] = []"
| "pair_up [x] = [hash_nodes x x]"
| "pair_up (x # y # xs) = hash_nodes x y # pair_up xs"

lemma length_pair_up [simp]: "length (pair_up xs) = (length xs + 1) div 2"
  by (induction xs rule: pair_up.induct) simp_all

function merkle_root :: "uint256 list \<Rightarrow> uint256" where
  "merkle_root xs = (if length xs \<le> 1 then hd xs else merkle_root (pair_up xs))"
  by pat_completeness auto
termination
  by (relation "measure length") auto

declare merkle_root.simps [simp del]

lemma pair_up_split: "pair_up (take (2 * n) xs) = take n (pair_up xs)" "pair_up (drop (2 * n) xs) = drop n (pair_up xs)"
  by (induction xs arbitrary: n rule: pair_up.induct) (case_tac n; simp)+

lemma tree_root_pair_up: "xs \<noteq> [] \<Longrightarrow> tree_root (Suc d) xs = tree_root d (pair_up xs)"
proof (induction d arbitrary: xs)
  case 0
  then show ?case by (cases xs rule: pair_up.cases) simp_all
next
  case (Suc d)
  have "drop (2 ^ Suc d) xs = [] \<longleftrightarrow> drop (2 ^ d) (pair_up xs) = []"
    using pair_up_split(2) [of "2 ^ d" xs] by auto
  then show ?case
    using Suc.IH [of "take (2 ^ Suc d) xs"] Suc.IH [of "drop (2 ^ Suc d) xs"] Suc.prems
      pair_up_split [of "2 ^ d" xs] tree_root.simps(2) [of "Suc d" xs] tree_root.simps(2) [of d "pair_up xs"]
    by (simp add: Let_def del: tree_root.simps split del: if_split cong: if_cong)
qed

lemma tree_height_Suc:
  assumes "1 < n"
  shows "tree_height n = Suc (tree_height ((n + 1) div 2))"
proof -
  define d where "d = tree_height ((n + 1) div 2)"
  have le: "(n + 1) div 2 \<le> 2 ^ d"
    unfolding d_def by (rule tree_height_room)
  have less: "2 ^ (d - 1) < (n + 1) div 2" if "0 < d"
    using not_less_Least [of "d - 1" "\<lambda>d. (n + 1) div 2 \<le> 2 ^ d"] that by (simp add: d_def tree_height_def not_le)
  have "tree_height n = Suc d"
  proof (rule tree_height_eq)
    show "n \<le> 2 ^ Suc d" using le by simp
    show "0 < Suc d \<longrightarrow> 2 ^ (Suc d - 1) < n" using assms less by (cases d) auto
  qed
  then show ?thesis by (simp add: d_def)
qed

lemma merkle_root_eq: "xs \<noteq> [] \<Longrightarrow> merkle_root xs = tree_root (tree_height (length xs)) xs"
proof (induction xs rule: merkle_root.induct)
  case (1 xs)
  show ?case
  proof (cases "length xs \<le> 1")
    case True
    with 1 have "tree_height (length xs) = 0" by (intro tree_height_eq) simp_all
    with True show ?thesis by (simp add: merkle_root.simps)
  next
    case False
    moreover have "pair_up xs \<noteq> []" using "1.prems" by (cases xs rule: pair_up.cases) simp_all
    ultimately show ?thesis
      using "1.IH" tree_root_pair_up [OF "1.prems"] tree_height_Suc [of "length xs"]
      by (subst merkle_root.simps) (simp del: tree_root.simps)
  qed
qed

section \<open>The computation is the tree\<close>

lemma MerkleComputation_tree:
  assumes "xs \<noteq> []" "length xs \<le> 2 ^ 31" "p < 2 ^ 32" "pb \<longrightarrow> p < length xs"
  obtains branch where
    "MerkleComputation xs (of_nat p) pb =
       (tree_root (tree_height (length xs)) xs, tree_mutated (tree_height (length xs)) xs, branch)"
    "pb \<longrightarrow> branch = tree_branch (tree_height (length xs)) xs p"
proof -
  let ?n = "length xs" and ?s0 = "\<lparr> ms_count = 0, ms_inner = replicate 32 0, ms_matchlevel = - 1, ms_mutated = False, ms_branch = [] \<rparr>"
  define s where "s = foldl (add_leaf pb (of_nat p)) ?s0 xs"
  have "leaves_ok xs pb p 0 ?s0" by (auto simp: leaves_ok_def inner_ok_def stored_def)
  from add_leaves_ok [OF this] assms have "leaves_ok xs pb p ?n s" by (simp add: s_def)
  then have s: "ms_count s = of_nat ?n" "inner_ok xs ?n (ms_inner s)"
    "ms_mutated s \<longleftrightarrow> (\<exists>i j. (j + 1) * 2 ^ Suc i \<le> ?n \<and> twins xs i j)"
    "pb \<longrightarrow> stored xs p ?n (ms_matchlevel s) 0 (ms_branch s)"
    by (auto simp: leaves_ok_def)
  obtain k l where kl: "?n = k * 2 ^ l" "odd k" using odd_part [of ?n] assms(1) by auto
  have "0 < k" using kl(2) by (rule odd_pos)
  have "(2 :: nat) ^ l \<le> 2 ^ 31" using kl(1) assms(2) \<open>0 < k\<close> by (cases k) auto
  then have l: "l < 32" using power_le_imp_le_exp [of "2 :: nat" l 31] by simp
  have level: "first_level (ms_count s) 0 = l"
    using first_level_eq [OF kl(2) l, of 0] s(1) kl(1) by simp
  have top: "ms_inner s ! l = node xs l (k - 1)" using s(2) l kl by (simp add: inner_ok_def)
  have "sweep_at xs pb p (ms_matchlevel s) l k (ms_inner s ! l) (ms_matchlevel s = int l, ms_branch s)"
  proof -
    have "(k - 1) * 2 ^ l < ?n" using \<open>0 < k\<close> by (simp add: kl(1))
    moreover have "2 ^ (l - 1) < ?n" if "0 < l"
    proof -
      have "(2 :: nat) ^ (l - 1) < 2 ^ l" using that by (intro power_strict_increasing) simp_all
      also have "\<dots> \<le> ?n" using \<open>0 < k\<close> by (simp add: kl(1))
      finally show ?thesis .
    qed
    moreover have "even (?n div 2 ^ i)" if "i < l" for i
      using count_up(1) [of "?n - 1" k l i] kl that \<open>0 < k\<close> by simp
    then have "stored xs p ?n (ms_matchlevel s) (Suc l) (ms_branch s)" if pb "ms_matchlevel s \<noteq> int l"
      using s(4) that assms(4) unfolding stored_def by (metis Suc_leI linorder_neqE_nat)
    moreover have "p div 2 ^ l = k - 1 \<and> ms_branch s = path xs l p" if pb "ms_matchlevel s = int l"
      using s(4) that assms(4) kl(1) by (auto simp: stored_def)
    ultimately show ?thesis using assms(2,4) kl top by (auto simp: sweep_at_def)
  qed
  from sweep_ok [OF this s(2)] obtain branch where
    "sweep pb (ms_inner s) (ms_matchlevel s) (of_nat (k * 2 ^ l)) l (ms_inner s ! l)
        (ms_matchlevel s = int l, ms_branch s) = (tree_root (tree_height ?n) xs, branch)"
    and br: "pb \<longrightarrow> branch = tree_branch (tree_height ?n) xs p" by blast
  moreover have "ms_mutated s \<longleftrightarrow> tree_mutated (tree_height ?n) xs"
    using s(3) tree_mutated_iff [OF tree_height_room] by blast
  ultimately have "MerkleComputation xs (of_nat p) pb =
       (tree_root (tree_height ?n) xs, tree_mutated (tree_height ?n) xs, branch)"
    using assms(1) level s(1) kl(1) by (simp add: MerkleComputation_def s_def [symmetric] Let_def)
  then show ?thesis using that br by blast
qed

lemma length_tree_branch [simp]: "length (tree_branch d xs p) = d"
  by (induction d arbitrary: xs p) (simp_all add: Let_def)

lemma branch_root_snoc:
  "branch_root h i (bs @ [b]) =
     (if bit i (length bs) then hash_nodes b (branch_root h i bs) else hash_nodes (branch_root h i bs) b)"
proof -
  have odd: "i AND 1 \<noteq> 0 \<longleftrightarrow> odd i" for i :: u32 by (simp add: and_one_eq odd_iff_mod_2_eq_one)
  show ?thesis
    by (induction bs arbitrary: h i) (simp_all add: odd hash_nodes_def bit_drop_bit_eq bit_0)
qed

lemma branch_root_path:
  "p < length xs \<Longrightarrow> l \<le> 32 \<Longrightarrow> branch_root (xs ! p) (of_nat p) (path xs l p) = node xs l (p div 2 ^ l)"
proof (induction l)
  case 0
  then show ?case by (simp add: subtree_def hd_drop_conv_nth take_Suc)
next
  case (Suc l)
  have half: "p div 2 ^ Suc l = p div 2 ^ l div 2" using div_mult2_eq [of p "2 ^ l" 2] by (simp add: mult.commute)
  have bit: "bit (of_nat p :: u32) l \<longleftrightarrow> odd (p div 2 ^ l)" using Suc.prems by (intro count_bit) simp
  have rec: "branch_root (xs ! p) (of_nat p) (path xs l p) = node xs l (p div 2 ^ l)" using Suc by simp
  have step: "branch_root (xs ! p) (of_nat p) (path xs (Suc l) p) =
     (if odd (p div 2 ^ l) then hash_nodes (node xs l (p div 2 ^ l - 1)) (node xs l (p div 2 ^ l))
      else hash_nodes (node xs l (p div 2 ^ l))
        (if length xs \<le> (p div 2 ^ l + 1) * 2 ^ l then node xs l (p div 2 ^ l) else node xs l (p div 2 ^ l + 1)))"
    by (simp only: path_Suc branch_root_snoc length_tree_branch bit rec if_True if_False split: if_split) simp
  show ?case
  proof (cases "odd (p div 2 ^ l)")
    case True
    then have "2 * (p div 2 ^ l div 2) + 1 = p div 2 ^ l" "2 * (p div 2 ^ l div 2) = p div 2 ^ l - 1" by simp_all
    moreover have "p div 2 ^ l * 2 ^ l \<le> p" by simp
    then have "\<not> length xs \<le> p div 2 ^ l * 2 ^ l" using Suc.prems by linarith
    ultimately have "node xs (Suc l) (p div 2 ^ Suc l) = hash_nodes (node xs l (p div 2 ^ l - 1)) (node xs l (p div 2 ^ l))"
      unfolding half node_Suc by simp
    with step True show ?thesis by (simp only: if_True simp_thms)
  next
    case False
    then have "2 * (p div 2 ^ l div 2) = p div 2 ^ l" by simp
    then have "node xs (Suc l) (p div 2 ^ Suc l) = hash_nodes (node xs l (p div 2 ^ l))
        (if length xs \<le> (p div 2 ^ l + 1) * 2 ^ l then node xs l (p div 2 ^ l) else node xs l (p div 2 ^ l + 1))"
      unfolding half node_Suc by simp
    with step False show ?thesis by (simp only: if_False simp_thms)
  qed
qed

lemma MerkleComputation_root:
  assumes "leaves \<noteq> []" "length leaves \<le> 2 ^ 31"
  shows "ComputeMerkleRoot leaves = (merkle_root leaves, tree_mutated (tree_height (length leaves)) leaves)"
proof -
  let ?h = "tree_height (length leaves)"
  have minus: "(- 1 :: u32) = 4294967295" by simp
  obtain branch where "MerkleComputation leaves (of_nat 4294967295) False = (tree_root ?h leaves, tree_mutated ?h leaves, branch)"
    by (rule MerkleComputation_tree [OF assms, of 4294967295 False]) simp_all
  then show ?thesis by (simp add: ComputeMerkleRoot_def merkle_root_eq [OF assms(1)] minus)
qed

text \<open>
  C12: \<open>MerkleComputation\<close>, which keeps one hash per level, computes the root that pairing the nodes level by
  level gives, for up to \<open>2 ^ 31\<close> leaves. It flags exactly the lists in which two full sibling sub-trees
  have the same root. The branch it returns for a leaf leads \<open>ComputeMerkleRootFromBranch\<close> from that
  leaf to the root.
\<close>

theorem MerkleComputation_correct:
  assumes "leaves \<noteq> []" "length leaves \<le> 2 ^ 31"
  shows "ComputeMerkleRoot leaves = (merkle_root leaves, tree_mutated (tree_height (length leaves)) leaves) \<and>
    (\<forall>p < length leaves. length (ComputeMerkleBranch leaves (of_nat p)) = tree_height (length leaves) \<and>
       ComputeMerkleRootFromBranch (leaves ! p) (ComputeMerkleBranch leaves (of_nat p)) (of_nat p) = merkle_root leaves)"
proof -
  let ?h = "tree_height (length leaves)"
  have "ComputeMerkleRoot leaves = (merkle_root leaves, tree_mutated ?h leaves)" by (rule MerkleComputation_root [OF assms])
  moreover have "length (ComputeMerkleBranch leaves (of_nat p)) = ?h \<and>
      ComputeMerkleRootFromBranch (leaves ! p) (ComputeMerkleBranch leaves (of_nat p)) (of_nat p) = merkle_root leaves"
    if p: "p < length leaves" for p
  proof -
    have room: "length leaves \<le> 2 ^ ?h" by (rule tree_height_room)
    have "p < 2 ^ 32" using p assms(2) by simp
    then obtain branch where "MerkleComputation leaves (of_nat p) True = (tree_root ?h leaves, tree_mutated ?h leaves, branch)"
      and "branch = tree_branch ?h leaves p"
      by (rule MerkleComputation_tree [OF assms, of p True]) (simp_all add: p)
    then have "ComputeMerkleBranch leaves (of_nat p) = tree_branch ?h leaves p" by (simp add: ComputeMerkleBranch_def)
    moreover have "path leaves ?h p = tree_branch ?h leaves p" "node leaves ?h (p div 2 ^ ?h) = merkle_root leaves"
      using p room by (simp_all add: subtree_def merkle_root_eq [OF assms(1)])
    moreover have "?h \<le> 32" using assms(2) unfolding tree_height_def by (intro Least_le) simp
    ultimately show ?thesis
      using branch_root_path [OF p, of ?h] by (simp add: ComputeMerkleRootFromBranch_def)
  qed
  ultimately show ?thesis by blast
qed

theorem MerkleComputation_correct_witness:
  "ComputeMerkleRoot [1, 2, 3] = (hash_nodes (hash_nodes 1 2) (hash_nodes 3 3), False) \<and>
   ComputeMerkleRootFromBranch 2 (ComputeMerkleBranch [1, 2, 3] 1) 1 = hash_nodes (hash_nodes 1 2) (hash_nodes 3 3)"
proof -
  have "tree_height (Suc (Suc (Suc 0))) = 2" by (rule tree_height_eq) simp_all
  moreover have "tree_mutated 2 [1, 2, 3] = False" by (simp add: numeral_2_eq_2)
  moreover have "merkle_root [1, 2, 3] = hash_nodes (hash_nodes 1 2) (hash_nodes 3 3)" by (simp add: merkle_root.simps)
  ultimately show ?thesis
    using MerkleComputation_correct [of "[1, 2, 3]"] by (auto dest!: spec [of _ 1])
qed

section \<open>What a root commits to\<close>

text \<open>The pairs of nodes that are hashed on the way to a root.\<close>

fun tree_pairs :: "nat \<Rightarrow> uint256 list \<Rightarrow> (uint256 \<times> uint256) set" where
  "tree_pairs 0 xs = {}"
| "tree_pairs (Suc d) xs =
     (let l = take (2 ^ d) xs; r = drop (2 ^ d) xs
      in insert (tree_root d l, tree_root d (if r = [] then l else r)) (tree_pairs d l \<union> (if r = [] then {} else tree_pairs d r)))"

abbreviation collision_free :: "(uint256 \<times> uint256) set \<Rightarrow> bool" where
  "collision_free S \<equiv> inj_on (\<lambda>(a, b). hash_nodes a b) S"

lemma tree_root_Suc_inject:
  assumes "tree_root (Suc d) xs = tree_root (Suc d) ys" "collision_free (tree_pairs (Suc d) xs \<union> tree_pairs (Suc d) ys)"
  shows "tree_root d (take (2 ^ d) xs) = tree_root d (take (2 ^ d) ys)"
    "tree_root d (if drop (2 ^ d) xs = [] then take (2 ^ d) xs else drop (2 ^ d) xs) =
     tree_root d (if drop (2 ^ d) ys = [] then take (2 ^ d) ys else drop (2 ^ d) ys)"
proof -
  let ?pair = "\<lambda>zs. (tree_root d (take (2 ^ d) zs), tree_root d (if drop (2 ^ d) zs = [] then take (2 ^ d) zs else drop (2 ^ d) zs))"
  have "(\<lambda>(a, b). hash_nodes a b) (?pair xs) = (\<lambda>(a, b). hash_nodes a b) (?pair ys)"
    using assms(1) by (simp add: Let_def if_distrib [of "tree_root d"])
  moreover have "?pair xs \<in> tree_pairs (Suc d) xs \<union> tree_pairs (Suc d) ys"
    "?pair ys \<in> tree_pairs (Suc d) xs \<union> tree_pairs (Suc d) ys"
    by (simp_all add: Let_def)
  ultimately have "?pair xs = ?pair ys" using assms(2) by (blast dest: inj_onD)
  then show "tree_root d (take (2 ^ d) xs) = tree_root d (take (2 ^ d) ys)"
    "tree_root d (if drop (2 ^ d) xs = [] then take (2 ^ d) xs else drop (2 ^ d) xs) =
     tree_root d (if drop (2 ^ d) ys = [] then take (2 ^ d) ys else drop (2 ^ d) ys)"
    by blast+
qed

lemma full_eq_partial:
  assumes "length xs = 2 ^ d" "ys \<noteq> []" "length ys < 2 ^ d" "tree_root d xs = tree_root d ys"
    and "collision_free (tree_pairs d xs \<union> tree_pairs d ys)"
  shows "tree_mutated d xs"
  using assms
proof (induction d arbitrary: xs ys)
  case (Suc d)
  note eq = tree_root_Suc_inject [OF Suc.prems(4,5)]
  have xs: "drop (2 ^ d) xs \<noteq> []" "length (drop (2 ^ d) xs) = 2 ^ d" using Suc.prems(1) by simp_all
  show ?case
  proof (cases "drop (2 ^ d) ys = []")
    case True
    with eq xs show ?thesis by (simp add: Let_def)
  next
    case False
    have "collision_free (tree_pairs d (drop (2 ^ d) xs) \<union> tree_pairs d (drop (2 ^ d) ys))"
      using Suc.prems(5) by (rule inj_on_subset) (use False xs in \<open>auto simp: Let_def\<close>)
    moreover have "length (drop (2 ^ d) ys) < 2 ^ d" using Suc.prems(3) False by auto
    ultimately have "tree_mutated d (drop (2 ^ d) xs)"
      using Suc.IH [OF xs(2) False] eq(2) xs(1) False by simp
    then show ?thesis by (simp add: Let_def)
  qed
qed simp

lemma tree_root_inject:
  assumes "xs \<noteq> []" "ys \<noteq> []" "length xs \<le> 2 ^ d" "length ys \<le> 2 ^ d" "tree_root d xs = tree_root d ys"
    and "\<not> tree_mutated d xs" "\<not> tree_mutated d ys" "collision_free (tree_pairs d xs \<union> tree_pairs d ys)"
  shows "xs = ys"
  using assms
proof (induction d arbitrary: xs ys)
  case 0
  then show ?case by (cases xs; cases ys) auto
next
  case (Suc d)
  let ?l = "take (2 ^ d)" and ?r = "drop (2 ^ d)"
  note eq = tree_root_Suc_inject [OF Suc.prems(5,8)]
  have sub: "tree_pairs d (?l zs) \<subseteq> tree_pairs (Suc d) zs" "?r zs \<noteq> [] \<Longrightarrow> tree_pairs d (?r zs) \<subseteq> tree_pairs (Suc d) zs" for zs
    by (auto simp: Let_def)
  have cf: "collision_free (A \<union> B)" if "A \<subseteq> tree_pairs (Suc d) xs \<union> tree_pairs (Suc d) ys"
    "B \<subseteq> tree_pairs (Suc d) xs \<union> tree_pairs (Suc d) ys" for A B
    using Suc.prems(8) that by (blast intro: inj_on_subset)
  have unflagged: "\<not> tree_mutated d (?l zs)" "\<not> tree_mutated d (?r zs)" "length (?r zs) = 2 ^ d \<Longrightarrow> tree_root d (?l zs) \<noteq> tree_root d (?r zs)"
    if "zs = xs \<or> zs = ys" for zs
    using that Suc.prems(6,7) by (auto simp: Let_def)
  have left: "?l xs = ?l ys"
    using Suc.IH [of "?l xs" "?l ys"] Suc.prems(1,2) eq(1) unflagged(1) [of xs] unflagged(1) [of ys]
      cf [of "tree_pairs d (?l xs)" "tree_pairs d (?l ys)"] sub(1) [of xs] sub(1) [of ys]
    by (simp add: le_supI1 le_supI2 del: tree_pairs.simps)
  have lone: False if "?r zs \<noteq> []" "tree_root d (?r zs) = tree_root d (?l zs)" "zs = xs \<or> zs = ys" for zs
  proof (cases "length (?r zs) = 2 ^ d")
    case True
    with unflagged(3) [OF that(3)] that(2) show ?thesis by simp
  next
    case False
    moreover have "length (?r zs) \<le> 2 ^ d" "length (?l zs) = 2 ^ d" using that(1,3) Suc.prems(3,4) by auto
    moreover have "collision_free (tree_pairs d (?l zs) \<union> tree_pairs d (?r zs))"
      using that(1,3) sub by (intro cf) blast+
    ultimately have "tree_mutated d (?l zs)"
      using full_eq_partial [of "?l zs" d "?r zs"] that(1,2) by simp
    with unflagged(1) [OF that(3)] show ?thesis by simp
  qed
  have "?r xs = ?r ys"
  proof (cases "?r xs = [] \<or> ?r ys = []")
    case True
    with lone [of xs] lone [of ys] eq(2) left show ?thesis
      by (cases "?r xs = []"; cases "?r ys = []") (simp_all del: drop_eq_Nil)
  next
    case False
    then show ?thesis
      using Suc.IH [of "?r xs" "?r ys"] Suc.prems(3,4) eq(2) unflagged(2) [of xs] unflagged(2) [of ys]
        cf [of "tree_pairs d (?r xs)" "tree_pairs d (?r ys)"] sub(2) [of xs] sub(2) [of ys]
      by (simp add: le_supI1 le_supI2 del: tree_pairs.simps)
  qed
  with left show ?case by (metis append_take_drop_id)
qed

text \<open>
  C13: two lists of leaves whose trees have the same height, neither of them flagged, have the same root
  only if they are the same, unless two of the pairs hashed for them collide. So among trees of a height
  the flag catches every other list with the root of a given one (CVE-2012-2459).
\<close>

theorem merkle_root_commits:
  assumes "leaves \<noteq> []" "leaves' \<noteq> []" "length leaves \<le> 2 ^ 31" "length leaves' \<le> 2 ^ 31"
    and "tree_height (length leaves) = d" "tree_height (length leaves') = d"
    and "ComputeMerkleRoot leaves = (root, False)" "ComputeMerkleRoot leaves' = (root, False)"
    and "inj_on (\<lambda>(a, b). hash_nodes a b) (tree_pairs d leaves \<union> tree_pairs d leaves')"
  shows "leaves = leaves'"
proof (rule tree_root_inject)
  have "ComputeMerkleRoot xs = (tree_root (tree_height (length xs)) xs, tree_mutated (tree_height (length xs)) xs)"
    if "xs \<noteq> []" "length xs \<le> 2 ^ 31" for xs
    using MerkleComputation_root [OF that] by (simp add: merkle_root_eq [OF that(1)])
  with assms show "tree_root d leaves = tree_root d leaves'" "\<not> tree_mutated d leaves" "\<not> tree_mutated d leaves'"
    by auto
qed (use assms tree_height_room [of "length leaves"] tree_height_room [of "length leaves'"] in auto)

theorem merkle_root_commits_witness:
  "ComputeMerkleRoot [1, 2] = (hash_nodes 1 2, False) \<and> [1, 2 :: uint256] = [1, 2]"
proof -
  have h: "tree_height (length [1, 2 :: uint256]) = 1" by (rule tree_height_eq) simp_all
  have r: "ComputeMerkleRoot [1, 2] = (hash_nodes 1 2, False)"
    using MerkleComputation_root [of "[1, 2]"] h by (simp add: merkle_root.simps)
  have "inj_on (\<lambda>(a, b). hash_nodes a b) (tree_pairs 1 [1, 2] \<union> tree_pairs 1 [1, 2])" by simp
  from merkle_root_commits [OF _ _ _ _ h h r r this] r show ?thesis by simp
qed

end
