(* ===== verification/Block.thy ===== *)
theory Block
  imports Merkle
begin

text \<open>
  Blocks, headers, sub-chain blocks and locators of \<open>primitives/block.h\<close>, their wire formats and hashes,
  and the Merkle roots of a block (\<open>consensus/merkle.cpp\<close>).
\<close>

section \<open>Headers\<close>

record CBlockHeader =
  hdr_nVersion :: u32
  hashPrevBlock :: uint256
  hashMerkleRoot :: uint256
  hdr_nTime :: u32
  nBits :: u32
  nNonce :: u32

definition CBlockHeader_SetNull :: CBlockHeader where
  "CBlockHeader_SetNull =
     \<lparr> hdr_nVersion = 0, hashPrevBlock = 0, hashMerkleRoot = 0, hdr_nTime = 0, nBits = 0, nNonce = 0 \<rparr>"

definition CBlockHeader_IsNull :: "CBlockHeader \<Rightarrow> bool" where
  "CBlockHeader_IsNull b \<longleftrightarrow> nBits b = 0"

definition ser_header :: "CBlockHeader \<Rightarrow> bytes" where
  "ser_header b = ser_writedata32 (hdr_nVersion b) @ ser_uint256 (hashPrevBlock b) @ ser_uint256 (hashMerkleRoot b) @
     ser_writedata32 (hdr_nTime b) @ ser_writedata32 (nBits b) @ ser_writedata32 (nNonce b)"

definition unser_header :: "CBlockHeader reader" where
  "unser_header = rbind ser_readdata32 (\<lambda>ver. rbind unser_uint256 (\<lambda>prev. rbind unser_uint256 (\<lambda>root.
     rbind ser_readdata32 (\<lambda>time. rbind ser_readdata32 (\<lambda>bits. rbind ser_readdata32 (\<lambda>nonce.
       rret \<lparr> hdr_nVersion = ver, hashPrevBlock = prev, hashMerkleRoot = root, hdr_nTime = time,
              nBits = bits, nNonce = nonce \<rparr>))))))"

definition CBlockHeader_GetHash :: "CBlockHeader \<Rightarrow> uint256" where
  "CBlockHeader_GetHash b = SerializeHash (ser_header b)"

definition CBlockHeader_GetBlockTime :: "CBlockHeader \<Rightarrow> int" where
  "CBlockHeader_GetBlockTime b = uint (hdr_nTime b)"

section \<open>Sub-chain blocks\<close>

record CSubBlock =
  sb_subChainId :: uint256
  subblockdata :: bytes
  sb_nHeight :: u32
  sb_nTime :: u32

definition CSubBlock_SetNull :: "CSubBlock \<Rightarrow> CSubBlock" where
  "CSubBlock_SetNull b = b\<lparr> subblockdata := [], sb_nHeight := 0, sb_nTime := 0 \<rparr>"

definition CSubBlock_IsNull :: "CSubBlock \<Rightarrow> bool" where
  "CSubBlock_IsNull b \<longleftrightarrow> length (subblockdata b) = 0 \<and> sb_nHeight b = 0 \<and> sb_nTime b = 0"

definition CSubBlock_GetBlockTime :: "CSubBlock \<Rightarrow> int" where
  "CSubBlock_GetBlockTime b = uint (sb_nTime b)"

definition ser_subblock :: "CSubBlock \<Rightarrow> bytes" where
  "ser_subblock b = ser_uint256 (sb_subChainId b) @ ser_bytes (subblockdata b) @
     ser_writedata32 (sb_nHeight b) @ ser_writedata32 (sb_nTime b)"

definition unser_subblock :: "CSubBlock reader" where
  "unser_subblock = rbind unser_uint256 (\<lambda>cid. rbind unser_bytes (\<lambda>dat. rbind ser_readdata32 (\<lambda>height.
     rbind ser_readdata32 (\<lambda>time.
       rret \<lparr> sb_subChainId = cid, subblockdata = dat, sb_nHeight = height, sb_nTime = time \<rparr>))))"

definition CSubBlock_GetHash :: "CSubBlock \<Rightarrow> uint256" where
  "CSubBlock_GetHash b = SerializeHash (ser_subblock b)"

section \<open>Blocks\<close>

record CBlock = CBlockHeader +
  vtx :: "CTransaction list"
  fChecked :: bool

definition CBlock_of_header :: "CBlockHeader \<Rightarrow> CBlock" where
  "CBlock_of_header b = CBlockHeader.extend b \<lparr> vtx = [], fChecked = False \<rparr>"

definition GetBlockHeader :: "CBlock \<Rightarrow> CBlockHeader" where
  "GetBlockHeader b =
     \<lparr> hdr_nVersion = hdr_nVersion b, hashPrevBlock = hashPrevBlock b, hashMerkleRoot = hashMerkleRoot b,
       hdr_nTime = hdr_nTime b, nBits = nBits b, nNonce = nNonce b \<rparr>"

primrec ser_txs :: "bool \<Rightarrow> CTransaction list \<Rightarrow> ser_error + bytes" where
  "ser_txs fAllowWitness [] = Inr []"
| "ser_txs fAllowWitness (tx # txs) =
     sbind (SerializeTransaction fAllowWitness tx) (\<lambda>b. sbind (ser_txs fAllowWitness txs) (\<lambda>bs. Inr (b @ bs)))"

definition ser_block :: "bool \<Rightarrow> CBlock \<Rightarrow> ser_error + bytes" where
  "ser_block fAllowWitness b =
     sbind (ser_txs fAllowWitness (vtx b)) (\<lambda>bs.
       Inr (ser_header (GetBlockHeader b) @ WriteCompactSize (of_nat (length (vtx b))) @ bs))"

definition sizeof_CTransactionRef :: nat where
  "sizeof_CTransactionRef = 16"

definition unser_block :: "bool \<Rightarrow> CBlock reader" where
  "unser_block fAllowWitness = rbind unser_header (\<lambda>h.
     rbind (unser_vector (vector_chunk sizeof_CTransactionRef)
              (UnserializeTransaction fAllowWitness CTransaction_default)) (\<lambda>txs.
       rret ((CBlock_of_header h)\<lparr> vtx := txs \<rparr>)))"

text \<open>
  A locator is written with the version of the stream first, unless it is being hashed; the version
  read is dropped.
\<close>

definition ser_locator :: "bool \<Rightarrow> u32 \<Rightarrow> uint256 list \<Rightarrow> bytes" where
  "ser_locator gethash version vHave =
     (if gethash then [] else ser_writedata32 version) @ ser_vector ser_uint256 vHave"

definition unser_locator :: "bool \<Rightarrow> uint256 list reader" where
  "unser_locator gethash =
     rbind (if gethash then rret 0 else ser_readdata32) (\<lambda>_. unser_vector (vector_chunk 32) unser_uint256)"

primrec tx_hashes :: "(CTransaction \<Rightarrow> ser_error + uint256) \<Rightarrow> CTransaction list \<Rightarrow> ser_error + uint256 list" where
  "tx_hashes f [] = Inr []"
| "tx_hashes f (tx # txs) = sbind (f tx) (\<lambda>h. sbind (tx_hashes f txs) (\<lambda>hs. Inr (h # hs)))"

definition BlockMerkleRoot :: "CBlock \<Rightarrow> ser_error + (uint256 \<times> bool)" where
  "BlockMerkleRoot block = sbind (tx_hashes ComputeHash (vtx block)) (\<lambda>leaves. Inr (ComputeMerkleRoot leaves))"

text \<open>The code writes to the first leaf of a block without checking that there is one.\<close>

definition BlockWitnessMerkleRoot :: "CBlock \<Rightarrow> ser_error + (uint256 \<times> bool)" where
  "BlockWitnessMerkleRoot block =
     sbind (tx_hashes GetWitnessHash (tl (vtx block))) (\<lambda>leaves. Inr (ComputeMerkleRoot (0 # leaves)))"

definition BlockMerkleBranch :: "CBlock \<Rightarrow> u32 \<Rightarrow> ser_error + uint256 list" where
  "BlockMerkleBranch block position =
     sbind (tx_hashes ComputeHash (vtx block)) (\<lambda>leaves. Inr (ComputeMerkleBranch leaves position))"

section \<open>Wire formats\<close>

interpretation header_ser: canonical_serializer ser_header unser_header "\<lambda>_. True"
proof unfold_locales
  fix b rest
  show "unser_header (ser_header b @ rest) = Inr (b, rest)"
    by (simp add: unser_header_def ser_header_def uint256_ser.unser_ser u32_ser.unser_ser)
next
  fix bs b rest
  assume "unser_header bs = Inr (b, rest)"
  then show "bs = ser_header b @ rest \<and> True"
    by (auto simp: unser_header_def ser_header_def elim!: rbind_eq_InrE dest!: uint256_ser.ser_unser u32_ser.ser_unser)
qed

interpretation subblock_ser: canonical_serializer ser_subblock unser_subblock "\<lambda>b. length (subblockdata b) \<le> MAX_SIZE"
proof unfold_locales
  fix b :: CSubBlock and rest
  assume "length (subblockdata b) \<le> MAX_SIZE"
  then show "unser_subblock (ser_subblock b @ rest) = Inr (b, rest)"
    by (simp add: unser_subblock_def ser_subblock_def uint256_ser.unser_ser u32_ser.unser_ser byte_vec.unser_ser)
next
  fix bs b rest
  assume "unser_subblock bs = Inr (b, rest)"
  then show "bs = ser_subblock b @ rest \<and> length (subblockdata b) \<le> MAX_SIZE"
    by (auto simp: unser_subblock_def ser_subblock_def elim!: rbind_eq_InrE
        dest!: uint256_ser.ser_unser u32_ser.ser_unser byte_vec.ser_unser)
qed

definition readable_tx :: "CTransaction \<Rightarrow> bool" where
  "readable_tx tx \<longleftrightarrow> wf_tx tx \<and> (vin tx \<noteq> [] \<or> vout tx = [])"

interpretation tx_ser: serializer "\<lambda>tx. tx_bytes (HasWitness tx) tx" "UnserializeTransaction True CTransaction_default"
  readable_tx
proof unfold_locales
  fix tx rest
  assume tx: "readable_tx tx"
  have "extData CTransaction_default = CExtData_default" by (simp add: CTransaction_default_def)
  with tx show "UnserializeTransaction True CTransaction_default (tx_bytes (HasWitness tx) tx @ rest) = Inr (tx, rest)"
    using Unserialize_extended [of tx CTransaction_default rest] Unserialize_basic [of tx CTransaction_default True rest]
      strip_witness_id [of tx]
    by (cases "HasWitness tx") (auto simp: readable_tx_def)
qed

lemma ser_txs_wf:
  "\<forall>tx \<in> set txs. wf_tx tx \<Longrightarrow> ser_txs True txs = Inr (concat (map (\<lambda>tx. tx_bytes (HasWitness tx) tx) txs))"
  by (induction txs) (simp_all add: SerializeTransaction_wf wf_tx_def)



section \<open>What the hash of a block commits to\<close>

lemma tx_hashes_wf: "\<forall>tx \<in> set txs. wf_tx tx \<Longrightarrow> tx_hashes ComputeHash txs = Inr (map (\<lambda>tx. sha256d (tx_bytes False tx)) txs)"
  by (induction txs) (simp_all add: ComputeHash_def SerializeTransaction_wf SerializeHash_eq wf_tx_def)

lemma tx_bytes_eq_iff:
  assumes "wf_tx tx" "wf_tx tx'"
  shows "tx_bytes False tx = tx_bytes False tx' \<longleftrightarrow> strip_witness tx = strip_witness tx'"
proof -
  have ext: "extData CTransaction_default = CExtData_default" by (simp add: CTransaction_default_def)
  show ?thesis
    using Unserialize_basic [OF assms(1) ext, of False "[]"] Unserialize_basic [OF assms(2) ext, of False "[]"]
      tx_bytes_strip [of tx] tx_bytes_strip [of tx'] by auto
qed

lemma map_inj_eq:
  assumes "map f xs = map f ys" "\<And>x y. x \<in> set xs \<Longrightarrow> y \<in> set ys \<Longrightarrow> f x = f y \<Longrightarrow> g x = g y"
  shows "map g xs = map g ys"
  using assms by (auto simp: list_eq_iff_nth_eq)

text \<open>The leaves of a block's Merkle tree.\<close>

definition tx_leaves :: "CBlock \<Rightarrow> uint256 list" where
  "tx_leaves b = map (\<lambda>tx. sha256d (tx_bytes False tx)) (vtx b)"

text \<open>
  C11: the hash of a block commits to its header and, through the Merkle root in it, to its transactions
  without their witnesses: two blocks of the same hash, with correct and unflagged roots and trees of
  the same height, have the same header and the same transactions up to witnesses, unless two of the
  headers, the transactions or the pairs of Merkle nodes hashed for them collide.
\<close>

theorem block_hash_commits:
  assumes "CBlockHeader_GetHash (GetBlockHeader b) = CBlockHeader_GetHash (GetBlockHeader b')"
    and "\<forall>tx \<in> set (vtx b) \<union> set (vtx b'). wf_tx tx" "vtx b \<noteq> []" "vtx b' \<noteq> []"
    and "length (vtx b) \<le> 2 ^ 31" "length (vtx b') \<le> 2 ^ 31"
    and "tree_height (length (vtx b)) = d" "tree_height (length (vtx b')) = d"
    and "BlockMerkleRoot b = Inr (hashMerkleRoot b, False)" "BlockMerkleRoot b' = Inr (hashMerkleRoot b', False)"
    and "inj_on sha256d {ser_header (GetBlockHeader b), ser_header (GetBlockHeader b')}"
    and "inj_on sha256d (tx_bytes False ` (set (vtx b) \<union> set (vtx b')))"
    and "inj_on (\<lambda>(l, r). hash_nodes l r) (tree_pairs d (tx_leaves b) \<union> tree_pairs d (tx_leaves b'))"
  shows "GetBlockHeader b = GetBlockHeader b' \<and> map strip_witness (vtx b) = map strip_witness (vtx b')"
proof
  from assms(1,11) have "ser_header (GetBlockHeader b) = ser_header (GetBlockHeader b')"
    by (auto simp: CBlockHeader_GetHash_def SerializeHash_eq dest: inj_onD)
  then show hdr: "GetBlockHeader b = GetBlockHeader b'"
    using header_ser.prefix_free [of "GetBlockHeader b" "[]" "GetBlockHeader b'" "[]"] by simp
  have "ComputeMerkleRoot (tx_leaves b) = (hashMerkleRoot b, False)"
    "ComputeMerkleRoot (tx_leaves b') = (hashMerkleRoot b, False)"
    using assms(2,9,10) hdr by (simp_all add: BlockMerkleRoot_def tx_hashes_wf tx_leaves_def GetBlockHeader_def)
  then have "tx_leaves b = tx_leaves b'"
    using assms(3-8,13) MerkleComputation_root tree_root_inject [of "tx_leaves b" "tx_leaves b'" d]
      tree_height_room [of "length (vtx b)"] tree_height_room [of "length (vtx b')"]
    by (simp add: tx_leaves_def merkle_root_eq)
  then show "map strip_witness (vtx b) = map strip_witness (vtx b')"
    unfolding tx_leaves_def
    by (rule map_inj_eq) (use assms(2,12) in \<open>auto simp: tx_bytes_eq_iff dest!: inj_onD\<close>)
qed

theorem block_hash_commits_witness:
  "let tx = CTransaction_default;
       b = (CBlock_of_header (CBlockHeader_SetNull\<lparr> hashMerkleRoot := sha256d (tx_bytes False tx) \<rparr>))\<lparr> vtx := [tx] \<rparr>
   in BlockMerkleRoot b = Inr (hashMerkleRoot b, False) \<and> GetBlockHeader b = GetBlockHeader b"
proof -
  let ?tx = CTransaction_default
  let ?b = "(CBlock_of_header (CBlockHeader_SetNull\<lparr> hashMerkleRoot := sha256d (tx_bytes False ?tx) \<rparr>))\<lparr> vtx := [?tx] \<rparr>"
  have wf: "wf_tx ?tx"
    by (simp add: CTransaction_default_def wf_tx_def wf_ext_def CExtData_default_def extdata_type_defs)
  have vtx: "vtx ?b = [?tx]" "hashMerkleRoot ?b = sha256d (tx_bytes False ?tx)"
    by (simp_all add: CBlock_of_header_def CBlockHeader.extend_def CBlockHeader_SetNull_def)
  have h: "tree_height (length (vtx ?b)) = 0" unfolding vtx by (rule tree_height_eq) simp_all
  have r: "BlockMerkleRoot ?b = Inr (hashMerkleRoot ?b, False)"
    using MerkleComputation_root [of "[sha256d (tx_bytes False ?tx)]"] h tx_hashes_wf [of "[?tx]"] wf
    by (simp add: BlockMerkleRoot_def vtx merkle_root.simps del: tx_hashes.simps)
  have "GetBlockHeader ?b = GetBlockHeader ?b \<and> map strip_witness (vtx ?b) = map strip_witness (vtx ?b)"
    by (rule block_hash_commits [OF refl _ _ _ _ _ h h r r]) (simp_all add: vtx wf tx_leaves_def)
  with r show ?thesis by (simp add: Let_def)
qed

end
