(* ===== verification/CoinsUpdate.thy ===== *)
theory CoinsUpdate
  imports Coins Block
begin

text \<open>
  What a transaction does to the unspent outputs (\<open>AddCoins\<close> of \<open>coins.cpp\<close>, \<open>UpdateCoins\<close> of \<open>validation.cpp\<close>)
  and how a block is undone (\<open>ApplyTxInUndo\<close>, \<open>DisconnectBlock\<close>).
\<close>

section \<open>Updating the unspent outputs\<close>

text \<open>The hash a transaction object holds; constructing one whose extension data cannot be written throws.\<close>

definition GetHash :: "CTransaction \<Rightarrow> uint256" where
  "GetHash tx = (case ComputeHash tx of Inr h \<Rightarrow> h | Inl _ \<Rightarrow> 0)"

definition tx_outpoint :: "uint256 \<Rightarrow> nat \<Rightarrow> COutPoint" where
  "tx_outpoint txid i = \<lparr> op_hash = txid, op_n = of_nat i \<rparr>"

fun add_outputs ::
  "'b CCoinsView \<Rightarrow> uint256 \<Rightarrow> int \<Rightarrow> bool \<Rightarrow> bool \<Rightarrow> nat \<Rightarrow> CTxOut list \<Rightarrow> 'b CCoinsViewCache
     \<Rightarrow> coins_error + 'b CCoinsViewCache" where
  "add_outputs ops txid nHeight fCoinbase check i [] c = Inr c"
| "add_outputs ops txid nHeight fCoinbase check i (txout # outs) c =
     (case (if check then HaveCoin ops c (tx_outpoint txid i) else (fCoinbase, c)) of (overwrite, c1) \<Rightarrow>
        sbind (AddCoin (tx_outpoint txid i) (Coin_new txout nHeight fCoinbase) overwrite c1) (\<lambda>c2.
          add_outputs ops txid nHeight fCoinbase check (i + 1) outs c2))"

definition AddCoins ::
  "'b CCoinsView \<Rightarrow> CTransaction \<Rightarrow> int \<Rightarrow> bool \<Rightarrow> 'b CCoinsViewCache \<Rightarrow> coins_error + 'b CCoinsViewCache" where
  "AddCoins ops tx nHeight check c = add_outputs ops (GetHash tx) nHeight (IsCoinBase tx) check 0 (vout tx) c"

fun spend_inputs ::
  "'b CCoinsView \<Rightarrow> CTxIn list \<Rightarrow> 'b CCoinsViewCache \<Rightarrow> coins_error + (Coin list \<times> 'b CCoinsViewCache)" where
  "spend_inputs ops [] c = Inr ([], c)"
| "spend_inputs ops (txin # ins) c =
     (case SpendCoin ops (prevout txin) c of
        (None, c') \<Rightarrow> Inl AssertionFailed
      | (Some d, c') \<Rightarrow> sbind (spend_inputs ops ins c') (\<lambda>(ds, c''). Inr (d # ds, c'')))"

text \<open>The undo data of the transaction, and the cache.\<close>

definition UpdateCoins ::
  "'b CCoinsView \<Rightarrow> CTransaction \<Rightarrow> int \<Rightarrow> 'b CCoinsViewCache \<Rightarrow> coins_error + (Coin list \<times> 'b CCoinsViewCache)" where
  "UpdateCoins ops tx nHeight c =
     sbind (if \<not> IsCoinBase tx then spend_inputs ops (vin tx) c else Inr ([], c)) (\<lambda>(vprevout, c1).
       sbind (AddCoins ops tx nHeight False c1) (\<lambda>c2. Inr (vprevout, c2)))"

text \<open>The updates of the loop of \<open>ConnectBlock\<close>, with the undo data of each transaction.\<close>

primrec connect_txs ::
  "'b CCoinsView \<Rightarrow> int \<Rightarrow> CTransaction list \<Rightarrow> 'b CCoinsViewCache \<Rightarrow> coins_error + (Coin list list \<times> 'b CCoinsViewCache)" where
  "connect_txs ops nHeight [] c = Inr ([], c)"
| "connect_txs ops nHeight (tx # txs) c =
     sbind (UpdateCoins ops tx nHeight c) (\<lambda>(undo, c1).
       sbind (connect_txs ops nHeight txs c1) (\<lambda>(undos, c2). Inr (undo # undos, c2)))"

section \<open>Undoing a block\<close>

definition MAX_BLOCK_WEIGHT :: nat where "MAX_BLOCK_WEIGHT = 4000000"
definition WITNESS_SCALE_FACTOR :: nat where "WITNESS_SCALE_FACTOR = 4"

datatype DisconnectResult = DISCONNECT_OK | DISCONNECT_UNCLEAN | DISCONNECT_FAILED

definition MIN_TRANSACTION_OUTPUT_WEIGHT :: nat where
  "MIN_TRANSACTION_OUTPUT_WEIGHT = WITNESS_SCALE_FACTOR * length (ser_txout \<lparr> nValue = - 1, scriptPubKey = [] \<rparr>)"

definition MAX_OUTPUTS_PER_BLOCK :: nat where
  "MAX_OUTPUTS_PER_BLOCK = MAX_BLOCK_WEIGHT div MIN_TRANSACTION_OUTPUT_WEIGHT"

text \<open>The loop of \<open>AccessByTxid\<close> with the number of outputs that are left to look at.\<close>

fun access_by_txid ::
  "'b CCoinsView \<Rightarrow> uint256 \<Rightarrow> nat \<Rightarrow> nat \<Rightarrow> 'b CCoinsViewCache \<Rightarrow> Coin \<times> 'b CCoinsViewCache" where
  "access_by_txid ops txid n 0 c = (coinEmpty, c)"
| "access_by_txid ops txid n (Suc left) c =
     (case AccessCoin ops c (tx_outpoint txid n) of (alternate, c') \<Rightarrow>
        if \<not> IsSpent alternate then (alternate, c') else access_by_txid ops txid (n + 1) left c')"

definition AccessByTxid :: "'b CCoinsView \<Rightarrow> uint256 \<Rightarrow> 'b CCoinsViewCache \<Rightarrow> Coin \<times> 'b CCoinsViewCache" where
  "AccessByTxid ops txid c = access_by_txid ops txid 0 MAX_OUTPUTS_PER_BLOCK c"

definition ApplyTxInUndo ::
  "'b CCoinsView \<Rightarrow> Coin \<Rightarrow> COutPoint \<Rightarrow> 'b CCoinsViewCache \<Rightarrow> coins_error + (DisconnectResult \<times> 'b CCoinsViewCache)" where
  "ApplyTxInUndo ops undo p c =
     (case HaveCoin ops c p of (have_coin, c1) \<Rightarrow>
        let fClean = (\<not> have_coin) in
        case (if coin_nHeight undo = 0
              then case AccessByTxid ops (op_hash p) c1 of (alternate, c2) \<Rightarrow>
                     if \<not> IsSpent alternate
                     then (Some (undo\<lparr> coin_nHeight := coin_nHeight alternate, fCoinBase := fCoinBase alternate \<rparr>), c2)
                     else (None, c2)
              else (Some undo, c1)) of
          (None, c3) \<Rightarrow> Inr (DISCONNECT_FAILED, c3)
        | (Some undo', c3) \<Rightarrow>
            sbind (AddCoin p undo' (\<not> fClean) c3) (\<lambda>c4.
              Inr (if fClean then DISCONNECT_OK else DISCONNECT_UNCLEAN, c4)))"

text \<open>Spending the outputs of a transaction again, and whether each was the one of the block.\<close>

fun unspend_outputs ::
  "'b CCoinsView \<Rightarrow> uint256 \<Rightarrow> nat \<Rightarrow> bool \<Rightarrow> nat \<Rightarrow> CTxOut list \<Rightarrow> bool \<Rightarrow> 'b CCoinsViewCache \<Rightarrow> bool \<times> 'b CCoinsViewCache" where
  "unspend_outputs ops hash nHeight is_coinbase i [] fClean c = (fClean, c)"
| "unspend_outputs ops hash nHeight is_coinbase i (txout # outs) fClean c =
     (if \<not> IsUnspendable (scriptPubKey txout)
      then case SpendCoin ops (tx_outpoint hash i) c of (r, c') \<Rightarrow>
             unspend_outputs ops hash nHeight is_coinbase (i + 1) outs
               (fClean \<and> (case r of None \<Rightarrow> False
                           | Some d \<Rightarrow> \<not> (txout \<noteq> coin_out d \<or> nHeight \<noteq> coin_nHeight d \<or> is_coinbase \<noteq> fCoinBase d))) c'
      else unspend_outputs ops hash nHeight is_coinbase (i + 1) outs fClean c)"

text \<open>Restoring inputs, from the pairs of outpoint and coin in the order they are restored.\<close>

fun restore_inputs ::
  "'b CCoinsView \<Rightarrow> (COutPoint \<times> Coin) list \<Rightarrow> bool \<Rightarrow> 'b CCoinsViewCache
     \<Rightarrow> coins_error + (DisconnectResult option \<times> bool \<times> 'b CCoinsViewCache)" where
  "restore_inputs ops [] fClean c = Inr (None, fClean, c)"
| "restore_inputs ops ((p, undo) # us) fClean c =
     sbind (ApplyTxInUndo ops undo p c) (\<lambda>(res, c').
       if res = DISCONNECT_FAILED then Inr (Some DISCONNECT_FAILED, fClean, c')
       else restore_inputs ops us (fClean \<and> res \<noteq> DISCONNECT_UNCLEAN) c')"

text \<open>
  The loop over the transactions, from the last, each with its undo data; the first transaction, the
  coinbase, has none. The result is \<open>Some\<close> when the function returns from inside the loop.
\<close>

fun disconnect_txs ::
  "'b CCoinsView \<Rightarrow> nat \<Rightarrow> (CTransaction \<times> Coin list option) list \<Rightarrow> bool \<Rightarrow> 'b CCoinsViewCache
     \<Rightarrow> coins_error + (DisconnectResult option \<times> bool \<times> 'b CCoinsViewCache)" where
  "disconnect_txs ops nHeight [] fClean c = Inr (None, fClean, c)"
| "disconnect_txs ops nHeight ((tx, undo) # txs) fClean c =
     (case unspend_outputs ops (GetHash tx) nHeight (IsCoinBase tx) 0 (vout tx) fClean c of (fClean1, c1) \<Rightarrow>
        case undo of
          None \<Rightarrow> disconnect_txs ops nHeight txs fClean1 c1
        | Some vprevout \<Rightarrow>
            if length vprevout \<noteq> length (vin tx) then Inr (Some DISCONNECT_FAILED, fClean1, c1)
            else sbind (restore_inputs ops (rev (zip (map prevout (vin tx)) vprevout)) fClean1 c1) (\<lambda>(ret, fClean2, c2).
                   if ret \<noteq> None then Inr (ret, fClean2, c2)
                   else disconnect_txs ops nHeight txs fClean2 c2))"

text \<open>
  \<open>DisconnectBlock\<close> with the undo data read from disk (\<open>None\<close> if that fails), the height of the block and
  the hash of the one before it.
\<close>

definition DisconnectBlock ::
  "'b CCoinsView \<Rightarrow> CTransaction list \<Rightarrow> Coin list list option \<Rightarrow> nat \<Rightarrow> uint256 \<Rightarrow> 'b CCoinsViewCache
     \<Rightarrow> coins_error + (DisconnectResult \<times> 'b CCoinsViewCache)" where
  "DisconnectBlock ops txs blockUndo nHeight hashPrev c =
     (case blockUndo of
        None \<Rightarrow> Inr (DISCONNECT_FAILED, c)
      | Some vtxundo \<Rightarrow>
          if length vtxundo + 1 \<noteq> length txs then Inr (DISCONNECT_FAILED, c)
          else sbind (disconnect_txs ops nHeight (rev (zip txs (None # map Some vtxundo))) True c) (\<lambda>(ret, fClean, c1).
                 case ret of
                   Some r \<Rightarrow> Inr (r, c1)
                 | None \<Rightarrow> Inr (if fClean then DISCONNECT_OK else DISCONNECT_UNCLEAN, SetBestBlock hashPrev c1)))"


section \<open>What the updates mean for the map of coins\<close>

text \<open>The coins that outputs numbered from \<open>k\<close> become; unspendable outputs become none.\<close>

definition outs_from :: "uint256 \<Rightarrow> int \<Rightarrow> bool \<Rightarrow> nat \<Rightarrow> CTxOut list \<Rightarrow> COutPoint \<rightharpoonup> Coin" where
  "outs_from txid nHeight cb k outs p =
     (let i = unat (op_n p) - k
      in if op_hash p = txid \<and> k \<le> unat (op_n p) \<and> i < length outs \<and> \<not> IsUnspendable (scriptPubKey (outs ! i))
         then Some (Coin_new (outs ! i) nHeight cb) else None)"

lemma outs_from_Nil [simp]: "outs_from txid h cb k [] = Map.empty"
  by (simp add: outs_from_def fun_eq_iff Let_def)

lemma outs_from_Cons:
  assumes "k < 2 ^ 32"
  shows "outs_from txid h cb k (txout # outs) =
    (if IsUnspendable (scriptPubKey txout) then outs_from txid h cb (Suc k) outs
     else (outs_from txid h cb (Suc k) outs)(tx_outpoint txid k \<mapsto> Coin_new txout h cb))"
proof (rule ext)
  fix p :: COutPoint
  have n: "unat (of_nat k :: u32) = k" using assms by (simp add: unat_of_nat)
  have same: "p = tx_outpoint txid k \<longleftrightarrow> op_hash p = txid \<and> unat (op_n p) = k"
    using n by (cases p) (auto simp: tx_outpoint_def word_unat_eq_iff)
  show "outs_from txid h cb k (txout # outs) p =
    (if IsUnspendable (scriptPubKey txout) then outs_from txid h cb (Suc k) outs
     else (outs_from txid h cb (Suc k) outs)(tx_outpoint txid k \<mapsto> Coin_new txout h cb)) p"
  proof (cases "k \<le> unat (op_n p)")
    case True
    then consider "unat (op_n p) = k" | i where "unat (op_n p) = Suc (k + i)" by (metis le_neq_implies_less less_iff_Suc_add)
    then show ?thesis using same by cases (auto simp: outs_from_def Let_def)
  next
    case False
    then show ?thesis using same by (auto simp: outs_from_def Let_def)
  qed
qed

lemma outs_from_here: "k < 2 ^ 32 \<Longrightarrow> outs_from txid h cb (Suc k) outs (tx_outpoint txid k) = None"
  by (simp add: outs_from_def tx_outpoint_def unat_of_nat Let_def)

lemma outs_from_unspent: "\<forall>txout \<in> set outs. \<not> CTxOut_IsNull txout \<Longrightarrow> outs_from txid h cb k outs p = Some d \<Longrightarrow> \<not> IsSpent d"
  by (auto simp: outs_from_def IsSpent_def Coin_new_def Let_def split: if_splits)

context coins_view
begin

abbreviation utxo :: "'v CCoinsViewCache \<Rightarrow> COutPoint \<rightharpoonup> Coin" where
  "utxo \<equiv> cache_abs A"

abbreviation utxo_ok :: "'v CCoinsViewCache \<Rightarrow> bool" where
  "utxo_ok \<equiv> cache_inv A I"

lemma add_outputs_law:
  assumes "utxo_ok c" "k + length outs \<le> 2 ^ 32" "\<forall>txout \<in> set outs. \<not> CTxOut_IsNull txout"
    and "cb \<or> (\<forall>p. outs_from txid h cb k outs p \<noteq> None \<longrightarrow> utxo c p = None)"
  obtains c' where "add_outputs ops txid h cb False k outs c = Inr c'" "utxo_ok c'"
    "utxo c' = utxo c ++ outs_from txid h cb k outs" "cache_best B c' = cache_best B c"
  using assms
proof (induction outs arbitrary: k c thesis)
  case Nil
  then show ?case by simp
next
  case (Cons txout outs)
  let ?p = "tx_outpoint txid k" and ?d = "Coin_new txout h cb"
  have k: "k < 2 ^ 32" using Cons.prems(3) by simp
  have d: "\<not> IsSpent ?d" using Cons.prems(4) by (simp add: IsSpent_def Coin_new_def)
  have script: "scriptPubKey (coin_out ?d) = scriptPubKey txout" by (simp add: Coin_new_def)
  show ?case
  proof (cases "IsUnspendable (scriptPubKey txout)")
    case True
    then have add: "AddCoin ?p ?d cb c = Inr c" using d script by (simp add: AddCoin_def)
    have out: "outs_from txid h cb k (txout # outs) = outs_from txid h cb (Suc k) outs"
      using True by (simp add: outs_from_Cons [OF k])
    obtain c' where "add_outputs ops txid h cb False (Suc k) outs c = Inr c'" "utxo_ok c'"
      "utxo c' = utxo c ++ outs_from txid h cb (Suc k) outs" "cache_best B c' = cache_best B c"
      using Cons.IH [OF _ Cons.prems(2), of "Suc k"] Cons.prems(3-5) unfolding out by auto
    with add out Cons.prems(1) show ?thesis by simp
  next
    case False
    then have out: "outs_from txid h cb k (txout # outs) = (outs_from txid h cb (Suc k) outs)(?p \<mapsto> ?d)"
      by (simp add: outs_from_Cons [OF k])
    have "cb \<or> utxo c ?p = None" using Cons.prems(5) by (auto simp: out)
    then obtain c1 where c1: "AddCoin ?p ?d cb c = Inr c1" "utxo_ok c1" "cache_best B c1 = cache_best B c"
      "utxo c1 = (utxo c)(?p \<mapsto> ?d)"
      using AddCoin_law [OF Cons.prems(2) d, of cb ?p] False script by auto
    have "cb \<or> (\<forall>p. outs_from txid h cb (Suc k) outs p \<noteq> None \<longrightarrow> utxo c1 p = None)"
      using Cons.prems(5) outs_from_here [OF k] by (auto simp: out c1(4) split: if_splits)
    then obtain c' where "add_outputs ops txid h cb False (Suc k) outs c1 = Inr c'" "utxo_ok c'"
      "utxo c' = utxo c1 ++ outs_from txid h cb (Suc k) outs" "cache_best B c' = cache_best B c1"
      using Cons.IH [OF _ c1(2), of "Suc k"] Cons.prems(3,4) by auto
    moreover have "(utxo c)(?p \<mapsto> ?d) ++ outs_from txid h cb (Suc k) outs = utxo c ++ outs_from txid h cb k (txout # outs)"
      using outs_from_here [OF k] by (auto simp: out map_add_def fun_eq_iff split: option.split)
    ultimately show ?thesis using c1 Cons.prems(1) by simp
  qed
qed

lemma spend_inputs_law:
  assumes "utxo_ok c" "distinct (map prevout ins)" "\<forall>txin \<in> set ins. utxo c (prevout txin) \<noteq> None"
  obtains ds c' where "spend_inputs ops ins c = Inr (ds, c')" "utxo_ok c'" "utxo c' = utxo c |` (- prevout ` set ins)"
    "map Some ds = map (utxo c \<circ> prevout) ins" "cache_best B c' = cache_best B c"
  using assms
proof (induction ins arbitrary: c thesis)
  case Nil
  then show ?case by simp
next
  case (Cons txin ins)
  obtain r c1 where spend: "SpendCoin ops (prevout txin) c = (r, c1)" by fastforce
  note law = SpendCoin_law [OF Cons.prems(2) spend]
  obtain d where "utxo c (prevout txin) = Some d" using Cons.prems(4) by auto
  with law have r: "r = Some d" by (auto simp: coin_opt_def split: option.splits if_splits)
  have c1: "utxo c1 = (utxo c)(prevout txin := None)" "utxo_ok c1" "cache_best B c1 = cache_best B c" using law by auto
  have "\<forall>i \<in> set ins. utxo c1 (prevout i) \<noteq> None" "distinct (map prevout ins)"
    using Cons.prems(3,4) by (auto simp: c1(1)) (metis image_eqI)
  then obtain ds c' where rest: "spend_inputs ops ins c1 = Inr (ds, c')" "utxo_ok c'" "utxo c' = utxo c1 |` (- prevout ` set ins)"
    "map Some ds = map (utxo c1 \<circ> prevout) ins" "cache_best B c' = cache_best B c1"
    using Cons.IH [OF _ c1(2)] by blast
  have "map (utxo c1 \<circ> prevout) ins = map (utxo c \<circ> prevout) ins"
    using Cons.prems(3) by (auto simp: c1(1)) (metis image_eqI)
  moreover have "utxo c1 |` (- prevout ` set ins) = utxo c |` (- prevout ` set (txin # ins))"
    by (auto simp: c1(1) restrict_map_def fun_eq_iff)
  ultimately show ?case
    using Cons.prems(1) [of "d # ds" c'] spend r rest c1(3) \<open>utxo c (prevout txin) = Some d\<close> by simp
qed

lemma unspend_outputs_law:
  assumes "utxo_ok c" "k + length outs \<le> 2 ^ 32" "\<forall>p d. outs_from txid (int h) cb k outs p = Some d \<longrightarrow> utxo c p = Some d" "h < 2 ^ 31"
    and "\<forall>txout \<in> set outs. \<not> CTxOut_IsNull txout"
  obtains c' where "unspend_outputs ops txid h cb k outs fClean c = (fClean, c')" "utxo_ok c'"
    "utxo c' = utxo c |` (- dom (outs_from txid (int h) cb k outs))" "cache_best B c' = cache_best B c"
  using assms
proof (induction outs arbitrary: k c thesis)
  case Nil
  then show ?case by simp
next
  case (Cons txout outs)
  let ?p = "tx_outpoint txid k" and ?d = "Coin_new txout (int h) cb"
  have k: "k < 2 ^ 32" using Cons.prems(3) by simp
  show ?case
  proof (cases "IsUnspendable (scriptPubKey txout)")
    case True
    then have out: "outs_from txid (int h) cb k (txout # outs) = outs_from txid (int h) cb (Suc k) outs"
      by (simp add: outs_from_Cons [OF k])
    obtain c' where "unspend_outputs ops txid h cb (Suc k) outs fClean c = (fClean, c')" "utxo_ok c'"
      "utxo c' = utxo c |` (- dom (outs_from txid (int h) cb (Suc k) outs))" "cache_best B c' = cache_best B c"
      using Cons.IH [OF _ Cons.prems(2), of "Suc k"] Cons.prems(3-6) unfolding out by auto
    with True out Cons.prems(1) show ?thesis by simp
  next
    case False
    then have out: "outs_from txid (int h) cb k (txout # outs) = (outs_from txid (int h) cb (Suc k) outs)(?p \<mapsto> ?d)"
      by (simp add: outs_from_Cons [OF k])
    obtain r c1 where spend: "SpendCoin ops ?p c = (r, c1)" by fastforce
    note law = SpendCoin_law [OF Cons.prems(2) spend]
    have "utxo c ?p = Some ?d" using Cons.prems(4) by (simp add: out)
    with law have r: "r = Some ?d" by (auto simp: coin_opt_def split: option.splits if_splits)
    have c1: "utxo c1 = (utxo c)(?p := None)" "utxo_ok c1" "cache_best B c1 = cache_best B c" using law by auto
    have match: "coin_out ?d = txout" "coin_nHeight ?d = h" "fCoinBase ?d = cb"
      using Cons.prems(5) by (simp_all add: Coin_new_def)
    have "\<forall>p d. outs_from txid (int h) cb (Suc k) outs p = Some d \<longrightarrow> utxo c1 p = Some d"
      using Cons.prems(4) outs_from_here [OF k] by (auto simp: out c1(1))
    then obtain c' where "unspend_outputs ops txid h cb (Suc k) outs fClean c1 = (fClean, c')" "utxo_ok c'"
      "utxo c' = utxo c1 |` (- dom (outs_from txid (int h) cb (Suc k) outs))" "cache_best B c' = cache_best B c1"
      using Cons.IH [OF _ c1(2), of "Suc k"] Cons.prems(3,5,6) by auto
    moreover have "utxo c1 |` (- dom (outs_from txid (int h) cb (Suc k) outs)) = utxo c |` (- dom (outs_from txid (int h) cb k (txout # outs)))"
      by (auto simp: out c1(1) restrict_map_def fun_eq_iff)
    ultimately show ?thesis using Cons.prems(1) spend r False c1(3) match by simp
  qed
qed

end

text \<open>
  When a transaction can be applied to a map of coins, and the map after it: its inputs are different
  unspent coins, and none of its outputs exists.
\<close>

definition tx_applies :: "int \<Rightarrow> CTransaction \<Rightarrow> (COutPoint \<rightharpoonup> Coin) \<Rightarrow> bool" where
  "tx_applies h tx U \<longleftrightarrow> length (vout tx) \<le> 2 ^ 32 \<and> (\<forall>txout \<in> set (vout tx). \<not> CTxOut_IsNull txout) \<and>
     (\<forall>p. outs_from (GetHash tx) h (IsCoinBase tx) 0 (vout tx) p \<noteq> None \<longrightarrow> U p = None) \<and>
     (\<not> IsCoinBase tx \<longrightarrow> distinct (map prevout (vin tx)) \<and> (\<forall>txin \<in> set (vin tx). U (prevout txin) \<noteq> None))"

definition tx_spent :: "CTransaction \<Rightarrow> COutPoint set" where
  "tx_spent tx = (if IsCoinBase tx then {} else prevout ` set (vin tx))"

definition tx_after :: "int \<Rightarrow> CTransaction \<Rightarrow> (COutPoint \<rightharpoonup> Coin) \<Rightarrow> COutPoint \<rightharpoonup> Coin" where
  "tx_after h tx U = (U |` (- tx_spent tx)) ++ outs_from (GetHash tx) h (IsCoinBase tx) 0 (vout tx)"

text \<open>The coins that blocks above the first leave: they have a height and can be spent.\<close>

definition proper_coins :: "(COutPoint \<rightharpoonup> Coin) \<Rightarrow> bool" where
  "proper_coins U \<longleftrightarrow> (\<forall>p d. U p = Some d \<longrightarrow> \<not> IsSpent d \<and> 0 < coin_nHeight d \<and> \<not> IsUnspendable (scriptPubKey (coin_out d)))"

lemma proper_after:
  assumes "proper_coins U" "0 < h" "h < 2 ^ 31" "tx_applies h tx U"
  shows "proper_coins (tx_after h tx U)"
  using assms
  by (auto simp: proper_coins_def tx_applies_def tx_after_def outs_from_def IsSpent_def restrict_map_def map_add_def Coin_new_def Let_def
      split: option.splits if_splits)

context coins_view
begin

lemma UpdateCoins_law:
  assumes "utxo_ok c" "tx_applies h tx (utxo c)"
  obtains undo c' where "UpdateCoins ops tx h c = Inr (undo, c')" "utxo_ok c'" "utxo c' = tx_after h tx (utxo c)"
    "\<not> IsCoinBase tx \<longrightarrow> map Some undo = map (utxo c \<circ> prevout) (vin tx)" "cache_best B c' = cache_best B c"
proof -
  let ?cb = "IsCoinBase tx" and ?outs = "outs_from (GetHash tx) h (IsCoinBase tx) 0 (vout tx)"
  have out: "0 + length (vout tx) \<le> 2 ^ 32" "\<forall>txout \<in> set (vout tx). \<not> CTxOut_IsNull txout" "\<forall>p. ?outs p \<noteq> None \<longrightarrow> utxo c p = None"
    using assms(2) by (auto simp: tx_applies_def)
  obtain undo c1 where spend: "(if \<not> ?cb then spend_inputs ops (vin tx) c else Inr ([], c)) = Inr (undo, c1)" "utxo_ok c1"
    "utxo c1 = utxo c |` (- tx_spent tx)" "\<not> ?cb \<longrightarrow> map Some undo = map (utxo c \<circ> prevout) (vin tx)"
    "cache_best B c1 = cache_best B c"
  proof (cases ?cb)
    case True
    then show ?thesis using that [of "[]" c] assms(1) by (simp add: tx_spent_def restrict_map_def)
  next
    case False
    then have ins: "distinct (map prevout (vin tx))" "\<forall>txin \<in> set (vin tx). utxo c (prevout txin) \<noteq> None"
      using assms(2) by (simp_all add: tx_applies_def)
    show ?thesis
      by (rule spend_inputs_law [OF assms(1) ins]) (use that False in \<open>auto simp: tx_spent_def\<close>)
  qed
  have "?cb \<or> (\<forall>p. ?outs p \<noteq> None \<longrightarrow> utxo c1 p = None)" using out(3) by (auto simp: spend(3) restrict_map_def)
  from add_outputs_law [OF spend(2) out(1,2) this] obtain c2 where
    "add_outputs ops (GetHash tx) h ?cb False 0 (vout tx) c1 = Inr c2" "utxo_ok c2" "utxo c2 = utxo c1 ++ ?outs"
    "cache_best B c2 = cache_best B c1" by blast
  with spend show ?thesis
    by (intro that [of undo c2]) (simp_all add: UpdateCoins_def AddCoins_def tx_after_def)
qed

lemma ApplyTxInUndo_law:
  assumes "utxo_ok c" "utxo c p = None" "\<not> IsSpent d" "0 < coin_nHeight d" "\<not> IsUnspendable (scriptPubKey (coin_out d))"
  obtains c' where "ApplyTxInUndo ops d p c = Inr (DISCONNECT_OK, c')" "utxo_ok c'" "utxo c' = (utxo c)(p \<mapsto> d)"
proof -
  obtain b c1 where have1: "HaveCoin ops c p = (b, c1)" by fastforce
  with query_laws(2) [OF assms(1) this] assms(2) have "\<not> b" "utxo c1 = utxo c" "utxo_ok c1" by auto
  moreover from this obtain c' where "AddCoin p d False c1 = Inr c'" "utxo_ok c'" "utxo c' = (utxo c)(p \<mapsto> d)"
    using AddCoin_law [OF _ assms(3), of c1 False p] assms(2,5) by auto
  ultimately show ?thesis
    using have1 assms(4) by (intro that [of c']) (simp_all add: ApplyTxInUndo_def)
qed

lemma restore_inputs_law:
  assumes "utxo_ok c" "distinct (map fst us)"
    and "\<forall>(p, d) \<in> set us. utxo c p = None \<and> \<not> IsSpent d \<and> 0 < coin_nHeight d \<and> \<not> IsUnspendable (scriptPubKey (coin_out d))"
  obtains c' where "restore_inputs ops us fClean c = Inr (None, fClean, c')" "utxo_ok c'" "utxo c' = utxo c ++ map_of us"
  using assms
proof (induction us arbitrary: c thesis)
  case Nil
  then show ?case by simp
next
  case (Cons u us)
  obtain p d where u: "u = (p, d)" by (cases u)
  obtain c1 where c1: "ApplyTxInUndo ops d p c = Inr (DISCONNECT_OK, c1)" "utxo_ok c1" "utxo c1 = (utxo c)(p \<mapsto> d)"
    using ApplyTxInUndo_law [OF Cons.prems(2), of p d] Cons.prems(4) u by auto
  have "\<forall>(q, e) \<in> set us. utxo c1 q = None \<and> \<not> IsSpent e \<and> 0 < coin_nHeight e \<and> \<not> IsUnspendable (scriptPubKey (coin_out e))"
    using Cons.prems(3,4) by (auto simp: c1(3) u rev_image_eqI)
  then obtain c' where c': "restore_inputs ops us fClean c1 = Inr (None, fClean, c')" "utxo_ok c'" "utxo c' = utxo c1 ++ map_of us"
    using Cons.IH [OF _ c1(2)] Cons.prems(3) by auto
  have "map_of us p = None" using Cons.prems(3) by (simp add: u map_of_eq_None_iff)
  then have "(utxo c)(p \<mapsto> d) ++ map_of us = utxo c ++ map_of ((p, d) # us)"
    by (auto simp: map_add_def fun_eq_iff split: option.split)
  then have all: "utxo c' = utxo c ++ map_of (u # us)" by (simp only: u c'(3) c1(3))
  have "restore_inputs ops (u # us) fClean c = Inr (None, fClean, c')" using c1(1) c'(1) by (simp add: u)
  then show ?case using c'(2) all by (rule Cons.prems(1))
qed

end

text \<open>The undo data of a transaction and of a list of them, as \<open>DisconnectBlock\<close> pairs them with the transactions.\<close>

definition undo_for :: "(COutPoint \<rightharpoonup> Coin) \<Rightarrow> CTransaction \<Rightarrow> Coin list option" where
  "undo_for U tx = (if IsCoinBase tx then None else Some (map (\<lambda>txin. the (U (prevout txin))) (vin tx)))"

primrec undo_list :: "int \<Rightarrow> CTransaction list \<Rightarrow> (COutPoint \<rightharpoonup> Coin) \<Rightarrow> Coin list option list" where
  "undo_list h [] U = []"
| "undo_list h (tx # txs) U = undo_for U tx # undo_list h txs (tx_after h tx U)"

primrec txs_apply :: "int \<Rightarrow> CTransaction list \<Rightarrow> (COutPoint \<rightharpoonup> Coin) \<Rightarrow> bool" where
  "txs_apply h [] U \<longleftrightarrow> True"
| "txs_apply h (tx # txs) U \<longleftrightarrow> tx_applies h tx U \<and> txs_apply h txs (tx_after h tx U)"

lemma length_undo_list [simp]: "length (undo_list h txs U) = length txs"
  by (induction txs arbitrary: U) simp_all

text \<open>Taking the outputs of a transaction away and putting its inputs back gives the map before it.\<close>

lemma tx_after_undone:
  assumes "tx_applies h tx U"
  shows "tx_after h tx U |` (- dom (outs_from (GetHash tx) h (IsCoinBase tx) 0 (vout tx))) = U |` (- tx_spent tx)"
proof
  fix p
  have "outs_from (GetHash tx) h (IsCoinBase tx) 0 (vout tx) p \<noteq> None \<Longrightarrow> U p = None"
    using assms by (simp add: tx_applies_def)
  then show "(tx_after h tx U |` (- dom (outs_from (GetHash tx) h (IsCoinBase tx) 0 (vout tx)))) p = (U |` (- tx_spent tx)) p"
    by (cases "outs_from (GetHash tx) h (IsCoinBase tx) 0 (vout tx) p")
      (auto simp: tx_after_def restrict_map_def map_add_def domIff)
qed

lemma rev_zip_map: "rev (zip (map f xs) (map (\<lambda>x. g (f x)) xs)) = map (\<lambda>p. (p, g p)) (rev (map f xs))"
  by (induction xs) simp_all

lemma map_of_map_fun: "map_of (map (\<lambda>p. (p, f p)) ps) p = (if p \<in> set ps then Some (f p) else None)"
  by (induction ps) auto

context coins_view
begin

lemma undo_tx_law:
  assumes "utxo_ok c" "utxo c = tx_after (int h) tx U" "tx_applies (int h) tx U" "proper_coins U" "h < 2 ^ 31"
  obtains c' where "disconnect_txs ops h ((tx, undo_for U tx) # rest) f c = disconnect_txs ops h rest f c'"
    "utxo_ok c'" "utxo c' = U"
proof -
  let ?outs = "outs_from (GetHash tx) (int h) (IsCoinBase tx) 0 (vout tx)"
  have out: "0 + length (vout tx) \<le> 2 ^ 32" "\<forall>txout \<in> set (vout tx). \<not> CTxOut_IsNull txout"
    "\<forall>p d. ?outs p = Some d \<longrightarrow> utxo c p = Some d"
    using assms(2,3) by (auto simp: tx_applies_def tx_after_def)
  obtain c1 where c1: "unspend_outputs ops (GetHash tx) h (IsCoinBase tx) 0 (vout tx) f c = (f, c1)" "utxo_ok c1"
    "utxo c1 = utxo c |` (- dom ?outs)"
    by (rule unspend_outputs_law [OF assms(1) out(1,3) assms(5) out(2)])
  have utxo1: "utxo c1 = U |` (- tx_spent tx)"
    unfolding c1(3) assms(2) by (rule tx_after_undone [OF assms(3)])
  show ?thesis
  proof (cases "IsCoinBase tx")
    case True
    then have "utxo c1 = U" by (simp add: utxo1 tx_spent_def restrict_map_def)
    with True c1 show ?thesis by (intro that [of c1]) (simp_all add: undo_for_def)
  next
    case False
    let ?g = "\<lambda>p. the (U p)"
    let ?us = "map (\<lambda>p. (p, ?g p)) (rev (map prevout (vin tx)))"
    have us: "rev (zip (map prevout (vin tx)) (map (\<lambda>txin. ?g (prevout txin)) (vin tx))) = ?us"
      by (rule rev_zip_map)
    have ins: "distinct (map prevout (vin tx))" "\<forall>txin \<in> set (vin tx). U (prevout txin) \<noteq> None"
      using assms(3) False by (simp_all add: tx_applies_def)
    have "distinct (map fst ?us)" using ins(1) by (simp add: comp_def)
    moreover have "\<forall>(p, d) \<in> set ?us. utxo c1 p = None \<and> \<not> IsSpent d \<and> 0 < coin_nHeight d \<and> \<not> IsUnspendable (scriptPubKey (coin_out d))"
      using ins(2) assms(4) False by (auto simp: utxo1 tx_spent_def proper_coins_def)
    ultimately obtain c2 where c2: "restore_inputs ops ?us f c1 = Inr (None, f, c2)" "utxo_ok c2" "utxo c2 = utxo c1 ++ map_of ?us"
      by (rule restore_inputs_law [OF c1(2)])
    have "utxo c2 p = U p" for p
      using ins(2) False by (auto simp: c2(3) utxo1 map_add_def map_of_map_fun tx_spent_def restrict_map_def simp del: map_of_map)
    then have "utxo c2 = U" by blast
    with False c1(1) c2(1,2) show ?thesis by (intro that [of c2]) (simp_all add: undo_for_def us)
  qed
qed

lemma connect_txs_law:
  assumes "utxo_ok c" "txs_apply h txs (utxo c)"
  obtains undos c' where "connect_txs ops h txs c = Inr (undos, c')" "utxo_ok c'" "utxo c' = fold (tx_after h) txs (utxo c)"
    "map2 (\<lambda>tx undo. if IsCoinBase tx then None else Some undo) txs undos = undo_list h txs (utxo c)"
    "length undos = length txs"
  using assms
proof (induction txs arbitrary: c thesis)
  case Nil
  then show ?case by simp
next
  case (Cons tx txs)
  obtain undo c1 where c1: "UpdateCoins ops tx h c = Inr (undo, c1)" "utxo_ok c1" "utxo c1 = tx_after h tx (utxo c)"
    "\<not> IsCoinBase tx \<longrightarrow> map Some undo = map (utxo c \<circ> prevout) (vin tx)"
    by (rule UpdateCoins_law [OF Cons.prems(2), of h tx]) (use Cons.prems(3) in auto)
  have "txs_apply h txs (utxo c1)" using Cons.prems(3) by (simp add: c1(3))
  then obtain undos c2 where c2: "connect_txs ops h txs c1 = Inr (undos, c2)" "utxo_ok c2" "utxo c2 = fold (tx_after h) txs (utxo c1)"
    "map2 (\<lambda>tx undo. if IsCoinBase tx then None else Some undo) txs undos = undo_list h txs (utxo c1)"
    "length undos = length txs"
    using Cons.IH [OF _ c1(2)] by blast
  have "undo = map (\<lambda>txin. the (utxo c (prevout txin))) (vin tx)" if "\<not> IsCoinBase tx"
  proof -
    have "map the (map Some undo) = map the (map (utxo c \<circ> prevout) (vin tx))" using c1(4) that by simp
    then show ?thesis by (simp add: comp_def)
  qed
  then show ?case
    using c1(1,3) c2 by (intro Cons.prems(1) [of "undo # undos" c2]) (simp_all add: undo_for_def)
qed

lemma disconnect_txs_law:
  assumes "utxo_ok c" "utxo c = fold (tx_after (int h)) txs U" "txs_apply (int h) txs U" "proper_coins U" "0 < h" "h < 2 ^ 31"
  obtains c' where "disconnect_txs ops h (rev (zip txs (undo_list (int h) txs U)) @ rest) f c = disconnect_txs ops h rest f c'"
    "utxo_ok c'" "utxo c' = U"
  using assms
proof (induction txs arbitrary: U rest thesis)
  case Nil
  then show ?case by simp
next
  case (Cons tx txs)
  let ?U = "tx_after (int h) tx U"
  have tx: "tx_applies (int h) tx U" and txs: "txs_apply (int h) txs ?U" using Cons.prems(4) by simp_all
  have proper: "proper_coins ?U" using Cons.prems(6,7) by (intro proper_after [OF Cons.prems(5) _ _ tx]) simp_all
  have "utxo c = fold (tx_after (int h)) txs ?U" using Cons.prems(3) by simp
  then obtain c1 where c1: "disconnect_txs ops h (rev (zip txs (undo_list (int h) txs ?U)) @ (tx, undo_for U tx) # rest) f c
      = disconnect_txs ops h ((tx, undo_for U tx) # rest) f c1" "utxo_ok c1" "utxo c1 = ?U"
    using Cons.IH [OF _ Cons.prems(2) _ txs proper Cons.prems(6,7)] by blast
  obtain c2 where "disconnect_txs ops h ((tx, undo_for U tx) # rest) f c1 = disconnect_txs ops h rest f c2"
    "utxo_ok c2" "utxo c2 = U"
    by (rule undo_tx_law [OF c1(2,3) tx Cons.prems(5,7)])
  then show ?case using c1(1) by (intro Cons.prems(1) [of c2]) simp_all
qed

lemma DisconnectBlock_law:
  assumes "utxo_ok c" "txs_apply (int h) (cb # txs) (utxo c)" "proper_coins (utxo c)" "0 < h" "h < 2 ^ 31"
    and "IsCoinBase cb" "\<forall>tx \<in> set txs. \<not> IsCoinBase tx"
  obtains undos c1 where "connect_txs ops (int h) (cb # txs) c = Inr (undos, c1)" "utxo_ok c1"
    "utxo c1 = fold (tx_after (int h)) (cb # txs) (utxo c)"
    "\<And>c2. utxo_ok c2 \<Longrightarrow> utxo c2 = utxo c1 \<Longrightarrow>
       \<exists>c3. DisconnectBlock ops (cb # txs) (Some (tl undos)) h prev c2 = Inr (DISCONNECT_OK, c3) \<and>
         utxo c3 = utxo c \<and> cache_hashBlock c3 = prev"
proof -
  obtain undos c1 where c1: "connect_txs ops (int h) (cb # txs) c = Inr (undos, c1)" "utxo_ok c1"
    "utxo c1 = fold (tx_after (int h)) (cb # txs) (utxo c)"
    "map2 (\<lambda>tx undo. if IsCoinBase tx then None else Some undo) (cb # txs) undos = undo_list (int h) (cb # txs) (utxo c)"
    "length undos = length (cb # txs)"
    by (rule connect_txs_law [OF assms(1,2)])
  obtain u us where undos: "undos = u # us" "length us = length txs" using c1(5) by (cases undos) auto
  have "map2 (\<lambda>tx undo. if IsCoinBase tx then None else Some undo) txs us = map Some us"
    using undos(2) assms(7) by (induction txs us rule: list_induct2') auto
  then have list: "None # map Some us = undo_list (int h) (cb # txs) (utxo c)"
    unfolding c1(4) [symmetric] by (simp add: undos(1) assms(6))
  show ?thesis
  proof (rule that [OF c1(1-3)])
    fix c2 assume c2: "utxo_ok c2" "utxo c2 = utxo c1"
    have "utxo c2 = fold (tx_after (int h)) (cb # txs) (utxo c)" using c2(2) c1(3) by simp
    then obtain c3 where "disconnect_txs ops h (rev (zip (cb # txs) (undo_list (int h) (cb # txs) (utxo c))) @ []) True c2
        = disconnect_txs ops h [] True c3" "utxo_ok c3" "utxo c3 = utxo c"
      by (rule disconnect_txs_law [OF c2(1) _ assms(2-5)])
    then show "\<exists>c3. DisconnectBlock ops (cb # txs) (Some (tl undos)) h prev c2 = Inr (DISCONNECT_OK, c3) \<and>
         utxo c3 = utxo c \<and> cache_hashBlock c3 = prev"
      unfolding list [symmetric]
      by (intro exI [of _ "SetBestBlock prev c3"])
        (auto simp: DisconnectBlock_def undos SetBestBlock_def cache_abs_def)
  qed
qed

end

text \<open>
  C2: undoing a block restores the unspent outputs. A block that starts with its only coinbase, spends
  different existing coins and creates only new ones connects without an exception, and its undo data
  lets \<open>DisconnectBlock\<close> run cleanly on any cache holding the coins it left: the coins and the best
  block are again those before the block.
\<close>

theorem DisconnectBlock_undoes:
  fixes SizeEstimate :: "db_change list \<Rightarrow> nat" and batch_size h :: nat
  defines "ops \<equiv> cache_view (db_view SizeEstimate batch_size)"
  defines "utxo \<equiv> cache_abs (cache_abs db_coins)" and "ok \<equiv> cache_inv (cache_abs db_coins) (cache_inv db_coins db_inv)"
  assumes "ok c" "txs_apply (int h) (cb # txs) (utxo c)" "proper_coins (utxo c)" "0 < h" "h < 2 ^ 31"
    and "IsCoinBase cb" "\<forall>tx \<in> set txs. \<not> IsCoinBase tx"
  shows "\<exists>undos c1. connect_txs ops (int h) (cb # txs) c = Inr (undos, c1) \<and> ok c1 \<and>
    utxo c1 = fold (tx_after (int h)) (cb # txs) (utxo c) \<and>
    (\<forall>c2. ok c2 \<and> utxo c2 = utxo c1 \<longrightarrow>
       (\<exists>c3. DisconnectBlock ops (cb # txs) (Some (tl undos)) h prev c2 = Inr (DISCONNECT_OK, c3) \<and>
          utxo c3 = utxo c \<and> cache_hashBlock c3 = prev))"
  unfolding ops_def utxo_def ok_def
  by (rule tip.DisconnectBlock_law [OF assms(4-10) [unfolded utxo_def ok_def], of SizeEstimate batch_size prev]) blast

theorem DisconnectBlock_undoes_witness:
  "let p = \<lparr> op_hash = 5, op_n = 1 \<rparr>; d = Coin_new \<lparr> nValue = 50, scriptPubKey = [0x51] \<rparr> 7 False;
       cb = CTransaction_default\<lparr>
         vin := [\<lparr> prevout = \<lparr> op_hash = 0, op_n = - 1 \<rparr>, scriptSig = [8, 0], nSequence = SEQUENCE_FINAL, scriptWitness = [] \<rparr>],
         vout := [\<lparr> nValue = 50, scriptPubKey = [0x51] \<rparr>] \<rparr>;
       tx = CTransaction_default\<lparr>
         vin := [\<lparr> prevout = p, scriptSig = [], nSequence = SEQUENCE_FINAL, scriptWitness = [] \<rparr>],
         vout := [\<lparr> nValue = 0, scriptPubKey = [0x6a] \<rparr>] \<rparr>;
       c = CCoinsViewCache_new (CCoinsViewCache_new \<lparr> db_coins = [p \<mapsto> d], db_best = Some 1, db_heads = None \<rparr>)
   in \<exists>undos c1 c3. connect_txs (cache_view (db_view length 100)) 8 [cb, tx] c = Inr (undos, c1) \<and>
        DisconnectBlock (cache_view (db_view length 100)) [cb, tx] (Some (tl undos)) 8 3 c1 = Inr (DISCONNECT_OK, c3) \<and>
        cache_abs (cache_abs db_coins) c3 = [p \<mapsto> d]"
proof -
  define p :: COutPoint where "p = \<lparr> op_hash = 5, op_n = 1 \<rparr>"
  define d where "d = Coin_new \<lparr> nValue = 50, scriptPubKey = [0x51] \<rparr> 7 False"
  define cb where "cb = CTransaction_default\<lparr>
         vin := [\<lparr> prevout = \<lparr> op_hash = 0, op_n = - 1 \<rparr>, scriptSig = [8, 0], nSequence = SEQUENCE_FINAL, scriptWitness = [] \<rparr>],
         vout := [\<lparr> nValue = 50, scriptPubKey = [0x51] \<rparr>] \<rparr>"
  define tx where "tx = CTransaction_default\<lparr>
         vin := [\<lparr> prevout = p, scriptSig = [], nSequence = SEQUENCE_FINAL, scriptWitness = [] \<rparr>],
         vout := [\<lparr> nValue = 0, scriptPubKey = [0x6a] \<rparr>] \<rparr>"
  define c where "c = CCoinsViewCache_new (CCoinsViewCache_new \<lparr> db_coins = [p \<mapsto> d], db_best = Some 1, db_heads = None \<rparr>)"
  let ?utxo = "cache_abs (cache_abs db_coins)"
  have utxo: "?utxo c = [p \<mapsto> d]" by (simp add: c_def CCoinsViewCache_new_def cache_abs_def)
  have good: "\<not> IsSpent d" "0 < coin_nHeight d" "\<not> IsUnspendable (scriptPubKey (coin_out d))"
    by (simp_all add: d_def IsSpent_def CTxOut_IsNull_def Coin_new_def IsUnspendable_def MAX_SCRIPT_SIZE_def)
  have ok: "cache_inv (cache_abs db_coins) (cache_inv db_coins db_inv) c"
    using good(1) by (simp add: c_def CCoinsViewCache_new_def cache_inv_def db_inv_def entries_ok_def)
  have bases: "IsCoinBase cb" "\<forall>t \<in> set [tx]. \<not> IsCoinBase t"
    by (simp_all add: cb_def tx_def p_def IsCoinBase_def COutPoint_IsNull_def)
  have no_outs: "outs_from h 8 b 0 (vout tx) = Map.empty" for h b
    by (simp add: tx_def outs_from_Cons IsUnspendable_def)
  have coinbase: "outs_from (GetHash cb) 8 True 0 (vout cb) p = None" by (simp add: cb_def p_def outs_from_def Let_def)
  have "txs_apply (int 8) [cb, tx] (?utxo c)" unfolding utxo
    using bases coinbase no_outs by (auto simp: tx_applies_def tx_after_def tx_spent_def cb_def tx_def CTxOut_IsNull_def)
  moreover have "proper_coins (?utxo c)" using good by (simp add: utxo proper_coins_def)
  ultimately obtain undos c1 c3 where "connect_txs (cache_view (db_view length 100)) (int 8) [cb, tx] c = Inr (undos, c1)"
    "DisconnectBlock (cache_view (db_view length 100)) [cb, tx] (Some (tl undos)) 8 3 c1 = Inr (DISCONNECT_OK, c3)"
    "?utxo c3 = ?utxo c"
    using DisconnectBlock_undoes [OF ok _ _ _ _ bases, of 8 length 100 3] by fastforce
  then show ?thesis
    unfolding Let_def p_def [symmetric] d_def [symmetric] c_def [symmetric] cb_def [symmetric] tx_def [symmetric] utxo by auto
qed

end
