(* ===== verification/PubKey.thy ===== *)
theory PubKey
  imports Script Hash
begin

text \<open>
  \<open>pubkey.h\<close> and \<open>pubkey.cpp\<close>: public keys and their wire format, extended keys, and the lenient DER
  reader in front of libsecp256k1. Of that library only the range checks on scalars are modelled;
  parsing a curve point and the verification equation are the arguments \<open>pubkey_parse\<close> and
  \<open>ecdsa_verify\<close>.
\<close>

section \<open>Scalars and signatures of libsecp256k1\<close>

definition SECP256K1_N :: uint256 where
  "SECP256K1_N = 0xFFFFFFFFFFFFFFFFFFFFFFFFFFFFFFFEBAAEDCE6AF48A03BBFD25E8CD0364141"

definition SECP256K1_N_H :: uint256 where
  "SECP256K1_N_H = 0x7FFFFFFFFFFFFFFFFFFFFFFFFFFFFFFF5D576E7357A4501DDFE92F46681B20A0"

type_synonym ecdsa_signature = "uint256 \<times> uint256"

definition secp256k1_scalar_is_high :: "uint256 \<Rightarrow> bool" where
  "secp256k1_scalar_is_high a \<longleftrightarrow> a > SECP256K1_N_H"

definition secp256k1_ecdsa_signature_parse_compact :: "bytes \<Rightarrow> bool \<times> ecdsa_signature" where
  "secp256k1_ecdsa_signature_parse_compact input64 =
     (let r = be_word (take 32 input64); s = be_word (take 32 (drop 32 input64))
      in if r < SECP256K1_N \<and> s < SECP256K1_N then (True, r, s) else (False, 0, 0))"

definition secp256k1_ecdsa_signature_normalize :: "ecdsa_signature \<Rightarrow> bool \<times> ecdsa_signature" where
  "secp256k1_ecdsa_signature_normalize = (\<lambda>(r, s).
     if secp256k1_scalar_is_high s then (True, r, SECP256K1_N - s) else (False, r, s))"

section \<open>The lenient DER reader\<close>

text \<open>The loop \<open>while (lenbyte > 0 && input[pos] == 0)\<close>, on the input still to be read.\<close>

fun der_skip_zeros :: "nat \<Rightarrow> bytes \<Rightarrow> nat \<times> bytes" where
  "der_skip_zeros (Suc n) (b # bs) = (if b = 0 then der_skip_zeros n bs else (Suc n, b # bs))"
| "der_skip_zeros n bs = (n, bs)"

text \<open>The loop that reads a big-endian length of \<open>n\<close> bytes into a \<open>size_t\<close>.\<close>

fun der_len_loop :: "nat \<Rightarrow> u64 \<Rightarrow> bytes \<Rightarrow> u64 \<times> bytes" where
  "der_len_loop (Suc n) rlen (b # bs) = der_len_loop n (push_bit 8 rlen + ucast b) bs"
| "der_len_loop n rlen bs = (rlen, bs)"

definition der_sequence :: "bytes \<Rightarrow> bytes option" where
  "der_sequence input =
     (case input of
        tag # lenbyte # rest \<Rightarrow>
          if tag \<noteq> 0x30 then None
          else if lenbyte AND 0x80 \<noteq> 0
          then if unat (lenbyte - 0x80) > length rest then None
               else Some (drop (unat (lenbyte - 0x80)) rest)
          else Some rest
      | _ \<Rightarrow> None)"

definition der_length :: "bytes \<Rightarrow> (u64 \<times> bytes) option" where
  "der_length input =
     (case input of
        [] \<Rightarrow> None
      | lenbyte # rest \<Rightarrow>
          if lenbyte AND 0x80 \<noteq> 0
          then if unat (lenbyte - 0x80) > length rest then None
               else case der_skip_zeros (unat (lenbyte - 0x80)) rest of (n, rest') \<Rightarrow>
                      if n \<ge> 8 then None else Some (der_len_loop n 0 rest')
          else Some (ucast lenbyte, rest))"

definition der_integer :: "bytes \<Rightarrow> (bytes \<times> bytes) option" where
  "der_integer input =
     (case input of
        [] \<Rightarrow> None
      | tag # rest \<Rightarrow>
          if tag \<noteq> 0x02 then None
          else case der_length rest of
                 None \<Rightarrow> None
               | Some (rlen, rest') \<Rightarrow>
                   if unat rlen > length rest' then None
                   else Some (take (unat rlen) rest', drop (unat rlen) rest'))"

text \<open>The 32 bytes of \<open>tmpsig\<close> that receive one number; \<open>None\<close> is \<open>overflow\<close>.\<close>

definition der_scalar :: "bytes \<Rightarrow> bytes option" where
  "der_scalar content =
     (case der_skip_zeros (length content) content of (rlen, rest) \<Rightarrow>
        if rlen > 32 then None else Some (replicate (32 - rlen) 0 @ take rlen rest))"

definition ecdsa_signature_parse_der_lax :: "bytes \<Rightarrow> ecdsa_signature option" where
  "ecdsa_signature_parse_der_lax input =
     (case der_sequence input of
        None \<Rightarrow> None
      | Some in1 \<Rightarrow>
          case der_integer in1 of
            None \<Rightarrow> None
          | Some (R, in2) \<Rightarrow>
              case der_integer in2 of
                None \<Rightarrow> None
              | Some (S, in3) \<Rightarrow>
                  Some (case (der_scalar R, der_scalar S) of
                          (Some r, Some s) \<Rightarrow>
                            (case secp256k1_ecdsa_signature_parse_compact (r @ s) of
                               (ok, sig) \<Rightarrow> if ok then sig else (0, 0))
                        | _ \<Rightarrow> (0, 0)))"

definition CheckLowS :: "bytes \<Rightarrow> bool" where
  "CheckLowS vchSig =
     (case ecdsa_signature_parse_der_lax vchSig of
        None \<Rightarrow> False
      | Some sig \<Rightarrow> \<not> fst (secp256k1_ecdsa_signature_normalize sig))"

section \<open>Public keys\<close>

text \<open>A \<open>CPubKey\<close> is its array of 65 bytes.\<close>

type_synonym CPubKey = bytes

definition GetLen :: "byte \<Rightarrow> nat" where
  "GetLen chHeader =
     (if chHeader = 2 \<or> chHeader = 3 then 33
      else if chHeader = 4 \<or> chHeader = 6 \<or> chHeader = 7 then 65
      else 0)"

definition Invalidate :: "CPubKey \<Rightarrow> CPubKey" where
  "Invalidate vch = vch[0 := 0xFF]"

definition CPubKey_Set :: "CPubKey \<Rightarrow> bytes \<Rightarrow> CPubKey" where
  "CPubKey_Set vch src =
     (let len = (if src = [] then 0 else GetLen (src ! 0))
      in if len \<noteq> 0 \<and> len = length src then memcpy vch 0 src else Invalidate vch)"

definition CPubKey_size :: "CPubKey \<Rightarrow> nat" where
  "CPubKey_size vch = GetLen (vch ! 0)"

text \<open>The bytes between \<open>begin()\<close> and \<open>end()\<close>.\<close>

definition CPubKey_bytes :: "CPubKey \<Rightarrow> bytes" where
  "CPubKey_bytes vch = take (CPubKey_size vch) vch"

definition CPubKey_eq :: "CPubKey \<Rightarrow> CPubKey \<Rightarrow> bool" where
  "CPubKey_eq a b \<longleftrightarrow> a ! 0 = b ! 0 \<and> take (CPubKey_size a) a = take (CPubKey_size a) b"

definition CPubKey_IsValid :: "CPubKey \<Rightarrow> bool" where
  "CPubKey_IsValid vch \<longleftrightarrow> CPubKey_size vch > 0"

definition CPubKey_IsCompressed :: "CPubKey \<Rightarrow> bool" where
  "CPubKey_IsCompressed vch \<longleftrightarrow> CPubKey_size vch = 33"

definition CPubKey_GetID :: "CPubKey \<Rightarrow> uint160" where
  "CPubKey_GetID vch = Hash160 (CPubKey_bytes vch)"

definition CPubKey_GetHash :: "CPubKey \<Rightarrow> uint256" where
  "CPubKey_GetHash vch = Hash (CPubKey_bytes vch)"

definition ser_pubkey :: "CPubKey \<Rightarrow> bytes" where
  "ser_pubkey vch = WriteCompactSize (of_nat (CPubKey_size vch)) @ CPubKey_bytes vch"

definition unser_pubkey :: "CPubKey \<Rightarrow> CPubKey reader" where
  "unser_pubkey vch =
     rbind ReadCompactSize (\<lambda>len.
       if unat len \<le> 65 then rbind (stream_read (unat len)) (\<lambda>src. rret (memcpy vch 0 src))
       else rbind (stream_read (unat len)) (\<lambda>_. rret (Invalidate vch)))"

definition CPubKey_Verify ::
  "(bytes \<Rightarrow> 'pk option) \<Rightarrow> (ecdsa_signature \<Rightarrow> uint256 \<Rightarrow> 'pk \<Rightarrow> bool) \<Rightarrow>
     CPubKey \<Rightarrow> uint256 \<Rightarrow> bytes \<Rightarrow> bool" where
  "CPubKey_Verify pubkey_parse ecdsa_verify vch hash vchSig =
     (if \<not> CPubKey_IsValid vch then False
      else case pubkey_parse (CPubKey_bytes vch) of
             None \<Rightarrow> False
           | Some pubkey \<Rightarrow>
               case ecdsa_signature_parse_der_lax vchSig of
                 None \<Rightarrow> False
               | Some sig \<Rightarrow> ecdsa_verify (snd (secp256k1_ecdsa_signature_normalize sig)) hash pubkey)"

definition CPubKey_IsFullyValid :: "(bytes \<Rightarrow> 'pk option) \<Rightarrow> CPubKey \<Rightarrow> bool" where
  "CPubKey_IsFullyValid pubkey_parse vch =
     (if \<not> CPubKey_IsValid vch then False else pubkey_parse (CPubKey_bytes vch) \<noteq> None)"

section \<open>DER integers\<close>

definition be_nat :: "bytes \<Rightarrow> nat" where
  "be_nat bs = le_nat (rev bs)"

fun base256 :: "nat \<Rightarrow> bytes" where
  "base256 n = (if n = 0 then [] else of_nat (n mod 256) # base256 (n div 256))"

declare base256.simps [simp del]

text \<open>The shortest two's complement representation of a natural number, and what makes a byte string one.\<close>

definition der_uint :: "nat \<Rightarrow> bytes" where
  "der_uint n = (let bs = rev (base256 n) in if bs = [] \<or> hd bs AND 0x80 \<noteq> 0 then 0 # bs else bs)"

definition der_minimal :: "bytes \<Rightarrow> bool" where
  "der_minimal R \<longleftrightarrow> R \<noteq> [] \<and> hd R AND 0x80 = 0 \<and> (length R > 1 \<and> hd R = 0 \<longrightarrow> R ! 1 AND 0x80 \<noteq> 0)"

definition der_signature :: "bytes \<Rightarrow> bytes \<Rightarrow> bytes" where
  "der_signature R S =
     [0x30, of_nat (length R + length S + 4), 0x02, of_nat (length R)] @ R @
     [0x02, of_nat (length S)] @ S"

lemma le_nat_base256 [simp]: "le_nat (base256 n) = n"
proof (induction n rule: base256.induct)
  case (1 n)
  then show ?case by (subst base256.simps) (auto simp: unat_of_nat)
qed

lemma base256_le_nat: "bs = [] \<or> last bs \<noteq> 0 \<Longrightarrow> base256 (le_nat bs) = bs"
proof (induction bs)
  case Nil
  then show ?case by (simp add: base256.simps)
next
  case (Cons b bs)
  have b: "unat b < 256" using unat_less_pow [of 8 b] by simp
  have "bs \<noteq> [] \<Longrightarrow> le_nat bs > 0"
    using Cons.prems canonical_bytes_pos [of bs] by (auto simp: canonical_bytes_def split: if_splits)
  moreover have "bs = [] \<Longrightarrow> b \<noteq> 0" using Cons.prems by simp
  ultimately have "le_nat (b # bs) > 0" by (cases "bs = []") (auto simp: unat_gt_0)
  moreover have "base256 (le_nat bs) = bs" using Cons by (auto split: if_splits)
  ultimately show ?case using b by (subst base256.simps) auto
qed

lemma last_base256: "base256 n = [] \<or> last (base256 n) \<noteq> 0"
proof (induction n rule: base256.induct)
  case (1 n)
  show ?case
  proof (cases "n div 256 = 0")
    case True
    then have "(of_nat (n mod 256) :: byte) \<noteq> 0" if "n \<noteq> 0"
      using that unat_of_nat [of "n mod 256", where 'a = 8] by (intro notI) simp
    with True show ?thesis by (subst (1 2) base256.simps) (auto simp: base256.simps [of 0])
  next
    case False
    then have "base256 (n div 256) \<noteq> []" by (subst base256.simps) simp
    with 1 False show ?thesis by (subst (1 2) base256.simps) auto
  qed
qed

lemma be_nat_zero: "be_nat (0 # bs) = be_nat bs"
  by (simp add: be_nat_def le_nat_append)

lemma be_nat_der_uint [simp]: "be_nat (der_uint n) = n"
proof -
  have "be_nat (rev (base256 n)) = n" by (simp add: be_nat_def)
  then show ?thesis by (simp only: der_uint_def Let_def be_nat_zero split: if_split) blast
qed

lemma der_minimal_der_uint: "der_minimal (der_uint n)"
proof -
  have "base256 n \<noteq> [] \<Longrightarrow> hd (rev (base256 n)) \<noteq> 0" using last_base256 [of n] by (simp add: hd_rev)
  then show ?thesis
    by (cases "rev (base256 n)") (auto simp: der_minimal_def der_uint_def Let_def)
qed

lemma der_uint_be_nat: "der_minimal R \<Longrightarrow> der_uint (be_nat R) = R"
proof -
  assume R: "der_minimal R"
  then obtain b bs where Rb: "R = b # bs" by (auto simp: der_minimal_def neq_Nil_conv)
  show ?thesis
  proof (cases "b = 0")
    case True
    have "bs = [] \<or> hd bs \<noteq> 0 \<and> hd bs AND 0x80 \<noteq> 0"
      using R Rb True by (cases bs) (auto simp: der_minimal_def)
    then have "base256 (le_nat (rev bs)) = rev bs" by (intro base256_le_nat) (auto simp: last_rev)
    with \<open>bs = [] \<or> _\<close> show ?thesis using Rb True be_nat_zero [of bs]
      by (auto simp: der_uint_def be_nat_def Let_def)
  next
    case False
    then have "base256 (le_nat (rev R)) = rev R" using Rb by (intro base256_le_nat) simp
    then show ?thesis using R Rb by (simp add: der_uint_def be_nat_def der_minimal_def)
  qed
qed

section \<open>Reading a strict signature\<close>

lemma der_skip_zeros_eq:
  "n \<le> length bs \<Longrightarrow> der_skip_zeros n bs =
     (n - length (takeWhile (\<lambda>b. b = 0) (take n bs)), dropWhile (\<lambda>b. b = 0) (take n bs) @ drop n bs)"
  by (induction n bs rule: der_skip_zeros.induct) auto

lemma be_nat_dropWhile: "be_nat (dropWhile (\<lambda>b. b = 0) bs) = be_nat bs"
  by (induction bs) (auto simp: be_nat_zero)

lemma be_nat_less: "be_nat bs < 256 ^ length bs"
  using le_nat_less [of "rev bs"] by (simp add: be_nat_def)

lemma be_nat_ge: "bs \<noteq> [] \<Longrightarrow> hd bs \<noteq> 0 \<Longrightarrow> 256 ^ (length bs - 1) \<le> be_nat bs"
proof (cases bs)
  case (Cons b cs)
  assume "bs \<noteq> []" "hd bs \<noteq> 0"
  with Cons have "unat b \<ge> 1" by (simp add: Suc_leI unat_gt_0)
  then have "256 ^ length cs * 1 \<le> 256 ^ length cs * unat b" by (intro mult_le_mono) auto
  then have "256 ^ length cs \<le> le_nat (rev cs) + 256 ^ length cs * unat b" by linarith
  then show ?thesis using Cons by (simp add: be_nat_def le_nat_append)
qed simp

lemma unat_be_word32: "length bs = 32 \<Longrightarrow> unat (be_word bs :: uint256) = be_nat bs"
  by (simp add: be_word_def be_nat_def unat_le_word)

lemma be_nat_pad: "be_nat (replicate n 0 @ bs) = be_nat bs"
  by (induction n) (simp_all add: be_nat_zero)

lemma der_scalar_eq:
  "der_scalar R = (if be_nat R < 2 ^ 256 then Some (be_bytes 32 (of_nat (be_nat R) :: uint256)) else None)"
proof -
  define v where "v = dropWhile (\<lambda>b. b = 0) R"
  have len: "length R - length (takeWhile (\<lambda>b. b = 0) R) = length v"
    using takeWhile_dropWhile_id [of "\<lambda>b. b = 0" R] by (metis add_diff_cancel_left' length_append v_def)
  have v: "be_nat v = be_nat R" by (simp add: v_def be_nat_dropWhile)
  have "der_scalar R = (if length v > 32 then None else Some (replicate (32 - length v) 0 @ v))"
    by (simp add: der_scalar_def der_skip_zeros_eq len v_def [symmetric])
  moreover have "length v > 32 \<longleftrightarrow> be_nat R \<ge> 2 ^ 256"
  proof
    assume l: "length v > 32"
    then have "v \<noteq> []" by auto
    then have "hd v \<noteq> 0" unfolding v_def by (rule hd_dropWhile)
    then have "256 ^ (length v - 1) \<le> be_nat v" using l by (intro be_nat_ge) auto
    moreover have "(256 :: nat) ^ 32 \<le> 256 ^ (length v - 1)" using l by (intro power_increasing) auto
    ultimately show "be_nat R \<ge> 2 ^ 256" using v by simp
  next
    assume g: "be_nat R \<ge> 2 ^ 256"
    show "length v > 32"
    proof (rule ccontr)
      assume "\<not> length v > 32"
      then have "(256 :: nat) ^ length v \<le> 256 ^ 32" by (intro power_increasing) auto
      with be_nat_less [of v] v g show False by simp
    qed
  qed
  moreover have "replicate (32 - length v) 0 @ v = be_bytes 32 (of_nat (be_nat R) :: uint256)"
    if "\<not> length v > 32"
  proof -
    let ?p = "replicate (32 - length v) 0 @ v"
    have "length ?p = 32" using that by simp
    then have "be_bytes 32 (be_word ?p :: uint256) = ?p"
      using be_bytes_be_word [of ?p, where 'a = 256] by simp
    moreover have "unat (be_word ?p :: uint256) = be_nat R"
      using unat_be_word32 [OF \<open>length ?p = 32\<close>] be_nat_pad [of "32 - length v" v] v by simp
    then have "be_word ?p = (of_nat (be_nat R) :: uint256)" by (metis ucast_id of_nat_unat)
    ultimately show ?thesis by simp
  qed
  ultimately show ?thesis by auto
qed

lemma byte_of_nat_short: "n < 128 \<Longrightarrow> (of_nat n :: byte) AND 0x80 = 0 \<and> unat (of_nat n :: byte) = n"
  by (simp add: high_bit_iff unat_of_nat)

lemma der_integer_eq:
  assumes "length R < 128"
  shows "der_integer (0x02 # of_nat (length R) # R @ rest) = Some (R, rest)"
proof -
  have "unat (ucast (of_nat (length R) :: byte) :: u64) = length R"
    using byte_of_nat_short [OF assms] unat_ucast_up [of "of_nat (length R) :: byte", where 'b = 64] by simp
  then show ?thesis
    using byte_of_nat_short [OF assms] by (simp add: der_integer_def der_length_def)
qed

text \<open>
  The numbers a strictly encoded signature stands for: those of its two integers, or zero when one
  of them is not below the group order.
\<close>

lemma parse_der_signature:
  assumes "length R + length S + 4 < 128"
  shows "ecdsa_signature_parse_der_lax (der_signature R S) =
    Some (if be_nat R < unat SECP256K1_N \<and> be_nat S < unat SECP256K1_N
          then (of_nat (be_nat R), of_nat (be_nat S)) else (0, 0))"
proof -
  have seq: "der_sequence (der_signature R S) =
      Some (0x02 # of_nat (length R) # R @ 0x02 # of_nat (length S) # S @ [])"
    using byte_of_nat_short [OF assms] by (simp add: der_signature_def der_sequence_def)
  have small: "be_nat X < 2 ^ 256" if "be_nat X < unat SECP256K1_N" for X
    using that unat_less_pow [of 256 SECP256K1_N] by simp
  have cmp: "(of_nat (be_nat X) :: uint256) < SECP256K1_N \<longleftrightarrow> be_nat X < unat SECP256K1_N"
    if "be_nat X < 2 ^ 256" for X
    using that by (simp add: word_less_nat_alt unat_of_nat)
  show ?thesis
    using assms small [of R] small [of S]
    by (auto simp: ecdsa_signature_parse_der_lax_def seq der_integer_eq der_integer_eq [where rest = "[]", simplified]
        der_scalar_eq secp256k1_ecdsa_signature_parse_compact_def cmp)
qed

lemma CheckLowS_der_signature:
  assumes "length R + length S + 4 < 128"
  shows "CheckLowS (der_signature R S) \<longleftrightarrow>
    \<not> (be_nat R < unat SECP256K1_N \<and> be_nat S < unat SECP256K1_N \<and> be_nat S > unat SECP256K1_N_H)"
proof -
  have "be_nat S < unat SECP256K1_N \<Longrightarrow> unat (of_nat (be_nat S) :: uint256) = be_nat S"
    using unat_less_pow [of 256 SECP256K1_N] by (simp add: unat_of_nat)
  then show ?thesis
    by (auto simp: CheckLowS_def parse_der_signature [OF assms] secp256k1_ecdsa_signature_normalize_def
        secp256k1_scalar_is_high_def word_less_nat_alt)
qed

section \<open>Extended public keys\<close>

record CExtPubKey =
  xp_nDepth :: byte
  xp_vchFingerprint :: bytes
  xp_nChild :: u32
  xp_chaincode :: uint256
  xp_pubkey :: CPubKey

text \<open>\<open>None\<close> is the failed assertion on the size of the key.\<close>

definition CExtPubKey_Encode :: "CExtPubKey \<Rightarrow> bytes option" where
  "CExtPubKey_Encode k =
     (if CPubKey_size (xp_pubkey k) \<noteq> 33 then None
      else Some ([xp_nDepth k] @ xp_vchFingerprint k @
                 [ucast (drop_bit 24 (xp_nChild k) AND 0xFF), ucast (drop_bit 16 (xp_nChild k) AND 0xFF),
                  ucast (drop_bit 8 (xp_nChild k) AND 0xFF), ucast (xp_nChild k AND 0xFF)] @
                 le_bytes 32 (xp_chaincode k) @ take 33 (xp_pubkey k)))"

definition CExtPubKey_Decode :: "CPubKey \<Rightarrow> bytes \<Rightarrow> CExtPubKey" where
  "CExtPubKey_Decode vch code =
     \<lparr> xp_nDepth = code ! 0, xp_vchFingerprint = take 4 (drop 1 code),
       xp_nChild = push_bit 24 (ucast (code ! 5)) OR push_bit 16 (ucast (code ! 6)) OR
                   push_bit 8 (ucast (code ! 7)) OR ucast (code ! 8),
       xp_chaincode = le_word (take 32 (drop 9 code)),
       xp_pubkey = CPubKey_Set vch (take 33 (drop 41 code)) \<rparr>"

section \<open>What keys guarantee\<close>

lemma memcpy_0: "memcpy vch 0 src = src @ drop (length src) vch"
  by (simp add: memcpy_def)

lemma GetLen_le: "GetLen b \<le> 65"
  by (simp add: GetLen_def)



text \<open>
  A serialized key whose announced length is shorter than its header demands is not rejected: the
  key keeps the missing bytes from whatever the object held before.
\<close>

lemma unser_pubkey_stale:
  assumes "length vch = 65"
  shows "\<exists>k. unser_pubkey vch [1, 2] = Inr (k, []) \<and> CPubKey_IsValid k
           \<and> CPubKey_bytes k = 2 # take 32 (drop 1 vch)"
proof -
  have "ReadCompactSize [1, 2] = Inr (1, [2])"
    using compact.unser_ser [of 1 "[2]"]
    by (simp add: WriteCompactSize_def MAX_SIZE_def ser_writedata8_def)
  then show ?thesis
    using stream_read_append [of "[2]" 1 "[]"] assms
    by (simp add: unser_pubkey_def memcpy_0 CPubKey_IsValid_def CPubKey_bytes_def CPubKey_size_def GetLen_def)
qed

lemma nChild_bytes:
  fixes n :: u32
  shows "push_bit 24 (ucast (ucast (drop_bit 24 n AND 0xFF) :: byte)) OR
         push_bit 16 (ucast (ucast (drop_bit 16 n AND 0xFF) :: byte)) OR
         push_bit 8 (ucast (ucast (drop_bit 8 n AND 0xFF) :: byte)) OR ucast (ucast (n AND 0xFF) :: byte) = n" (is "?x = n")
proof (rule bit_word_eqI)
  fix i
  assume i: "i < LENGTH(32)"
  have m: "(0xFF :: u32) = mask 8" by (simp add: mask_numeral)
  consider "i < 8" | "8 \<le> i" "i < 16" | "16 \<le> i" "i < 24" | "24 \<le> i" "i < 32" using i by fastforce
  then show "bit ?x i = bit n i"
    by cases (auto simp: m bit_simps)
qed

text \<open>
  Decoding the 74 bytes an extended public key is encoded to gives back the key. The encoder's
  assertion rejects exactly the keys that are not compressed.
\<close>

lemma extpubkey_roundtrip:
  assumes "length (xp_vchFingerprint k) = 4" "length (xp_pubkey k) = 65" "length vch = 65"
  shows "(CExtPubKey_Encode k = None \<longleftrightarrow> \<not> CPubKey_IsCompressed (xp_pubkey k))
       \<and> (CPubKey_IsCompressed (xp_pubkey k) \<longrightarrow>
           (\<exists>code. CExtPubKey_Encode k = Some code \<and> length code = 74
              \<and> CPubKey_eq (xp_pubkey k) (xp_pubkey (CExtPubKey_Decode vch code))
              \<and> CExtPubKey_Decode vch code = k\<lparr> xp_pubkey := xp_pubkey (CExtPubKey_Decode vch code) \<rparr>))"
proof (intro conjI impI)
  show "CExtPubKey_Encode k = None \<longleftrightarrow> \<not> CPubKey_IsCompressed (xp_pubkey k)"
    by (simp add: CExtPubKey_Encode_def CPubKey_IsCompressed_def)
next
  assume c: "CPubKey_IsCompressed (xp_pubkey k)"
  obtain f0 f1 f2 f3 where f: "xp_vchFingerprint k = [f0, f1, f2, f3]"
    using assms(1) by (auto simp: length_Suc_conv numeral_nat)
  obtain code where code: "CExtPubKey_Encode k = Some code"
    using c by (simp add: CExtPubKey_Encode_def CPubKey_IsCompressed_def)
  have hdr: "xp_pubkey k ! 0 = 2 \<or> xp_pubkey k ! 0 = 3"
    using c by (auto simp: CPubKey_IsCompressed_def CPubKey_size_def GetLen_def split: if_splits)
  have "CPubKey_eq (xp_pubkey k) (CPubKey_Set vch (take 33 (xp_pubkey k)))"
    using assms(2,3) hdr c
    by (auto simp: CPubKey_eq_def CPubKey_Set_def memcpy_0 GetLen_def CPubKey_IsCompressed_def nth_append
        simp flip: length_greater_0_conv)
  moreover have "CExtPubKey_Decode vch code =
      k\<lparr> xp_pubkey := CPubKey_Set vch (take 33 (xp_pubkey k)) \<rparr>" "length code = 74"
    using code assms(2) c f nChild_bytes [of "xp_nChild k"]
    by (auto simp: CExtPubKey_Encode_def CExtPubKey_Decode_def CPubKey_IsCompressed_def
        simp del: le_bytes.simps intro!: CExtPubKey.equality)
  ultimately show "\<exists>code. CExtPubKey_Encode k = Some code \<and> length code = 74
              \<and> CPubKey_eq (xp_pubkey k) (xp_pubkey (CExtPubKey_Decode vch code))
              \<and> CExtPubKey_Decode vch code = k\<lparr> xp_pubkey := xp_pubkey (CExtPubKey_Decode vch code) \<rparr>"
    using code by simp
qed

end
