(* ===== verification/SigEncoding.thy ===== *)
theory SigEncoding
  imports PubKey
begin

text \<open>
  The checks of \<open>script/interpreter.cpp\<close> on the encoding of truth values, signatures, public keys and
  pushes that precede the interpreter. A check that sets an error and returns false is \<open>Some\<close> of
  that error; \<open>None\<close> is success.
\<close>

section \<open>The checks\<close>

definition SIGHASH_ALL :: u32 where [simp]: "SIGHASH_ALL = 1"

definition SIGHASH_NONE :: u32 where [simp]: "SIGHASH_NONE = 2"

definition SIGHASH_SINGLE :: u32 where [simp]: "SIGHASH_SINGLE = 3"

definition SIGHASH_ANYONECANPAY :: u32 where [simp]: "SIGHASH_ANYONECANPAY = 0x80"

fun CastToBool :: "bytes \<Rightarrow> bool" where
  "CastToBool [] = False"
| "CastToBool (b # vch) =
     (if b \<noteq> 0 then \<not> (vch = [] \<and> b = 0x80) else CastToBool vch)"

definition IsCompressedOrUncompressedPubKey :: "bytes \<Rightarrow> bool" where
  "IsCompressedOrUncompressedPubKey vchPubKey =
     (if length vchPubKey < 33 then False
      else if vchPubKey ! 0 = 0x04 then \<not> length vchPubKey \<noteq> 65
      else if vchPubKey ! 0 = 0x02 \<or> vchPubKey ! 0 = 0x03 then \<not> length vchPubKey \<noteq> 33
      else False)"

definition IsCompressedPubKey :: "bytes \<Rightarrow> bool" where
  "IsCompressedPubKey vchPubKey =
     (if length vchPubKey \<noteq> 33 then False
      else if vchPubKey ! 0 \<noteq> 0x02 \<and> vchPubKey ! 0 \<noteq> 0x03 then False
      else True)"

definition IsValidSignatureEncoding :: "bytes \<Rightarrow> bool" where
  "IsValidSignatureEncoding sig =
     (if length sig < 9 then False
      else if length sig > 73 then False
      else if sig ! 0 \<noteq> 0x30 then False
      else if unat (sig ! 1) \<noteq> length sig - 3 then False
      else let lenR = unat (sig ! 3) in
        if 5 + lenR \<ge> length sig then False
        else let lenS = unat (sig ! (5 + lenR)) in
          if lenR + lenS + 7 \<noteq> length sig then False
          else if sig ! 2 \<noteq> 0x02 then False
          else if lenR = 0 then False
          else if sig ! 4 AND 0x80 \<noteq> 0 then False
          else if lenR > 1 \<and> sig ! 4 = 0x00 \<and> sig ! 5 AND 0x80 = 0 then False
          else if sig ! (lenR + 4) \<noteq> 0x02 then False
          else if lenS = 0 then False
          else if sig ! (lenR + 6) AND 0x80 \<noteq> 0 then False
          else if lenS > 1 \<and> sig ! (lenR + 6) = 0x00 \<and> sig ! (lenR + 7) AND 0x80 = 0 then False
          else True)"

definition IsLowDERSignature :: "bytes \<Rightarrow> ScriptError option" where
  "IsLowDERSignature vchSig =
     (if \<not> IsValidSignatureEncoding vchSig then Some SCRIPT_ERR_SIG_DER
      else if \<not> CheckLowS (butlast vchSig) then Some SCRIPT_ERR_SIG_HIGH_S
      else None)"

definition IsDefinedHashtypeSignature :: "bytes \<Rightarrow> bool" where
  "IsDefinedHashtypeSignature vchSig =
     (if length vchSig = 0 then False
      else let nHashType = (ucast (ucast (last vchSig) AND NOT SIGHASH_ANYONECANPAY) :: byte)
           in \<not> (ucast nHashType < SIGHASH_ALL \<or> ucast nHashType > SIGHASH_SINGLE))"

definition CheckSignatureEncoding :: "bytes \<Rightarrow> u32 \<Rightarrow> ScriptError option" where
  "CheckSignatureEncoding vchSig flags =
     (if length vchSig = 0 then None
      else if flag_set flags (SCRIPT_VERIFY_DERSIG OR SCRIPT_VERIFY_LOW_S OR SCRIPT_VERIFY_STRICTENC)
              \<and> \<not> IsValidSignatureEncoding vchSig
      then Some SCRIPT_ERR_SIG_DER
      else if flag_set flags SCRIPT_VERIFY_LOW_S \<and> IsLowDERSignature vchSig \<noteq> None
      then IsLowDERSignature vchSig
      else if flag_set flags SCRIPT_VERIFY_STRICTENC \<and> \<not> IsDefinedHashtypeSignature vchSig
      then Some SCRIPT_ERR_SIG_HASHTYPE
      else None)"

definition CheckPubKeyEncoding :: "bytes \<Rightarrow> u32 \<Rightarrow> SigVersion \<Rightarrow> ScriptError option" where
  "CheckPubKeyEncoding vchPubKey flags sigversion =
     (if flag_set flags SCRIPT_VERIFY_STRICTENC \<and> \<not> IsCompressedOrUncompressedPubKey vchPubKey
      then Some SCRIPT_ERR_PUBKEYTYPE
      else if flag_set flags SCRIPT_VERIFY_WITNESS_PUBKEYTYPE \<and> sigversion = SIGVERSION_WITNESS_V0
              \<and> \<not> IsCompressedPubKey vchPubKey
      then Some SCRIPT_ERR_WITNESS_PUBKEYTYPE
      else None)"

definition CheckMinimalPush :: "bytes \<Rightarrow> byte \<Rightarrow> bool" where
  "CheckMinimalPush dat opcode =
     (if length dat = 0 then opcode = OP_0
      else if length dat = 1 \<and> dat ! 0 \<ge> 1 \<and> dat ! 0 \<le> 16 then opcode = OP_1 + (dat ! 0 - 1)
      else if length dat = 1 \<and> dat ! 0 = 0x81 then opcode = OP_1NEGATE
      else if length dat \<le> 75 then unat opcode = length dat
      else if length dat \<le> 255 then opcode = OP_PUSHDATA1
      else if length dat \<le> 65535 then opcode = OP_PUSHDATA2
      else True)"

section \<open>Strict signature encoding\<close>

lemma signature_shape:
  assumes "length sig \<ge> 9" "5 + unat (sig ! 3) < length sig"
    and "unat (sig ! 3) + unat (sig ! (5 + unat (sig ! 3))) + 7 = length sig"
  obtains a b c d R x y S h where "sig = a # b # c # d # R @ x # y # S @ [h]"
    and "length R = unat d" "length S = unat y"
proof -
  have "\<exists>a b c d rest. sig = a # b # c # d # rest"
    using assms(1) by (auto simp: Suc_le_length_iff numeral_eq_Suc)
  then obtain a b c d rest where sig: "sig = a # b # c # d # rest" by blast
  define R where "R = take (unat d) rest"
  have "Suc (unat d) < length rest" using assms(2) sig by simp
  then obtain x y z where z: "drop (unat d) rest = x # y # z"
    by (metis (no_types, lifting) Cons_nth_drop_Suc Suc_lessD)
  have R: "rest = R @ x # y # z" "length R = unat d"
    using z append_take_drop_id [of "unat d" rest] \<open>Suc (unat d) < length rest\<close> by (simp_all add: R_def)
  have "sig ! (5 + unat (sig ! 3)) = y" using sig R by (simp add: nth_append)
  then have "length z = Suc (unat y)" using assms(3) sig R by simp
  then obtain S h where "z = S @ [h]" by (metis length_Suc_conv_rev)
  with sig R \<open>length z = Suc (unat y)\<close> that show thesis by simp
qed

lemma IsValidSignatureEncoding_conj:
  assumes "lenR = unat (sig ! 3)" "lenS = unat (sig ! (5 + lenR))"
  shows "IsValidSignatureEncoding sig \<longleftrightarrow>
    9 \<le> length sig \<and> length sig \<le> 73 \<and> sig ! 0 = 0x30 \<and> unat (sig ! 1) = length sig - 3
    \<and> 5 + lenR < length sig \<and> lenR + lenS + 7 = length sig \<and> sig ! 2 = 0x02
    \<and> lenR \<noteq> 0 \<and> sig ! 4 AND 0x80 = 0 \<and> \<not> (lenR > 1 \<and> sig ! 4 = 0 \<and> sig ! 5 AND 0x80 = 0)
    \<and> sig ! (lenR + 4) = 0x02
    \<and> lenS \<noteq> 0 \<and> sig ! (lenR + 6) AND 0x80 = 0
    \<and> \<not> (lenS > 1 \<and> sig ! (lenR + 6) = 0 \<and> sig ! (lenR + 7) AND 0x80 = 0)"
proof -
  have "(if P then False else Q) \<longleftrightarrow> \<not> P \<and> Q" for P Q by simp
  then show ?thesis
    unfolding IsValidSignatureEncoding_def Let_def assms
    by (simp only: not_less not_le not_not simp_thms if_True)
qed

lemma der_minimal_nth:
  "der_minimal R \<longleftrightarrow> length R \<noteq> 0 \<and> R ! 0 AND 0x80 = 0 \<and> \<not> (length R > 1 \<and> R ! 0 = 0 \<and> R ! 1 AND 0x80 = 0)"
  by (cases R) (auto simp: der_minimal_def)

lemma IsValidSignatureEncoding_shape:
  assumes "length R = unat d" "length S = unat y"
  shows "IsValidSignatureEncoding (a # b # c # d # R @ x # y # S @ [h]) \<longleftrightarrow>
    der_minimal R \<and> der_minimal S \<and> length R + length S \<le> 66 \<and> a = 0x30 \<and> c = 0x02 \<and> x = 0x02
    \<and> unat b = length R + length S + 4"
proof -
  define sig where "sig = a # b # c # d # R @ x # y # S @ [h]"
  have at: "sig ! 0 = a" "sig ! 1 = b" "sig ! 2 = c" "sig ! 3 = d"
      "sig ! (5 + length R) = y" "sig ! (length R + 4) = x"
    by (simp_all add: sig_def nth_append)
  have len: "length sig = length R + length S + 7" by (simp add: sig_def)
  have R: "length R \<noteq> 0 \<Longrightarrow> sig ! 4 = R ! 0" "length R > 1 \<Longrightarrow> sig ! 5 = R ! 1"
    by (simp_all add: sig_def nth_append)
  have S: "length S \<noteq> 0 \<Longrightarrow> sig ! (length R + 6) = S ! 0" "length S > 1 \<Longrightarrow> sig ! (length R + 7) = S ! 1"
    by (simp_all add: sig_def nth_append)
  have "length R = unat (sig ! 3)" "length S = unat (sig ! (5 + length R))" using at assms by simp_all
  note conj = IsValidSignatureEncoding_conj [OF this]
  have "length R \<noteq> 0 \<Longrightarrow> length S \<noteq> 0 \<Longrightarrow> 2 \<le> length R + length S" by linarith
  then show ?thesis
    unfolding sig_def [symmetric] conj at der_minimal_nth len using R S by auto
qed

lemma byte_of_unat: "unat (b :: byte) = n \<Longrightarrow> b = of_nat n"
  by auto

lemma der_signature_snoc:
  assumes "a = 0x30" "c = 0x02" "x = 0x02" "unat b = length R + length S + 4"
    and "length R = unat d" "length S = unat y"
  shows "a # b # c # d # R @ x # y # S @ [h] = der_signature R S @ [h]"
  using assms(1-3) byte_of_unat [OF assms(4)] byte_of_unat [OF assms(5) [symmetric]]
    byte_of_unat [OF assms(6) [symmetric]]
  by (simp add: der_signature_def)

lemma IsValidSignatureEncoding_iff:
  "IsValidSignatureEncoding sig \<longleftrightarrow>
     (\<exists>R S h. der_minimal R \<and> der_minimal S \<and> length R + length S \<le> 66 \<and> sig = der_signature R S @ [h])"
proof
  assume v: "IsValidSignatureEncoding sig"
  note c = IsValidSignatureEncoding_conj [THEN iffD1, OF refl refl v]
  obtain a b c d R x y S h where sig: "sig = a # b # c # d # R @ x # y # S @ [h]"
    and len: "length R = unat d" "length S = unat y"
    by (rule signature_shape [of sig]) (use c in simp_all)
  from v have m: "der_minimal R \<and> der_minimal S \<and> length R + length S \<le> 66 \<and> a = 0x30 \<and> c = 0x02 \<and> x = 0x02
    \<and> unat b = length R + length S + 4"
    unfolding sig IsValidSignatureEncoding_shape [OF len] .
  have "sig = der_signature R S @ [h]"
    unfolding sig using m len by (intro der_signature_snoc) blast+
  with m show "\<exists>R S h. der_minimal R \<and> der_minimal S \<and> length R + length S \<le> 66 \<and> sig = der_signature R S @ [h]"
    by blast
next
  assume "\<exists>R S h. der_minimal R \<and> der_minimal S \<and> length R + length S \<le> 66 \<and> sig = der_signature R S @ [h]"
  then obtain R S h where m: "der_minimal R" "der_minimal S" "length R + length S \<le> 66"
    and sig: "sig = der_signature R S @ [h]" by blast
  have len: "length R = unat (of_nat (length R) :: byte)" "length S = unat (of_nat (length S) :: byte)"
    using m(3) by (simp_all add: unat_of_nat)
  have "unat (of_nat (length R + length S + 4) :: byte) = length R + length S + 4"
    using m(3) by (simp add: unat_of_nat del: of_nat_add)
  with m show "IsValidSignatureEncoding sig"
    unfolding sig der_signature_def
    using IsValidSignatureEncoding_shape [OF len, of "0x30" "of_nat (length R + length S + 4)" "0x02" "0x02" h]
    by simp
qed

text \<open>
  C37: a signature passes the strict encoding check exactly when it is the DER encoding of two natural
  numbers followed by one byte, of at most 73 bytes; it passes the low-S check as well exactly when
  its second number is at most half the group order, or when one of its numbers is so large that the
  lenient reader replaces both by zero.
\<close>

theorem signature_encoding:
  "(IsValidSignatureEncoding sig \<longleftrightarrow>
      (\<exists>r s h. sig = der_signature (der_uint r) (der_uint s) @ [h] \<and> length sig \<le> 73))
   \<and> (IsLowDERSignature sig = None \<longleftrightarrow>
      (\<exists>r s h. sig = der_signature (der_uint r) (der_uint s) @ [h] \<and> length sig \<le> 73
         \<and> (s \<le> unat SECP256K1_N_H \<or> unat SECP256K1_N \<le> r \<or> unat SECP256K1_N \<le> s)))"
proof -
  have len: "length (der_signature R S @ [h]) \<le> 73 \<longleftrightarrow> length R + length S \<le> 66" for R S h
    by (auto simp: der_signature_def)
  have valid: "IsValidSignatureEncoding sig \<longleftrightarrow>
      (\<exists>r s h. sig = der_signature (der_uint r) (der_uint s) @ [h] \<and> length sig \<le> 73)"
    unfolding IsValidSignatureEncoding_iff
    using len der_uint_be_nat der_minimal_der_uint by metis
  have low: "CheckLowS (butlast (der_signature (der_uint r) (der_uint s) @ [h])) \<longleftrightarrow>
      s \<le> unat SECP256K1_N_H \<or> unat SECP256K1_N \<le> r \<or> unat SECP256K1_N \<le> s"
    if "length (der_signature (der_uint r) (der_uint s) @ [h]) \<le> 73" for r s h
    using that len CheckLowS_der_signature [of "der_uint r" "der_uint s"] by auto
  have "IsLowDERSignature sig = None \<longleftrightarrow> IsValidSignatureEncoding sig \<and> CheckLowS (butlast sig)"
    by (simp add: IsLowDERSignature_def)
  with valid low show ?thesis by metis
qed

end
