(* ===== verification/Sighash.thy ===== *)
theory Sighash
  imports SigEncoding "HOL-Library.Sublist"
begin

text \<open>
  Signature hashes (\<open>script/interpreter.cpp\<close>): the serializer that blanks parts of a transaction in
  place, the precomputed hashes, and \<open>SignatureHash\<close> for both signature versions. The function the
  unit tests keep as its reference, \<open>SignatureHashOld\<close> of \<open>test/sighash_tests.cpp\<close>, is modelled as
  well. The hash type is the \<open>int\<close>'s 32-bit pattern; the input index is one of the transaction's
  inputs, except where the code checks it.
\<close>

section \<open>Serializing the script code\<close>

text \<open>The loop that counts the separators.\<close>

function count_codeseparators :: "bytes \<Rightarrow> nat" where
  "count_codeseparators it =
     (case GetOp2 it of (ok, opcode, vch, it') \<Rightarrow>
        if ok then (if opcode = OP_CODESEPARATOR then 1 else 0) + count_codeseparators it' else 0)"
  by pat_completeness auto
termination
  by (relation "measure length") (auto intro: GetOp2_shrinks_sym)

text \<open>
  The loop that writes the script between separators: what it writes, and the two iterators it
  leaves behind.
\<close>

function write_between_separators :: "bytes \<Rightarrow> bytes \<Rightarrow> bytes \<times> bytes \<times> bytes" where
  "write_between_separators itBegin it =
     (case GetOp2 it of (ok, opcode, vch, it') \<Rightarrow>
        if ok
        then if opcode = OP_CODESEPARATOR
             then case write_between_separators it' it' of (out, itBegin', it'') \<Rightarrow>
                    (take (length itBegin - length it' - 1) itBegin @ out, itBegin', it'')
             else write_between_separators itBegin it'
        else ([], itBegin, it'))"
  by pat_completeness auto
termination
  by (relation "measure (\<lambda>(itBegin, it). length it)") (auto intro: GetOp2_shrinks_sym)

declare count_codeseparators.simps [simp del] write_between_separators.simps [simp del]

definition SerializeScriptCode :: "bytes \<Rightarrow> bytes" where
  "SerializeScriptCode scriptCode =
     (case write_between_separators scriptCode scriptCode of (out, itBegin, it) \<Rightarrow>
        WriteCompactSize (of_nat (length scriptCode - count_codeseparators scriptCode)) @ out @
        (if itBegin \<noteq> [] then take (length itBegin - length it) itBegin else []))"

section \<open>The signature serializer\<close>

record CTransactionSignatureSerializer =
  ss_txTo :: CTransaction
  ss_scriptCode :: bytes
  ss_nIn :: nat
  ss_fAnyoneCanPay :: bool
  ss_fHashSingle :: bool
  ss_fHashNone :: bool

definition CTransactionSignatureSerializer_new ::
  "CTransaction \<Rightarrow> bytes \<Rightarrow> nat \<Rightarrow> u32 \<Rightarrow> CTransactionSignatureSerializer" where
  "CTransactionSignatureSerializer_new txToIn scriptCodeIn nInIn nHashTypeIn =
     \<lparr> ss_txTo = txToIn, ss_scriptCode = scriptCodeIn, ss_nIn = nInIn,
       ss_fAnyoneCanPay = (nHashTypeIn AND SIGHASH_ANYONECANPAY \<noteq> 0),
       ss_fHashSingle = (nHashTypeIn AND 0x1f = SIGHASH_SINGLE),
       ss_fHashNone = (nHashTypeIn AND 0x1f = SIGHASH_NONE) \<rparr>"

definition SerializeInput :: "CTransactionSignatureSerializer \<Rightarrow> nat \<Rightarrow> bytes" where
  "SerializeInput z nInput0 =
     (let nInput = (if ss_fAnyoneCanPay z then ss_nIn z else nInput0);
          txin = vin (ss_txTo z) ! nInput
      in ser_outpoint (prevout txin) @
         (if nInput \<noteq> ss_nIn z then ser_bytes [] else SerializeScriptCode (ss_scriptCode z)) @
         (if nInput \<noteq> ss_nIn z \<and> (ss_fHashSingle z \<or> ss_fHashNone z)
          then ser_writedata32 0 else ser_writedata32 (nSequence txin)))"

definition SerializeOutput :: "CTransactionSignatureSerializer \<Rightarrow> nat \<Rightarrow> bytes" where
  "SerializeOutput z nOutput =
     (if ss_fHashSingle z \<and> nOutput \<noteq> ss_nIn z then ser_txout CTxOut_default
      else ser_txout (vout (ss_txTo z) ! nOutput))"

definition SignatureSerialize :: "CTransactionSignatureSerializer \<Rightarrow> bytes" where
  "SignatureSerialize z =
     (let nInputs = (if ss_fAnyoneCanPay z then 1 else length (vin (ss_txTo z)));
          nOutputs = (if ss_fHashNone z then 0
                      else if ss_fHashSingle z then ss_nIn z + 1 else length (vout (ss_txTo z)))
      in ser_writedata32 (nVersion (ss_txTo z)) @
         WriteCompactSize (of_nat nInputs) @ concat (map (SerializeInput z) [0..<nInputs]) @
         WriteCompactSize (of_nat nOutputs) @ concat (map (SerializeOutput z) [0..<nOutputs]) @
         ser_writedata32 (nLockTime (ss_txTo z)))"

section \<open>Signature hashes\<close>

definition GetPrevoutHash :: "CTransaction \<Rightarrow> uint256" where
  "GetPrevoutHash txTo = CHashWriter_GetHash (map (\<lambda>i. ser_outpoint (prevout i)) (vin txTo))"

definition GetSequenceHash :: "CTransaction \<Rightarrow> uint256" where
  "GetSequenceHash txTo = CHashWriter_GetHash (map (\<lambda>i. ser_writedata32 (nSequence i)) (vin txTo))"

definition GetOutputsHash :: "CTransaction \<Rightarrow> uint256" where
  "GetOutputsHash txTo = CHashWriter_GetHash (map ser_txout (vout txTo))"

record PrecomputedTransactionData =
  hashPrevouts :: uint256
  hashSequence :: uint256
  hashOutputs :: uint256

definition PrecomputedTransactionData_new :: "CTransaction \<Rightarrow> PrecomputedTransactionData" where
  "PrecomputedTransactionData_new txTo =
     \<lparr> hashPrevouts = GetPrevoutHash txTo, hashSequence = GetSequenceHash txTo,
       hashOutputs = GetOutputsHash txTo \<rparr>"

definition witness_hash_writes ::
  "bytes \<Rightarrow> CTransaction \<Rightarrow> nat \<Rightarrow> u32 \<Rightarrow> CAmount \<Rightarrow> PrecomputedTransactionData option \<Rightarrow> bytes list" where
  "witness_hash_writes scriptCode txTo nIn nHashType amount cache =
     (let anyone = nHashType AND SIGHASH_ANYONECANPAY \<noteq> 0;
          base = nHashType AND 0x1f;
          hPrevouts = (if \<not> anyone
             then case cache of Some c \<Rightarrow> hashPrevouts c | None \<Rightarrow> GetPrevoutHash txTo
             else 0);
          hSequence = (if \<not> anyone \<and> base \<noteq> SIGHASH_SINGLE \<and> base \<noteq> SIGHASH_NONE
             then case cache of Some c \<Rightarrow> hashSequence c | None \<Rightarrow> GetSequenceHash txTo
             else 0);
          hOutputs = (if base \<noteq> SIGHASH_SINGLE \<and> base \<noteq> SIGHASH_NONE
             then case cache of Some c \<Rightarrow> hashOutputs c | None \<Rightarrow> GetOutputsHash txTo
             else if base = SIGHASH_SINGLE \<and> nIn < length (vout txTo)
             then CHashWriter_GetHash [ser_txout (vout txTo ! nIn)]
             else 0)
      in [ser_writedata32 (nVersion txTo), ser_uint256 hPrevouts, ser_uint256 hSequence,
          ser_outpoint (prevout (vin txTo ! nIn)), ser_bytes scriptCode, ser_int64 amount,
          ser_writedata32 (nSequence (vin txTo ! nIn)), ser_uint256 hOutputs,
          ser_writedata32 (nLockTime txTo), ser_writedata32 nHashType])"

definition SignatureHash ::
  "bytes \<Rightarrow> CTransaction \<Rightarrow> nat \<Rightarrow> u32 \<Rightarrow> CAmount \<Rightarrow> SigVersion \<Rightarrow>
     PrecomputedTransactionData option \<Rightarrow> uint256" where
  "SignatureHash scriptCode txTo nIn nHashType amount sigversion cache =
     (if sigversion = SIGVERSION_WITNESS_V0
      then CHashWriter_GetHash (witness_hash_writes scriptCode txTo nIn nHashType amount cache)
      else if nIn \<ge> length (vin txTo) then 1
      else if nHashType AND 0x1f = SIGHASH_SINGLE \<and> nIn \<ge> length (vout txTo) then 1
      else CHashWriter_GetHash
             [SignatureSerialize (CTransactionSignatureSerializer_new txTo scriptCode nIn nHashType),
              ser_writedata32 nHashType])"

section \<open>The reference the tests keep\<close>

definition blank_input :: "nat \<Rightarrow> bytes \<Rightarrow> bool \<Rightarrow> nat \<Rightarrow> CTxIn \<Rightarrow> CTxIn" where
  "blank_input nIn scriptCode reset i txin =
     txin\<lparr> scriptSig := (if i = nIn then scriptCode else []),
           nSequence := (if reset \<and> i \<noteq> nIn then 0 else nSequence txin) \<rparr>"

text \<open>The copy \<open>txTmp\<close> that \<open>SignatureHashOld\<close> serializes; \<open>None\<close> is its early \<open>return one\<close>.\<close>

definition SignatureHashOld_tx :: "bytes \<Rightarrow> CTransaction \<Rightarrow> nat \<Rightarrow> u32 \<Rightarrow> CTransaction option" where
  "SignatureHashOld_tx scriptCode0 txTo nIn nHashType =
     (if nIn \<ge> length (vin txTo) then None
      else let scriptCode = fst (FindAndDelete scriptCode0 [OP_CODESEPARATOR]);
               base = nHashType AND 0x1f;
               reset = (base = SIGHASH_NONE \<or> base = SIGHASH_SINGLE);
               ins = map (\<lambda>i. blank_input nIn scriptCode reset i (vin txTo ! i)) [0..<length (vin txTo)];
               ins' = (if nHashType AND SIGHASH_ANYONECANPAY \<noteq> 0 then [ins ! nIn] else ins)
           in if base = SIGHASH_NONE then Some (txTo\<lparr> vin := ins', vout := [] \<rparr>)
              else if base = SIGHASH_SINGLE
              then if nIn \<ge> length (vout txTo) then None
                   else Some (txTo\<lparr> vin := ins',
                                    vout := replicate nIn CTxOut_default @ [vout txTo ! nIn] \<rparr>)
              else Some (txTo\<lparr> vin := ins' \<rparr>))"

definition SignatureHashOld :: "bytes \<Rightarrow> CTransaction \<Rightarrow> nat \<Rightarrow> u32 \<Rightarrow> ser_error + uint256" where
  "SignatureHashOld scriptCode txTo nIn nHashType =
     (case SignatureHashOld_tx scriptCode txTo nIn nHashType of
        None \<Rightarrow> Inr 1
      | Some txTmp \<Rightarrow>
          sbind (SerializeTransaction False txTmp)
            (\<lambda>bs. Inr (CHashWriter_GetHash [bs, ser_writedata32 nHashType])))"

section \<open>Removing code separators\<close>

function strip_codeseparators :: "bytes \<Rightarrow> bytes" where
  "strip_codeseparators script =
     (case GetOp2 script of (ok, opcode, vch, rest) \<Rightarrow>
        if ok then (if opcode = OP_CODESEPARATOR then [] else take (length script - length rest) script)
                   @ strip_codeseparators rest
        else script)"
  by pat_completeness auto
termination
  by (relation "measure length") (auto intro: GetOp2_shrinks_sym)

text \<open>A script all of whose instructions can be read.\<close>

function complete_script :: "bytes \<Rightarrow> bool" where
  "complete_script script =
     (if script = [] then True
      else case GetOp2 script of (ok, opcode, vch, rest) \<Rightarrow> if ok then complete_script rest else False)"
  by pat_completeness auto
termination
  by (relation "measure length") (auto intro: GetOp2_shrinks_sym)

declare strip_codeseparators.simps [simp del] complete_script.simps [simp del]
declare OP_CODESEPARATOR_def [simp del]

lemma GetOp2_codeseparatorD:
  "GetOp2 it = (True, OP_CODESEPARATOR, v, rest) \<Longrightarrow> it = OP_CODESEPARATOR # rest"
  by (auto simp: GetOp2_def getop_operand_def OP_CODESEPARATOR_def split: list.splits if_splits)

lemma GetOp2_codeseparator: "GetOp2 (OP_CODESEPARATOR # rest) = (True, OP_CODESEPARATOR, [], rest)"
  by (simp add: GetOp2_def OP_CODESEPARATOR_def)

lemma GetOp2_Nil [simp]: "GetOp2 [] = (False, OP_INVALIDOPCODE, [], [])"
  by (simp add: GetOp2_def)

lemma strip_codeseparator_Cons [simp]:
  "strip_codeseparators (OP_CODESEPARATOR # rest) = strip_codeseparators rest"
  by (subst strip_codeseparators.simps) (simp add: GetOp2_codeseparator)

lemma write_between_separators_eq:
  "complete_script it \<Longrightarrow> write_between_separators (pre @ it) it = (out, itBegin, it') \<Longrightarrow>
     it' = [] \<and> out @ itBegin = pre @ strip_codeseparators it"
proof (induction "length it" arbitrary: pre it out itBegin it' rule: less_induct)
  case less
  obtain ok opcode vch rest where op: "GetOp2 it = (ok, opcode, vch, rest)" by (cases "GetOp2 it") auto
  show ?case
  proof (cases "it = []")
    case True
    with less.prems(2) show ?thesis
      using write_between_separators.simps [of pre "[]"] strip_codeseparators.simps [of "[]"] by simp
  next
    case False
    with less.prems(1) op have ok: "ok" "complete_script rest"
      using complete_script.simps [of it] by (simp_all split: if_splits)
    then have short: "length rest < length it" using op GetOp2_shrinks by auto
    show ?thesis
    proof (cases "opcode = OP_CODESEPARATOR")
      case True
      with op ok have it: "it = OP_CODESEPARATOR # rest" by (intro GetOp2_codeseparatorD) simp
      obtain out' b e where rec: "write_between_separators ([] @ rest) rest = (out', b, e)"
        by (cases "write_between_separators ([] @ rest) rest") auto
      from less.prems(2) rec have "out = pre @ out'" "itBegin = b" "it' = e"
        using write_between_separators.simps [of "pre @ it" it] by (simp_all add: op ok True) (simp_all add: it)
      with less.hyps [OF short ok(2) rec] show ?thesis by (simp only: it strip_codeseparator_Cons) simp
    next
      case False
      from op have suf: "suffix rest it" by (rule GetOp2_suffix)
      define mid where "mid = take (length it - length rest) it"
      have it: "it = mid @ rest" using suf by (auto simp: mid_def suffix_def)
      from less.prems(2) have "write_between_separators ((pre @ mid) @ rest) rest = (out, itBegin, it')"
        using False write_between_separators.simps [of "pre @ it" it] by (simp add: op ok it [symmetric])
      from less.hyps [OF short ok(2) this] show ?thesis
        using False by (subst strip_codeseparators.simps) (simp add: op ok mid_def)
    qed
  qed
qed

lemma strip_codeseparators_length:
  "length (strip_codeseparators it) + count_codeseparators it = length it"
proof (induction it rule: strip_codeseparators.induct)
  case (1 it)
  obtain ok opcode vch rest where op: "GetOp2 it = (ok, opcode, vch, rest)" by (cases "GetOp2 it") auto
  show ?case
  proof (cases "ok \<and> opcode = OP_CODESEPARATOR")
    case True
    with op have "it = OP_CODESEPARATOR # rest" by (intro GetOp2_codeseparatorD) simp
    with 1 [OF op [symmetric] refl refl] True op show ?thesis
      by (subst strip_codeseparators.simps, subst count_codeseparators.simps) simp
  next
    case False
    with 1 [OF op [symmetric] refl refl] op GetOp2_suffix [OF op] show ?thesis
      by (subst strip_codeseparators.simps, subst count_codeseparators.simps)
         (auto simp: suffix_def)
  qed
qed

lemma SerializeScriptCode_eq:
  assumes "complete_script scriptCode"
  shows "SerializeScriptCode scriptCode = ser_bytes (strip_codeseparators scriptCode)"
proof -
  obtain out b e where w: "write_between_separators ([] @ scriptCode) scriptCode = (out, b, e)"
    by (cases "write_between_separators ([] @ scriptCode) scriptCode") auto
  have "length scriptCode - count_codeseparators scriptCode = length (strip_codeseparators scriptCode)"
    using strip_codeseparators_length [of scriptCode] by simp
  then show ?thesis
    using write_between_separators_eq [OF assms w] w by (auto simp: SerializeScriptCode_def ser_bytes_def)
qed

lemma skip_matches_strip:
  "skip_matches [OP_CODESEPARATOR] pc n = (pcm, m) \<Longrightarrow>
     strip_codeseparators pcm = strip_codeseparators pc \<and> \<not> (\<exists>rest. pcm = OP_CODESEPARATOR # rest)"
proof (induction "[OP_CODESEPARATOR]" pc n rule: skip_matches.induct)
  case (1 pc n)
  show ?case
  proof (cases "\<exists>rest. pc = OP_CODESEPARATOR # rest")
    case True
    then obtain rest where pc: "pc = OP_CODESEPARATOR # rest" by blast
    with "1.prems" have "skip_matches [OP_CODESEPARATOR] (drop (length [OP_CODESEPARATOR]) pc) (n + 1) = (pcm, m)"
      by (subst (asm) skip_matches.simps) simp
    from "1.hyps" [OF _ this] show ?thesis by (simp only: pc strip_codeseparator_Cons) simp
  next
    case False
    then have "\<not> ([OP_CODESEPARATOR] \<noteq> [] \<and> length pc \<ge> length [OP_CODESEPARATOR] \<and>
        take (length [OP_CODESEPARATOR]) pc = [OP_CODESEPARATOR])"
      by (cases pc) simp_all
    with "1.prems" False show ?thesis by (subst (asm) skip_matches.simps) (simp only: if_False prod.inject simp_thms)
  qed
qed

lemma find_delete_strip:
  "find_delete_loop [OP_CODESEPARATOR] result pc (pre @ pc) n = (r, p, m) \<Longrightarrow>
     r @ p = result @ pre @ strip_codeseparators pc"
proof (induction "length pc" arbitrary: result pc pre n rule: less_induct)
  case less
  obtain pcm k where skip: "skip_matches [OP_CODESEPARATOR] pc n = (pcm, k)"
    by (cases "skip_matches [OP_CODESEPARATOR] pc n")
  note s = skip_matches_strip [OF skip]
  obtain ok opcode vch pc' where op: "GetOp2 pcm = (ok, opcode, vch, pc')" by (cases "GetOp2 pcm") auto
  show ?case
  proof (cases ok)
    case True
    with s op have ne: "opcode \<noteq> OP_CODESEPARATOR" using GetOp2_codeseparatorD by auto
    define mid where "mid = take (length pcm - length pc') pcm"
    have pcm: "pcm = mid @ pc'" using GetOp2_suffix [OF op] by (auto simp: mid_def suffix_def)
    have "length pc' < length pc"
      using length_skip_matches [of "[OP_CODESEPARATOR]" pc n] skip GetOp2_shrinks [of pcm] op True by fastforce
    moreover have "find_delete_loop [OP_CODESEPARATOR] (result @ pre) pc' (mid @ pc') k = (r, p, m)"
      using less.prems True
      by (subst (asm) find_delete_loop.simps) (simp only: Let_def skip op prod.case if_True pcm [symmetric], simp)
    ultimately have "r @ p = (result @ pre) @ mid @ strip_codeseparators pc'" by (rule less.hyps)
    moreover have "strip_codeseparators pcm = mid @ strip_codeseparators pc'"
      using True ne by (subst strip_codeseparators.simps) (simp add: op mid_def)
    ultimately show ?thesis using s by simp
  next
    case False
    then have "strip_codeseparators pcm = pcm" by (subst strip_codeseparators.simps) (simp add: op)
    then show ?thesis
      using less.prems False s by (subst (asm) find_delete_loop.simps) (auto simp: skip op)
  qed
qed

lemma FindAndDelete_codeseparator:
  "fst (FindAndDelete script [OP_CODESEPARATOR]) = strip_codeseparators script"
proof -
  obtain r p m where loop: "find_delete_loop [OP_CODESEPARATOR] [] script ([] @ script) 0 = (r, p, m)"
    by (cases "find_delete_loop [OP_CODESEPARATOR] [] script ([] @ script) 0") auto
  have "m = 0 \<Longrightarrow> script = r @ p"
    using find_delete_loop_invariant [of "[OP_CODESEPARATOR]" "[]" script script 0 r p m] loop by simp
  then show ?thesis
    using find_delete_strip [OF loop] loop by (auto simp: FindAndDelete_def)
qed

section \<open>The serializer and the reference agree\<close>

lemma SerializeInput_eq:
  assumes "complete_script scriptCode"
    and "z = CTransactionSignatureSerializer_new txTo scriptCode nIn nHashType"
    and "reset = (ss_fHashNone z \<or> ss_fHashSingle z)"
  shows "SerializeInput z i = ser_txin
    (let j = (if ss_fAnyoneCanPay z then nIn else i)
     in blank_input nIn (strip_codeseparators scriptCode) reset j (vin txTo ! j))"
  using SerializeScriptCode_eq [OF assms(1)]
  by (auto simp: assms(2,3) SerializeInput_def CTransactionSignatureSerializer_new_def Let_def
      blank_input_def ser_txin_def)

lemma SignatureSerialize_eq:
  assumes "complete_script scriptCode"
    and "SignatureHashOld_tx scriptCode txTo nIn nHashType = Some txTmp"
  shows "SignatureSerialize (CTransactionSignatureSerializer_new txTo scriptCode nIn nHashType)
           @ ext_bytes (extData txTo) = tx_bytes False txTmp"
proof -
  define z where "z = CTransactionSignatureSerializer_new txTo scriptCode nIn nHashType"
  have z: "ss_txTo z = txTo" "ss_nIn z = nIn" "ss_fAnyoneCanPay z = (nHashType AND SIGHASH_ANYONECANPAY \<noteq> 0)"
      "ss_fHashSingle z = (nHashType AND 0x1f = SIGHASH_SINGLE)" "ss_fHashNone z = (nHashType AND 0x1f = SIGHASH_NONE)"
    by (simp_all add: z_def CTransactionSignatureSerializer_new_def)
  define reset where "reset = (ss_fHashNone z \<or> ss_fHashSingle z)"
  define ins where "ins = map (\<lambda>i. blank_input nIn (strip_codeseparators scriptCode) reset i (vin txTo ! i))
      [0..<length (vin txTo)]"
  note old = assms(2) [unfolded SignatureHashOld_tx_def Let_def FindAndDelete_codeseparator
      z(3-5) [symmetric] reset_def [symmetric] ins_def [symmetric]]
  have nIn: "nIn < length (vin txTo)" using old by (simp split: if_splits)
  have tmp: "nVersion txTmp = nVersion txTo" "nLockTime txTmp = nLockTime txTo" "extData txTmp = extData txTo"
      "vin txTmp = (if ss_fAnyoneCanPay z then [ins ! nIn] else ins)"
      "vout txTmp = (if ss_fHashNone z then [] else if ss_fHashSingle z
         then replicate nIn CTxOut_default @ [vout txTo ! nIn] else vout txTo)"
    using old by (auto split: if_splits)
  have "SerializeInput z i = ser_txin (vin txTmp ! i)" if "i < length (vin txTmp)" for i
    using that nIn SerializeInput_eq [OF assms(1) z_def reset_def]
    by (cases "ss_fAnyoneCanPay z") (simp_all add: tmp ins_def)
  then have "map (SerializeInput z) [0..<length (vin txTmp)] = map ser_txin (vin txTmp)"
    by (intro nth_equalityI) simp_all
  moreover have "(if ss_fAnyoneCanPay z then 1 else length (vin txTo)) = length (vin txTmp)"
    by (simp add: tmp ins_def)
  moreover have "SerializeOutput z i = ser_txout (vout txTmp ! i)" if "i < length (vout txTmp)" for i
    using that by (auto simp: tmp SerializeOutput_def z nth_append)
  then have "map (SerializeOutput z) [0..<length (vout txTmp)] = map ser_txout (vout txTmp)"
    by (intro nth_equalityI) simp_all
  moreover have "(if ss_fHashNone z then 0 else if ss_fHashSingle z then nIn + 1 else length (vout txTo))
      = length (vout txTmp)"
    by (simp add: tmp)
  ultimately show ?thesis
    unfolding z_def [symmetric] SignatureSerialize_def Let_def z(1,2) tx_bytes_def ser_vector_def
    by (simp add: tmp)
qed



text \<open>
  C35: a signature hash is determined by the version, the outpoints and sequence numbers of the
  inputs, the outputs and the lock time: neither signature scripts nor witnesses nor the extension
  data enter it, for either signature version and every hash type. Precomputed hashes of the same
  transaction do not change it.
\<close>

theorem SignatureHash_covers:
  assumes "nVersion tx = nVersion tx'" "nLockTime tx = nLockTime tx'" "vout tx = vout tx'"
    and "map prevout (vin tx) = map prevout (vin tx')" "map nSequence (vin tx) = map nSequence (vin tx')"
    and "nIn < length (vin tx)"
  shows "SignatureHash scriptCode tx nIn nHashType amount sigversion (Some (PrecomputedTransactionData_new tx))
       = SignatureHash scriptCode tx' nIn nHashType amount sigversion None"
proof -
  have len: "length (vin tx) = length (vin tx')" using assms(4) by (rule map_eq_imp_length_eq)
  have nth: "prevout (vin tx ! i) = prevout (vin tx' ! i)" "nSequence (vin tx ! i) = nSequence (vin tx' ! i)"
    if "i < length (vin tx)" for i
    using that assms(4,5) len by (metis nth_map)+
  have maps: "map (\<lambda>i. ser_outpoint (prevout i)) (vin tx) = map (\<lambda>i. ser_outpoint (prevout i)) (vin tx')"
      "map (\<lambda>i. ser_writedata32 (nSequence i)) (vin tx) = map (\<lambda>i. ser_writedata32 (nSequence i)) (vin tx')"
    using arg_cong [OF assms(4), of "map ser_outpoint"] arg_cong [OF assms(5), of "map ser_writedata32"]
    by (simp_all add: comp_def)
  have wit: "witness_hash_writes scriptCode tx nIn nHashType amount (Some (PrecomputedTransactionData_new tx))
      = witness_hash_writes scriptCode tx' nIn nHashType amount None"
    using assms(1-3) nth [OF assms(6)] maps
    by (simp add: witness_hash_writes_def Let_def PrecomputedTransactionData_new_def
        GetPrevoutHash_def GetSequenceHash_def GetOutputsHash_def)
  let ?z = "CTransactionSignatureSerializer_new tx scriptCode nIn nHashType"
  let ?z' = "CTransactionSignatureSerializer_new tx' scriptCode nIn nHashType"
  let ?n = "if ss_fAnyoneCanPay ?z then 1 else length (vin tx)"
  have sel: "ss_txTo ?z = tx" "ss_txTo ?z' = tx'" "ss_nIn ?z' = ss_nIn ?z" "ss_fAnyoneCanPay ?z' = ss_fAnyoneCanPay ?z"
      "ss_fHashSingle ?z' = ss_fHashSingle ?z" "ss_fHashNone ?z' = ss_fHashNone ?z"
      "ss_scriptCode ?z' = ss_scriptCode ?z" "ss_nIn ?z = nIn"
    by (simp_all add: CTransactionSignatureSerializer_new_def)
  have "SerializeInput ?z i = SerializeInput ?z' i" if "i < ?n" for i
    using that nth [of i] nth [OF assms(6)]
    by (cases "ss_fAnyoneCanPay ?z") (simp_all add: SerializeInput_def Let_def sel)
  then have "map (SerializeInput ?z) [0..<?n] = map (SerializeInput ?z') [0..<?n]" by (intro map_cong) auto
  moreover have "SerializeOutput ?z = SerializeOutput ?z'"
    by (rule ext) (simp add: SerializeOutput_def sel assms(3))
  ultimately have "SignatureSerialize ?z = SignatureSerialize ?z'"
    unfolding SignatureSerialize_def Let_def sel assms(1-3) len by (simp only:)
  with wit show ?thesis using assms(3) len by (simp add: SignatureHash_def)
qed

theorem SignatureHash_covers_witness:
  "SignatureHash [0xac] (CTransaction_default\<lparr> vin := [\<lparr> prevout = \<lparr> op_hash = 1, op_n = 0 \<rparr>,
        scriptSig = [0x51], nSequence = 5, scriptWitness = [[1]] \<rparr>] \<rparr>) 0 1 7 SIGVERSION_BASE
      (Some (PrecomputedTransactionData_new (CTransaction_default\<lparr> vin := [\<lparr> prevout = \<lparr> op_hash = 1, op_n = 0 \<rparr>,
        scriptSig = [0x51], nSequence = 5, scriptWitness = [[1]] \<rparr>] \<rparr>)))
   = SignatureHash [0xac] (CTransaction_default\<lparr> vin := [\<lparr> prevout = \<lparr> op_hash = 1, op_n = 0 \<rparr>,
        scriptSig = [], nSequence = 5, scriptWitness = [] \<rparr>],
        extData := CExtData_default\<lparr> nExtType := 9 \<rparr> \<rparr>) 0 1 7 SIGVERSION_BASE None"
  by (rule SignatureHash_covers) simp_all

lemma witness_writes_obtain:
  obtains hp hs ho where "witness_hash_writes sc tx nIn ht amt None =
      [ser_writedata32 (nVersion tx), ser_uint256 hp, ser_uint256 hs,
       ser_outpoint (prevout (vin tx ! nIn)), ser_bytes sc, ser_int64 amt,
       ser_writedata32 (nSequence (vin tx ! nIn)), ser_uint256 ho,
       ser_writedata32 (nLockTime tx), ser_writedata32 ht]"
    and "ht AND SIGHASH_ANYONECANPAY = 0 \<longrightarrow> hp = GetPrevoutHash tx"
      "ht AND 0x1f = SIGHASH_ALL \<longrightarrow> ho = GetOutputsHash tx"
      "ht AND SIGHASH_ANYONECANPAY = 0 \<longrightarrow> ht AND 0x1f = SIGHASH_ALL \<longrightarrow> hs = GetSequenceHash tx"
  by (rule that [OF witness_hash_writes_def [unfolded Let_def]]) simp_all



declare OP_CODESEPARATOR_def [simp]

end
