(* ===== verification/Sha1.thy ===== *)
theory Sha1
  imports Hasher
begin

text \<open>
  \<open>crypto/sha1.cpp\<close>: the unrolled SHA-1 compression function and its hasher class, with the
  standard's rolled definition it is proved equal to.
\<close>

section \<open>The compression function\<close>

type_synonym u32x5 = "u32 \<times> u32 \<times> u32 \<times> u32 \<times> u32"
type_synonym u32w16 = "u32 \<times> u32 \<times> u32 \<times> u32 \<times> u32 \<times> u32 \<times> u32 \<times> u32 \<times>
  u32 \<times> u32 \<times> u32 \<times> u32 \<times> u32 \<times> u32 \<times> u32 \<times> u32"

text \<open>One round; the result is the new \<open>b\<close> and \<open>e\<close>, which the code passes by reference.\<close>

definition sha1_Round :: "u32 \<Rightarrow> u32 \<Rightarrow> u32 \<Rightarrow> u32 \<Rightarrow> u32 \<Rightarrow> u32 \<Rightarrow> u32 \<Rightarrow> u32 \<Rightarrow> u32 \<times> u32" where
  "sha1_Round a b c d e f k w =
     (push_bit 30 b OR drop_bit 2 b, e + ((push_bit 5 a OR drop_bit 27 a) + f + k + w))"

definition sha1_f1 :: "u32 \<Rightarrow> u32 \<Rightarrow> u32 \<Rightarrow> u32" where
  "sha1_f1 b c d = d XOR (b AND (c XOR d))"

definition sha1_f2 :: "u32 \<Rightarrow> u32 \<Rightarrow> u32 \<Rightarrow> u32" where
  "sha1_f2 b c d = b XOR c XOR d"

definition sha1_f3 :: "u32 \<Rightarrow> u32 \<Rightarrow> u32 \<Rightarrow> u32" where
  "sha1_f3 b c d = (b AND c) OR (d AND (b OR c))"

definition sha1_left :: "u32 \<Rightarrow> u32" where
  "sha1_left x = push_bit 1 x OR drop_bit 31 x"

definition sha1_Initialize :: "u32 list" where
  "sha1_Initialize = [0x67452301, 0xEFCDAB89, 0x98BADCFE, 0x10325476, 0xC3D2E1F0]"

definition sha1_k1 :: u32 where "sha1_k1 = 0x5A827999"
definition sha1_k2 :: u32 where "sha1_k2 = 0x6ED9EBA1"
definition sha1_k3 :: u32 where "sha1_k3 = 0x8F1BBCDC"
definition sha1_k4 :: u32 where "sha1_k4 = 0xCA62C1D6"

definition sha1_rounds0 :: "u32x5 \<Rightarrow> bytes \<Rightarrow> u32x5 \<times> u32w16" where
  "sha1_rounds0 = (\<lambda>(a, b, c, d, e) chunk.
     let w0 = ReadBE32 chunk 0;
         (b, e) = sha1_Round a b c d e (sha1_f1 b c d) sha1_k1 w0;
         w1 = ReadBE32 chunk 4;
         (a, d) = sha1_Round e a b c d (sha1_f1 a b c) sha1_k1 w1;
         w2 = ReadBE32 chunk 8;
         (e, c) = sha1_Round d e a b c (sha1_f1 e a b) sha1_k1 w2;
         w3 = ReadBE32 chunk 12;
         (d, b) = sha1_Round c d e a b (sha1_f1 d e a) sha1_k1 w3;
         w4 = ReadBE32 chunk 16;
         (c, a) = sha1_Round b c d e a (sha1_f1 c d e) sha1_k1 w4;
         w5 = ReadBE32 chunk 20;
         (b, e) = sha1_Round a b c d e (sha1_f1 b c d) sha1_k1 w5;
         w6 = ReadBE32 chunk 24;
         (a, d) = sha1_Round e a b c d (sha1_f1 a b c) sha1_k1 w6;
         w7 = ReadBE32 chunk 28;
         (e, c) = sha1_Round d e a b c (sha1_f1 e a b) sha1_k1 w7;
         w8 = ReadBE32 chunk 32;
         (d, b) = sha1_Round c d e a b (sha1_f1 d e a) sha1_k1 w8;
         w9 = ReadBE32 chunk 36;
         (c, a) = sha1_Round b c d e a (sha1_f1 c d e) sha1_k1 w9;
         w10 = ReadBE32 chunk 40;
         (b, e) = sha1_Round a b c d e (sha1_f1 b c d) sha1_k1 w10;
         w11 = ReadBE32 chunk 44;
         (a, d) = sha1_Round e a b c d (sha1_f1 a b c) sha1_k1 w11;
         w12 = ReadBE32 chunk 48;
         (e, c) = sha1_Round d e a b c (sha1_f1 e a b) sha1_k1 w12;
         w13 = ReadBE32 chunk 52;
         (d, b) = sha1_Round c d e a b (sha1_f1 d e a) sha1_k1 w13;
         w14 = ReadBE32 chunk 56;
         (c, a) = sha1_Round b c d e a (sha1_f1 c d e) sha1_k1 w14;
         w15 = ReadBE32 chunk 60;
         (b, e) = sha1_Round a b c d e (sha1_f1 b c d) sha1_k1 w15
     in ((a, b, c, d, e), (w0, w1, w2, w3, w4, w5, w6, w7, w8, w9, w10, w11, w12, w13, w14, w15)))"

definition sha1_rounds1 :: "u32x5 \<Rightarrow> u32w16 \<Rightarrow> u32x5 \<times> u32w16" where
  "sha1_rounds1 = (\<lambda>(a, b, c, d, e) (w0, w1, w2, w3, w4, w5, w6, w7, w8, w9, w10, w11, w12, w13, w14, w15).
     let w0 = sha1_left (w0 XOR w13 XOR w8 XOR w2);
         (a, d) = sha1_Round e a b c d (sha1_f1 a b c) sha1_k1 w0;
         w1 = sha1_left (w1 XOR w14 XOR w9 XOR w3);
         (e, c) = sha1_Round d e a b c (sha1_f1 e a b) sha1_k1 w1;
         w2 = sha1_left (w2 XOR w15 XOR w10 XOR w4);
         (d, b) = sha1_Round c d e a b (sha1_f1 d e a) sha1_k1 w2;
         w3 = sha1_left (w3 XOR w0 XOR w11 XOR w5);
         (c, a) = sha1_Round b c d e a (sha1_f1 c d e) sha1_k1 w3;
         w4 = sha1_left (w4 XOR w1 XOR w12 XOR w6);
         (b, e) = sha1_Round a b c d e (sha1_f2 b c d) sha1_k2 w4;
         w5 = sha1_left (w5 XOR w2 XOR w13 XOR w7);
         (a, d) = sha1_Round e a b c d (sha1_f2 a b c) sha1_k2 w5;
         w6 = sha1_left (w6 XOR w3 XOR w14 XOR w8);
         (e, c) = sha1_Round d e a b c (sha1_f2 e a b) sha1_k2 w6;
         w7 = sha1_left (w7 XOR w4 XOR w15 XOR w9);
         (d, b) = sha1_Round c d e a b (sha1_f2 d e a) sha1_k2 w7;
         w8 = sha1_left (w8 XOR w5 XOR w0 XOR w10);
         (c, a) = sha1_Round b c d e a (sha1_f2 c d e) sha1_k2 w8;
         w9 = sha1_left (w9 XOR w6 XOR w1 XOR w11);
         (b, e) = sha1_Round a b c d e (sha1_f2 b c d) sha1_k2 w9;
         w10 = sha1_left (w10 XOR w7 XOR w2 XOR w12);
         (a, d) = sha1_Round e a b c d (sha1_f2 a b c) sha1_k2 w10;
         w11 = sha1_left (w11 XOR w8 XOR w3 XOR w13);
         (e, c) = sha1_Round d e a b c (sha1_f2 e a b) sha1_k2 w11;
         w12 = sha1_left (w12 XOR w9 XOR w4 XOR w14);
         (d, b) = sha1_Round c d e a b (sha1_f2 d e a) sha1_k2 w12;
         w13 = sha1_left (w13 XOR w10 XOR w5 XOR w15);
         (c, a) = sha1_Round b c d e a (sha1_f2 c d e) sha1_k2 w13;
         w14 = sha1_left (w14 XOR w11 XOR w6 XOR w0);
         (b, e) = sha1_Round a b c d e (sha1_f2 b c d) sha1_k2 w14;
         w15 = sha1_left (w15 XOR w12 XOR w7 XOR w1);
         (a, d) = sha1_Round e a b c d (sha1_f2 a b c) sha1_k2 w15
     in ((a, b, c, d, e), (w0, w1, w2, w3, w4, w5, w6, w7, w8, w9, w10, w11, w12, w13, w14, w15)))"

definition sha1_rounds2 :: "u32x5 \<Rightarrow> u32w16 \<Rightarrow> u32x5 \<times> u32w16" where
  "sha1_rounds2 = (\<lambda>(a, b, c, d, e) (w0, w1, w2, w3, w4, w5, w6, w7, w8, w9, w10, w11, w12, w13, w14, w15).
     let w0 = sha1_left (w0 XOR w13 XOR w8 XOR w2);
         (e, c) = sha1_Round d e a b c (sha1_f2 e a b) sha1_k2 w0;
         w1 = sha1_left (w1 XOR w14 XOR w9 XOR w3);
         (d, b) = sha1_Round c d e a b (sha1_f2 d e a) sha1_k2 w1;
         w2 = sha1_left (w2 XOR w15 XOR w10 XOR w4);
         (c, a) = sha1_Round b c d e a (sha1_f2 c d e) sha1_k2 w2;
         w3 = sha1_left (w3 XOR w0 XOR w11 XOR w5);
         (b, e) = sha1_Round a b c d e (sha1_f2 b c d) sha1_k2 w3;
         w4 = sha1_left (w4 XOR w1 XOR w12 XOR w6);
         (a, d) = sha1_Round e a b c d (sha1_f2 a b c) sha1_k2 w4;
         w5 = sha1_left (w5 XOR w2 XOR w13 XOR w7);
         (e, c) = sha1_Round d e a b c (sha1_f2 e a b) sha1_k2 w5;
         w6 = sha1_left (w6 XOR w3 XOR w14 XOR w8);
         (d, b) = sha1_Round c d e a b (sha1_f2 d e a) sha1_k2 w6;
         w7 = sha1_left (w7 XOR w4 XOR w15 XOR w9);
         (c, a) = sha1_Round b c d e a (sha1_f2 c d e) sha1_k2 w7;
         w8 = sha1_left (w8 XOR w5 XOR w0 XOR w10);
         (b, e) = sha1_Round a b c d e (sha1_f3 b c d) sha1_k3 w8;
         w9 = sha1_left (w9 XOR w6 XOR w1 XOR w11);
         (a, d) = sha1_Round e a b c d (sha1_f3 a b c) sha1_k3 w9;
         w10 = sha1_left (w10 XOR w7 XOR w2 XOR w12);
         (e, c) = sha1_Round d e a b c (sha1_f3 e a b) sha1_k3 w10;
         w11 = sha1_left (w11 XOR w8 XOR w3 XOR w13);
         (d, b) = sha1_Round c d e a b (sha1_f3 d e a) sha1_k3 w11;
         w12 = sha1_left (w12 XOR w9 XOR w4 XOR w14);
         (c, a) = sha1_Round b c d e a (sha1_f3 c d e) sha1_k3 w12;
         w13 = sha1_left (w13 XOR w10 XOR w5 XOR w15);
         (b, e) = sha1_Round a b c d e (sha1_f3 b c d) sha1_k3 w13;
         w14 = sha1_left (w14 XOR w11 XOR w6 XOR w0);
         (a, d) = sha1_Round e a b c d (sha1_f3 a b c) sha1_k3 w14;
         w15 = sha1_left (w15 XOR w12 XOR w7 XOR w1);
         (e, c) = sha1_Round d e a b c (sha1_f3 e a b) sha1_k3 w15
     in ((a, b, c, d, e), (w0, w1, w2, w3, w4, w5, w6, w7, w8, w9, w10, w11, w12, w13, w14, w15)))"

definition sha1_rounds3 :: "u32x5 \<Rightarrow> u32w16 \<Rightarrow> u32x5 \<times> u32w16" where
  "sha1_rounds3 = (\<lambda>(a, b, c, d, e) (w0, w1, w2, w3, w4, w5, w6, w7, w8, w9, w10, w11, w12, w13, w14, w15).
     let w0 = sha1_left (w0 XOR w13 XOR w8 XOR w2);
         (d, b) = sha1_Round c d e a b (sha1_f3 d e a) sha1_k3 w0;
         w1 = sha1_left (w1 XOR w14 XOR w9 XOR w3);
         (c, a) = sha1_Round b c d e a (sha1_f3 c d e) sha1_k3 w1;
         w2 = sha1_left (w2 XOR w15 XOR w10 XOR w4);
         (b, e) = sha1_Round a b c d e (sha1_f3 b c d) sha1_k3 w2;
         w3 = sha1_left (w3 XOR w0 XOR w11 XOR w5);
         (a, d) = sha1_Round e a b c d (sha1_f3 a b c) sha1_k3 w3;
         w4 = sha1_left (w4 XOR w1 XOR w12 XOR w6);
         (e, c) = sha1_Round d e a b c (sha1_f3 e a b) sha1_k3 w4;
         w5 = sha1_left (w5 XOR w2 XOR w13 XOR w7);
         (d, b) = sha1_Round c d e a b (sha1_f3 d e a) sha1_k3 w5;
         w6 = sha1_left (w6 XOR w3 XOR w14 XOR w8);
         (c, a) = sha1_Round b c d e a (sha1_f3 c d e) sha1_k3 w6;
         w7 = sha1_left (w7 XOR w4 XOR w15 XOR w9);
         (b, e) = sha1_Round a b c d e (sha1_f3 b c d) sha1_k3 w7;
         w8 = sha1_left (w8 XOR w5 XOR w0 XOR w10);
         (a, d) = sha1_Round e a b c d (sha1_f3 a b c) sha1_k3 w8;
         w9 = sha1_left (w9 XOR w6 XOR w1 XOR w11);
         (e, c) = sha1_Round d e a b c (sha1_f3 e a b) sha1_k3 w9;
         w10 = sha1_left (w10 XOR w7 XOR w2 XOR w12);
         (d, b) = sha1_Round c d e a b (sha1_f3 d e a) sha1_k3 w10;
         w11 = sha1_left (w11 XOR w8 XOR w3 XOR w13);
         (c, a) = sha1_Round b c d e a (sha1_f3 c d e) sha1_k3 w11;
         w12 = sha1_left (w12 XOR w9 XOR w4 XOR w14);
         (b, e) = sha1_Round a b c d e (sha1_f2 b c d) sha1_k4 w12;
         w13 = sha1_left (w13 XOR w10 XOR w5 XOR w15);
         (a, d) = sha1_Round e a b c d (sha1_f2 a b c) sha1_k4 w13;
         w14 = sha1_left (w14 XOR w11 XOR w6 XOR w0);
         (e, c) = sha1_Round d e a b c (sha1_f2 e a b) sha1_k4 w14;
         w15 = sha1_left (w15 XOR w12 XOR w7 XOR w1);
         (d, b) = sha1_Round c d e a b (sha1_f2 d e a) sha1_k4 w15
     in ((a, b, c, d, e), (w0, w1, w2, w3, w4, w5, w6, w7, w8, w9, w10, w11, w12, w13, w14, w15)))"

definition sha1_rounds4 :: "u32x5 \<Rightarrow> u32w16 \<Rightarrow> u32x5" where
  "sha1_rounds4 = (\<lambda>(a, b, c, d, e) (w0, w1, w2, w3, w4, w5, w6, w7, w8, w9, w10, w11, w12, w13, w14, w15).
     let w0 = sha1_left (w0 XOR w13 XOR w8 XOR w2);
         (c, a) = sha1_Round b c d e a (sha1_f2 c d e) sha1_k4 w0;
         w1 = sha1_left (w1 XOR w14 XOR w9 XOR w3);
         (b, e) = sha1_Round a b c d e (sha1_f2 b c d) sha1_k4 w1;
         w2 = sha1_left (w2 XOR w15 XOR w10 XOR w4);
         (a, d) = sha1_Round e a b c d (sha1_f2 a b c) sha1_k4 w2;
         w3 = sha1_left (w3 XOR w0 XOR w11 XOR w5);
         (e, c) = sha1_Round d e a b c (sha1_f2 e a b) sha1_k4 w3;
         w4 = sha1_left (w4 XOR w1 XOR w12 XOR w6);
         (d, b) = sha1_Round c d e a b (sha1_f2 d e a) sha1_k4 w4;
         w5 = sha1_left (w5 XOR w2 XOR w13 XOR w7);
         (c, a) = sha1_Round b c d e a (sha1_f2 c d e) sha1_k4 w5;
         w6 = sha1_left (w6 XOR w3 XOR w14 XOR w8);
         (b, e) = sha1_Round a b c d e (sha1_f2 b c d) sha1_k4 w6;
         w7 = sha1_left (w7 XOR w4 XOR w15 XOR w9);
         (a, d) = sha1_Round e a b c d (sha1_f2 a b c) sha1_k4 w7;
         w8 = sha1_left (w8 XOR w5 XOR w0 XOR w10);
         (e, c) = sha1_Round d e a b c (sha1_f2 e a b) sha1_k4 w8;
         w9 = sha1_left (w9 XOR w6 XOR w1 XOR w11);
         (d, b) = sha1_Round c d e a b (sha1_f2 d e a) sha1_k4 w9;
         w10 = sha1_left (w10 XOR w7 XOR w2 XOR w12);
         (c, a) = sha1_Round b c d e a (sha1_f2 c d e) sha1_k4 w10;
         w11 = sha1_left (w11 XOR w8 XOR w3 XOR w13);
         (b, e) = sha1_Round a b c d e (sha1_f2 b c d) sha1_k4 w11;
         w12 = sha1_left (w12 XOR w9 XOR w4 XOR w14);
         (a, d) = sha1_Round e a b c d (sha1_f2 a b c) sha1_k4 w12;
         (e, c) = sha1_Round d e a b c (sha1_f2 e a b) sha1_k4 (sha1_left (w13 XOR w10 XOR w5 XOR w15));
         (d, b) = sha1_Round c d e a b (sha1_f2 d e a) sha1_k4 (sha1_left (w14 XOR w11 XOR w6 XOR w0));
         (c, a) = sha1_Round b c d e a (sha1_f2 c d e) sha1_k4 (sha1_left (w15 XOR w12 XOR w7 XOR w1))
     in (a, b, c, d, e))"

definition sha1_Transform :: "u32 list \<Rightarrow> bytes \<Rightarrow> u32 list" where
  "sha1_Transform s chunk =
     (let (st, ws) = sha1_rounds0 (s ! 0, s ! 1, s ! 2, s ! 3, s ! 4) chunk;
          (st, ws) = sha1_rounds1 st ws;
          (st, ws) = sha1_rounds2 st ws;
          (st, ws) = sha1_rounds3 st ws;
          (a, b, c, d, e) = sha1_rounds4 st ws
      in [s ! 0 + a, s ! 1 + b, s ! 2 + c, s ! 3 + d, s ! 4 + e])"

section \<open>The hasher class\<close>

type_synonym CSHA1 = "u32 list hasher"

definition CSHA1_new :: "bytes \<Rightarrow> CSHA1" where
  "CSHA1_new buf = \<lparr> hs_s = sha1_Initialize, hs_buf = buf, hs_bytes = 0 \<rparr>"

definition CSHA1_Write :: "CSHA1 \<Rightarrow> bytes \<Rightarrow> CSHA1" where
  "CSHA1_Write = hasher_write 64 sha1_Transform"

definition CSHA1_Finalize :: "CSHA1 \<Rightarrow> bytes" where
  "CSHA1_Finalize h =
     (let sizedesc = be_bytes 8 (push_bit 3 (hs_bytes h));
          h1 = CSHA1_Write h (hash_pad (1 + ((119 - unat (hs_bytes h) mod 64) mod 64)));
          h2 = CSHA1_Write h1 sizedesc
      in concat (map (be_bytes 4) (hs_s h2)))"

definition CSHA1_Reset :: "CSHA1 \<Rightarrow> CSHA1" where
  "CSHA1_Reset h = h\<lparr> hs_bytes := 0, hs_s := sha1_Initialize \<rparr>"

section \<open>The standard's definition\<close>

definition sha1_f :: "nat \<Rightarrow> u32 \<Rightarrow> u32 \<Rightarrow> u32 \<Rightarrow> u32" where
  "sha1_f t x y z =
     (if t < 20 then (x AND y) XOR (NOT x AND z)
      else if t < 40 then x XOR y XOR z
      else if t < 60 then (x AND y) XOR (x AND z) XOR (y AND z)
      else x XOR y XOR z)"

definition sha1_K :: "nat \<Rightarrow> u32" where
  "sha1_K t = (if t < 20 then 1518500249 else if t < 40 then 1859775393
               else if t < 60 then 2400959708 else 3395469782)"

fun sha1_W :: "bytes \<Rightarrow> nat \<Rightarrow> u32" where
  "sha1_W chunk t =
     (if t < 16 then be_word (take 4 (drop (4 * t) chunk))
      else word_rotl 1 (sha1_W chunk (t - 3) XOR sha1_W chunk (t - 8) XOR sha1_W chunk (t - 14) XOR
                        sha1_W chunk (t - 16)))"

declare sha1_W.simps [simp del]

definition sha1_step :: "bytes \<Rightarrow> u32x5 \<Rightarrow> nat \<Rightarrow> u32x5" where
  "sha1_step chunk = (\<lambda>(a, b, c, d, e) t.
     (word_rotl 5 a + sha1_f t b c d + e + sha1_K t + sha1_W chunk t, a, word_rotl 30 b, c, d))"

definition sha1_steps :: "bytes \<Rightarrow> nat list \<Rightarrow> u32x5 \<Rightarrow> u32x5" where
  "sha1_steps chunk ts st = foldl (sha1_step chunk) st ts"

definition sha1_compress :: "u32 list \<Rightarrow> bytes \<Rightarrow> u32 list" where
  "sha1_compress s chunk =
     (case sha1_steps chunk [0..<80] (s ! 0, s ! 1, s ! 2, s ! 3, s ! 4) of (a, b, c, d, e) \<Rightarrow>
        [s ! 0 + a, s ! 1 + b, s ! 2 + c, s ! 3 + d, s ! 4 + e])"

definition sha1_padding :: "nat \<Rightarrow> bytes" where
  "sha1_padding len = 0x80 # replicate ((119 - len mod 64) mod 64) 0 @
     be_bytes 8 (of_nat (8 * len) :: u64)"

definition sha1_digest :: "bytes \<Rightarrow> bytes" where
  "sha1_digest msg =
     concat (map (be_bytes 4)
       (compress_blocks 64 sha1_compress sha1_Initialize (msg @ sha1_padding (length msg))))"

section \<open>The unrolled rounds are the standard's\<close>

lemma sha1_f_eq:
  "sha1_f1 x y z = (x AND y) XOR (NOT x AND z)"
  "sha1_f3 x y z = (x AND y) XOR (x AND z) XOR (y AND z)"
  by (rule bit_word_eqI; auto simp: sha1_f1_def sha1_f3_def bit_simps)+

lemma rotl32_eq:
  assumes "0 < k" "k < 32"
  shows "push_bit k x OR drop_bit (32 - k) x = word_rotl k (x :: u32)"
  using rotl_shift_eq [of k x] assms by simp

lemma sha1_rotl_eq:
  "sha1_left x = word_rotl 1 x"
  "push_bit 30 x OR drop_bit 2 x = word_rotl 30 (x :: u32)"
  "push_bit 5 x OR drop_bit 27 x = word_rotl 5 (x :: u32)"
  using rotl32_eq [of 1 x] rotl32_eq [of 30 x] rotl32_eq [of 5 x] by (simp_all add: sha1_left_def)

lemma sha1_step_eq:
  "t < 20 \<Longrightarrow> sha1_step chunk (a, b, c, d, e) t =
     (case sha1_Round a b c d e (sha1_f1 b c d) sha1_k1 (sha1_W chunk t) of (b', e') \<Rightarrow> (e', a, b', c, d))"
  "\<not> t < 20 \<Longrightarrow> t < 40 \<Longrightarrow> sha1_step chunk (a, b, c, d, e) t =
     (case sha1_Round a b c d e (sha1_f2 b c d) sha1_k2 (sha1_W chunk t) of (b', e') \<Rightarrow> (e', a, b', c, d))"
  "\<not> t < 40 \<Longrightarrow> t < 60 \<Longrightarrow> sha1_step chunk (a, b, c, d, e) t =
     (case sha1_Round a b c d e (sha1_f3 b c d) sha1_k3 (sha1_W chunk t) of (b', e') \<Rightarrow> (e', a, b', c, d))"
  "\<not> t < 60 \<Longrightarrow> sha1_step chunk (a, b, c, d, e) t =
     (case sha1_Round a b c d e (sha1_f2 b c d) sha1_k4 (sha1_W chunk t) of (b', e') \<Rightarrow> (e', a, b', c, d))"
  unfolding sha1_step_def sha1_Round_def sha1_rotl_eq
  by (simp_all add: sha1_f_eq sha1_f_def sha1_f2_def sha1_K_def sha1_k1_def sha1_k2_def sha1_k3_def sha1_k4_def ac_simps)

lemma schedule_sha1:
  "sha1_left (sha1_W chunk t XOR sha1_W chunk (t + 13) XOR sha1_W chunk (t + 8) XOR sha1_W chunk (t + 2))
     = sha1_W chunk (t + 16)"
  by (subst (5) sha1_W.simps) (simp add: sha1_rotl_eq ac_simps)

lemma schedule_sha1_start:
  "sha1_left (sha1_W chunk 0 XOR sha1_W chunk 13 XOR sha1_W chunk 8 XOR sha1_W chunk 2) = sha1_W chunk 16"
  "sha1_left (sha1_W chunk 1 XOR sha1_W chunk 14 XOR sha1_W chunk 9 XOR sha1_W chunk 3) = sha1_W chunk 17"
  using schedule_sha1 [of chunk 0] schedule_sha1 [of chunk 1] by (simp_all add: numeral_eq_Suc)

lemmas schedule_sha1_1 = schedule_sha1_start
  schedule_sha1 [of chunk 2, simplified] schedule_sha1 [of chunk 3, simplified] schedule_sha1 [of chunk 4, simplified]
  schedule_sha1 [of chunk 5, simplified] schedule_sha1 [of chunk 6, simplified] schedule_sha1 [of chunk 7, simplified]
  schedule_sha1 [of chunk 8, simplified] schedule_sha1 [of chunk 9, simplified] schedule_sha1 [of chunk 10, simplified]
  schedule_sha1 [of chunk 11, simplified] schedule_sha1 [of chunk 12, simplified] schedule_sha1 [of chunk 13, simplified]
  schedule_sha1 [of chunk 14, simplified] schedule_sha1 [of chunk 15, simplified] for chunk

lemmas schedule_sha1_2 =
  schedule_sha1 [of chunk 16, simplified] schedule_sha1 [of chunk 17, simplified] schedule_sha1 [of chunk 18, simplified]
  schedule_sha1 [of chunk 19, simplified] schedule_sha1 [of chunk 20, simplified] schedule_sha1 [of chunk 21, simplified]
  schedule_sha1 [of chunk 22, simplified] schedule_sha1 [of chunk 23, simplified] schedule_sha1 [of chunk 24, simplified]
  schedule_sha1 [of chunk 25, simplified] schedule_sha1 [of chunk 26, simplified] schedule_sha1 [of chunk 27, simplified]
  schedule_sha1 [of chunk 28, simplified] schedule_sha1 [of chunk 29, simplified] schedule_sha1 [of chunk 30, simplified]
  schedule_sha1 [of chunk 31, simplified] for chunk

lemmas schedule_sha1_3 =
  schedule_sha1 [of chunk 32, simplified] schedule_sha1 [of chunk 33, simplified] schedule_sha1 [of chunk 34, simplified]
  schedule_sha1 [of chunk 35, simplified] schedule_sha1 [of chunk 36, simplified] schedule_sha1 [of chunk 37, simplified]
  schedule_sha1 [of chunk 38, simplified] schedule_sha1 [of chunk 39, simplified] schedule_sha1 [of chunk 40, simplified]
  schedule_sha1 [of chunk 41, simplified] schedule_sha1 [of chunk 42, simplified] schedule_sha1 [of chunk 43, simplified]
  schedule_sha1 [of chunk 44, simplified] schedule_sha1 [of chunk 45, simplified] schedule_sha1 [of chunk 46, simplified]
  schedule_sha1 [of chunk 47, simplified] for chunk

lemmas schedule_sha1_4 =
  schedule_sha1 [of chunk 48, simplified] schedule_sha1 [of chunk 49, simplified] schedule_sha1 [of chunk 50, simplified]
  schedule_sha1 [of chunk 51, simplified] schedule_sha1 [of chunk 52, simplified] schedule_sha1 [of chunk 53, simplified]
  schedule_sha1 [of chunk 54, simplified] schedule_sha1 [of chunk 55, simplified] schedule_sha1 [of chunk 56, simplified]
  schedule_sha1 [of chunk 57, simplified] schedule_sha1 [of chunk 58, simplified] schedule_sha1 [of chunk 59, simplified]
  schedule_sha1 [of chunk 60, simplified] schedule_sha1 [of chunk 61, simplified] schedule_sha1 [of chunk 62, simplified]
  schedule_sha1 [of chunk 63, simplified] for chunk

lemma sha1_steps_Cons:
  "sha1_steps chunk (t # ts) st = sha1_steps chunk ts (sha1_step chunk st t)"
  "sha1_steps chunk [] st = st"
  by (simp_all add: sha1_steps_def)

lemma sha1_W_start:
  "ReadBE32 chunk 0 = sha1_W chunk 0"
  "ReadBE32 chunk 4 = sha1_W chunk 1"
  "ReadBE32 chunk 8 = sha1_W chunk 2"
  "ReadBE32 chunk 12 = sha1_W chunk 3"
  "ReadBE32 chunk 16 = sha1_W chunk 4"
  "ReadBE32 chunk 20 = sha1_W chunk 5"
  "ReadBE32 chunk 24 = sha1_W chunk 6"
  "ReadBE32 chunk 28 = sha1_W chunk 7"
  "ReadBE32 chunk 32 = sha1_W chunk 8"
  "ReadBE32 chunk 36 = sha1_W chunk 9"
  "ReadBE32 chunk 40 = sha1_W chunk 10"
  "ReadBE32 chunk 44 = sha1_W chunk 11"
  "ReadBE32 chunk 48 = sha1_W chunk 12"
  "ReadBE32 chunk 52 = sha1_W chunk 13"
  "ReadBE32 chunk 56 = sha1_W chunk 14"
  "ReadBE32 chunk 60 = sha1_W chunk 15"
  by (simp_all add: ReadBE32_def sha1_W.simps)

lemma sha1_rounds0_eq:
  "sha1_rounds0 (a, b, c, d, e) chunk =
     (case sha1_steps chunk [0, 1, 2, 3, 4, 5, 6, 7, 8, 9, 10, 11, 12, 13, 14, 15] (a, b, c, d, e) of (a', b', c', d', e') \<Rightarrow> 
      ((b', c', d', e', a'),
     (sha1_W chunk 0, sha1_W chunk 1, sha1_W chunk 2, sha1_W chunk 3, sha1_W chunk 4,
     sha1_W chunk 5, sha1_W chunk 6, sha1_W chunk 7, sha1_W chunk 8, sha1_W chunk 9,
     sha1_W chunk 10, sha1_W chunk 11, sha1_W chunk 12, sha1_W chunk 13, sha1_W chunk 14,
     sha1_W chunk 15)))"
  unfolding sha1_rounds0_def sha1_steps_Cons
  by (simp only: prod.case Let_def sha1_W_start) (simp add: sha1_step_eq split: prod.split)

lemma sha1_rounds1_eq:
  "sha1_rounds1 (b, c, d, e, a) (sha1_W chunk 0, sha1_W chunk 1, sha1_W chunk 2, sha1_W chunk 3, sha1_W chunk 4,
     sha1_W chunk 5, sha1_W chunk 6, sha1_W chunk 7, sha1_W chunk 8, sha1_W chunk 9,
     sha1_W chunk 10, sha1_W chunk 11, sha1_W chunk 12, sha1_W chunk 13, sha1_W chunk 14,
     sha1_W chunk 15) =
     (case sha1_steps chunk [16, 17, 18, 19, 20, 21, 22, 23, 24, 25, 26, 27, 28, 29, 30, 31] (a, b, c, d, e) of (a', b', c', d', e') \<Rightarrow> 
      ((c', d', e', a', b'),
     (sha1_W chunk 16, sha1_W chunk 17, sha1_W chunk 18, sha1_W chunk 19, sha1_W chunk 20,
     sha1_W chunk 21, sha1_W chunk 22, sha1_W chunk 23, sha1_W chunk 24, sha1_W chunk 25,
     sha1_W chunk 26, sha1_W chunk 27, sha1_W chunk 28, sha1_W chunk 29, sha1_W chunk 30,
     sha1_W chunk 31)))"
  unfolding sha1_rounds1_def sha1_steps_Cons
  by (simp only: prod.case Let_def schedule_sha1_1) (simp add: sha1_step_eq split: prod.split)

lemma sha1_rounds2_eq:
  "sha1_rounds2 (c, d, e, a, b) (sha1_W chunk 16, sha1_W chunk 17, sha1_W chunk 18, sha1_W chunk 19, sha1_W chunk 20,
     sha1_W chunk 21, sha1_W chunk 22, sha1_W chunk 23, sha1_W chunk 24, sha1_W chunk 25,
     sha1_W chunk 26, sha1_W chunk 27, sha1_W chunk 28, sha1_W chunk 29, sha1_W chunk 30,
     sha1_W chunk 31) =
     (case sha1_steps chunk [32, 33, 34, 35, 36, 37, 38, 39, 40, 41, 42, 43, 44, 45, 46, 47] (a, b, c, d, e) of (a', b', c', d', e') \<Rightarrow> 
      ((d', e', a', b', c'),
     (sha1_W chunk 32, sha1_W chunk 33, sha1_W chunk 34, sha1_W chunk 35, sha1_W chunk 36,
     sha1_W chunk 37, sha1_W chunk 38, sha1_W chunk 39, sha1_W chunk 40, sha1_W chunk 41,
     sha1_W chunk 42, sha1_W chunk 43, sha1_W chunk 44, sha1_W chunk 45, sha1_W chunk 46,
     sha1_W chunk 47)))"
  unfolding sha1_rounds2_def sha1_steps_Cons
  by (simp only: prod.case Let_def schedule_sha1_2) (simp add: sha1_step_eq split: prod.split)

lemma sha1_rounds3_eq:
  "sha1_rounds3 (d, e, a, b, c) (sha1_W chunk 32, sha1_W chunk 33, sha1_W chunk 34, sha1_W chunk 35, sha1_W chunk 36,
     sha1_W chunk 37, sha1_W chunk 38, sha1_W chunk 39, sha1_W chunk 40, sha1_W chunk 41,
     sha1_W chunk 42, sha1_W chunk 43, sha1_W chunk 44, sha1_W chunk 45, sha1_W chunk 46,
     sha1_W chunk 47) =
     (case sha1_steps chunk [48, 49, 50, 51, 52, 53, 54, 55, 56, 57, 58, 59, 60, 61, 62, 63] (a, b, c, d, e) of (a', b', c', d', e') \<Rightarrow> 
      ((e', a', b', c', d'),
     (sha1_W chunk 48, sha1_W chunk 49, sha1_W chunk 50, sha1_W chunk 51, sha1_W chunk 52,
     sha1_W chunk 53, sha1_W chunk 54, sha1_W chunk 55, sha1_W chunk 56, sha1_W chunk 57,
     sha1_W chunk 58, sha1_W chunk 59, sha1_W chunk 60, sha1_W chunk 61, sha1_W chunk 62,
     sha1_W chunk 63)))"
  unfolding sha1_rounds3_def sha1_steps_Cons
  by (simp only: prod.case Let_def schedule_sha1_3) (simp add: sha1_step_eq split: prod.split)

lemma sha1_rounds4_eq:
  "sha1_rounds4 (e, a, b, c, d) (sha1_W chunk 48, sha1_W chunk 49, sha1_W chunk 50, sha1_W chunk 51, sha1_W chunk 52,
     sha1_W chunk 53, sha1_W chunk 54, sha1_W chunk 55, sha1_W chunk 56, sha1_W chunk 57,
     sha1_W chunk 58, sha1_W chunk 59, sha1_W chunk 60, sha1_W chunk 61, sha1_W chunk 62,
     sha1_W chunk 63) =
     (case sha1_steps chunk [64, 65, 66, 67, 68, 69, 70, 71, 72, 73, 74, 75, 76, 77, 78, 79] (a, b, c, d, e) of (a', b', c', d', e') \<Rightarrow> (a', b', c', d', e'))"
  unfolding sha1_rounds4_def sha1_steps_Cons
  by (simp only: prod.case Let_def schedule_sha1_4) (simp add: sha1_step_eq split: prod.split)

lemma sha1_steps_append:
  "sha1_steps chunk (ts @ us) st = sha1_steps chunk us (sha1_steps chunk ts st)"
  by (simp add: sha1_steps_def)

lemma sha1_Transform_eq: "sha1_Transform s chunk = sha1_compress s chunk"
proof -
  have "[0..<80] = [0, 1, 2, 3, 4, 5, 6, 7, 8, 9, 10, 11, 12, 13, 14, 15] @
      [16, 17, 18, 19, 20, 21, 22, 23, 24, 25, 26, 27, 28, 29, 30, 31] @
      [32, 33, 34, 35, 36, 37, 38, 39, 40, 41, 42, 43, 44, 45, 46, 47] @
      [48, 49, 50, 51, 52, 53, 54, 55, 56, 57, 58, 59, 60, 61, 62, 63] @
      [64, 65, 66, 67, 68, 69, 70, 71, 72, 73, 74, 75, 76, 77, 78, 79]"
    by code_simp
  note split = this
  obtain a0 b0 c0 d0 e0 where r0:
    "sha1_steps chunk [0, 1, 2, 3, 4, 5, 6, 7, 8, 9, 10, 11, 12, 13, 14, 15] (s ! 0, s ! 1, s ! 2, s ! 3, s ! 4)
       = (a0, b0, c0, d0, e0)" by (rule prod_cases5)
  obtain a1 b1 c1 d1 e1 where r1:
    "sha1_steps chunk [16, 17, 18, 19, 20, 21, 22, 23, 24, 25, 26, 27, 28, 29, 30, 31] (a0, b0, c0, d0, e0)
       = (a1, b1, c1, d1, e1)" by (rule prod_cases5)
  obtain a2 b2 c2 d2 e2 where r2:
    "sha1_steps chunk [32, 33, 34, 35, 36, 37, 38, 39, 40, 41, 42, 43, 44, 45, 46, 47] (a1, b1, c1, d1, e1)
       = (a2, b2, c2, d2, e2)" by (rule prod_cases5)
  obtain a3 b3 c3 d3 e3 where r3:
    "sha1_steps chunk [48, 49, 50, 51, 52, 53, 54, 55, 56, 57, 58, 59, 60, 61, 62, 63] (a2, b2, c2, d2, e2)
       = (a3, b3, c3, d3, e3)" by (rule prod_cases5)
  obtain a4 b4 c4 d4 e4 where r4:
    "sha1_steps chunk [64, 65, 66, 67, 68, 69, 70, 71, 72, 73, 74, 75, 76, 77, 78, 79] (a3, b3, c3, d3, e3)
       = (a4, b4, c4, d4, e4)" by (rule prod_cases5)
  show ?thesis
    by (simp only: split sha1_Transform_def sha1_compress_def sha1_rounds0_eq sha1_rounds1_eq
        sha1_rounds2_eq sha1_rounds3_eq sha1_rounds4_eq sha1_steps_append Let_def prod.case
        r0 r1 r2 r3 r4)
qed

interpretation sha1_hasher: block_hasher 64 sha1_Transform sha1_Initialize CSHA1_Write
  by unfold_locales (simp_all add: CSHA1_Write_def hasher_write_absorbed)

lemma CSHA1_Finalize_absorbed:
  assumes "absorbed 64 sha1_Transform sha1_Initialize h msg"
  shows "CSHA1_Finalize h = sha1_digest msg"
proof -
  have b: "unat (hs_bytes h) mod 64 = length msg mod 64"
    by (rule bufsize_eq [OF assms]) simp
  have bytes: "hs_bytes h = of_nat (length msg)" using assms by (simp add: absorbed_def)
  have pad: "hash_pad (1 + ((119 - unat (hs_bytes h) mod 64) mod 64)) @
      be_bytes 8 (push_bit 3 (hs_bytes h)) = sha1_padding (length msg)"
    unfolding b unfolding bytes by (simp add: hash_pad_def sha1_padding_def bytes_to_bits)
  have "sha1_Transform = sha1_compress" by (intro ext) (rule sha1_Transform_eq)
  with sha1_hasher.finish [OF assms, of "hash_pad (1 + ((119 - unat (hs_bytes h) mod 64) mod 64))"
      "be_bytes 8 (push_bit 3 (hs_bytes h))", unfolded pad]
  show ?thesis by (simp add: CSHA1_Finalize_def sha1_digest_def Let_def)
qed

text \<open>
  However a message is cut into pieces, and whatever the buffer of a new hasher contains, the
  SHA-1 digest is the one the standard defines for the whole message.
\<close>

theorem CSHA1_digest:
  assumes "length buf = 64"
  shows "CSHA1_Finalize (foldl CSHA1_Write (CSHA1_new buf) dats) = sha1_digest (concat dats)"
  unfolding CSHA1_new_def
  using sha1_hasher.writes_absorbed [OF sha1_hasher.new_absorbed [OF assms], of dats]
  by (simp add: CSHA1_Finalize_absorbed)

theorem CSHA1_digest_witness:
  "CSHA1_Finalize (CSHA1_Write (CSHA1_Write (CSHA1_new (replicate 64 0)) [1]) [2, 3])
     = sha1_digest [1, 2, 3]"
  using CSHA1_digest [of "replicate 64 0" "[[1], [2, 3]]"] by simp

end
