(* ===== verification/ScriptOps.thy ===== *)
theory ScriptOps
  imports Sighash Sha1
begin

text \<open>
  The instructions of the script machine: one definition for every \<open>case\<close> of the \<open>switch\<close> in
  \<open>EvalScript\<close> (\<open>script/interpreter.cpp\<close>). The two stacks and the stack of conditions are lists with
  the top first, so \<open>stacktop(-i)\<close> is element \<open>i - 1\<close>; the position of the last code separator is the
  rest of the script from there. An instruction that sets an error and returns false is \<open>Inl\<close> of the
  error. A \<open>scriptnum_error\<close> is caught at the end of \<open>EvalScript\<close>, which then reports
  \<open>SCRIPT_ERR_UNKNOWN_ERROR\<close>.
\<close>

section \<open>The machine\<close>

text \<open>\<open>BaseSignatureChecker\<close>: the three virtual functions the machine calls.\<close>

record checker =
  CheckSig :: "bytes \<Rightarrow> bytes \<Rightarrow> bytes \<Rightarrow> SigVersion \<Rightarrow> bool"
  CheckLockTime :: "int \<Rightarrow> bool"
  CheckSequence :: "int \<Rightarrow> bool"

definition BaseSignatureChecker :: checker where
  "BaseSignatureChecker =
     \<lparr> CheckSig = (\<lambda>_ _ _ _. False), CheckLockTime = (\<lambda>_. False), CheckSequence = (\<lambda>_. False) \<rparr>"

text \<open>The arguments of \<open>EvalScript\<close> that do not change while it runs.\<close>

record eval_env =
  ev_flags :: u32
  ev_checker :: checker
  ev_sigversion :: SigVersion

record eval_state =
  st_stack :: "bytes list"
  st_altstack :: "bytes list"
  st_vfExec :: "bool list"
  st_nOpCount :: int
  st_codehash :: bytes

type_synonym eval_result = "ScriptError + eval_state"

definition ev_flag :: "eval_env \<Rightarrow> u32 \<Rightarrow> bool" where
  "ev_flag e f = flag_set (ev_flags e) f"

definition vchFalse :: bytes where "vchFalse = []"

definition vchTrue :: bytes where "vchTrue = [1]"

definition script_bool :: "bool \<Rightarrow> bytes" where
  "script_bool b = (if b then vchTrue else vchFalse)"

text \<open>\<open>CScriptNum(vch, fRequireMinimal, n)\<close> inside the \<open>try\<close> block.\<close>

definition stack_num :: "eval_env \<Rightarrow> bytes \<Rightarrow> nat \<Rightarrow> ScriptError + int" where
  "stack_num e vch n =
     (case CScriptNum vch (ev_flag e SCRIPT_VERIFY_MINIMALDATA) n of
        Inl _ \<Rightarrow> Inl SCRIPT_ERR_UNKNOWN_ERROR
      | Inr v \<Rightarrow> Inr v)"

section \<open>Constants and control\<close>

definition op_push_number :: "byte \<Rightarrow> eval_state \<Rightarrow> eval_result" where
  "op_push_number opcode s =
     Inr (s\<lparr> st_stack := serialize (uint opcode - (uint OP_1 - 1)) # st_stack s \<rparr>)"

definition op_checklocktimeverify :: "eval_env \<Rightarrow> eval_state \<Rightarrow> eval_result" where
  "op_checklocktimeverify e s =
     (if \<not> ev_flag e SCRIPT_VERIFY_CHECKLOCKTIMEVERIFY
      then if ev_flag e SCRIPT_VERIFY_DISCOURAGE_UPGRADABLE_NOPS
           then Inl SCRIPT_ERR_DISCOURAGE_UPGRADABLE_NOPS else Inr s
      else case st_stack s of
             [] \<Rightarrow> Inl SCRIPT_ERR_INVALID_STACK_OPERATION
           | vch # st \<Rightarrow>
               sbind (stack_num e vch 5) (\<lambda>nLockTime.
                 if nLockTime < 0 then Inl SCRIPT_ERR_NEGATIVE_LOCKTIME
                 else if \<not> CheckLockTime (ev_checker e) nLockTime then Inl SCRIPT_ERR_UNSATISFIED_LOCKTIME
                 else Inr s))"

definition op_checksequenceverify :: "eval_env \<Rightarrow> eval_state \<Rightarrow> eval_result" where
  "op_checksequenceverify e s =
     (if \<not> ev_flag e SCRIPT_VERIFY_CHECKSEQUENCEVERIFY
      then if ev_flag e SCRIPT_VERIFY_DISCOURAGE_UPGRADABLE_NOPS
           then Inl SCRIPT_ERR_DISCOURAGE_UPGRADABLE_NOPS else Inr s
      else case st_stack s of
             [] \<Rightarrow> Inl SCRIPT_ERR_INVALID_STACK_OPERATION
           | vch # st \<Rightarrow>
               sbind (stack_num e vch 5) (\<lambda>nSeq.
                 if nSeq < 0 then Inl SCRIPT_ERR_NEGATIVE_LOCKTIME
                 else if nSeq AND uint SEQUENCE_LOCKTIME_DISABLE_FLAG \<noteq> 0 then Inr s
                 else if \<not> CheckSequence (ev_checker e) nSeq then Inl SCRIPT_ERR_UNSATISFIED_LOCKTIME
                 else Inr s))"

definition op_upgradable_nop :: "eval_env \<Rightarrow> eval_state \<Rightarrow> eval_result" where
  "op_upgradable_nop e s =
     (if ev_flag e SCRIPT_VERIFY_DISCOURAGE_UPGRADABLE_NOPS
      then Inl SCRIPT_ERR_DISCOURAGE_UPGRADABLE_NOPS else Inr s)"

definition op_if :: "eval_env \<Rightarrow> byte \<Rightarrow> bool \<Rightarrow> eval_state \<Rightarrow> eval_result" where
  "op_if e opcode fExec s =
     (if fExec
      then case st_stack s of
             [] \<Rightarrow> Inl SCRIPT_ERR_UNBALANCED_CONDITIONAL
           | vch # st \<Rightarrow>
               if ev_sigversion e = SIGVERSION_WITNESS_V0 \<and> ev_flag e SCRIPT_VERIFY_MINIMALIF
                  \<and> (length vch > 1 \<or> (length vch = 1 \<and> vch ! 0 \<noteq> 1))
               then Inl SCRIPT_ERR_MINIMALIF
               else let fValue = (if opcode = OP_NOTIF then \<not> CastToBool vch else CastToBool vch)
                    in Inr (s\<lparr> st_stack := st, st_vfExec := fValue # st_vfExec s \<rparr>)
      else Inr (s\<lparr> st_vfExec := False # st_vfExec s \<rparr>))"

definition op_else :: "eval_state \<Rightarrow> eval_result" where
  "op_else s =
     (case st_vfExec s of
        [] \<Rightarrow> Inl SCRIPT_ERR_UNBALANCED_CONDITIONAL
      | b # bs \<Rightarrow> Inr (s\<lparr> st_vfExec := (\<not> b) # bs \<rparr>))"

definition op_endif :: "eval_state \<Rightarrow> eval_result" where
  "op_endif s =
     (case st_vfExec s of
        [] \<Rightarrow> Inl SCRIPT_ERR_UNBALANCED_CONDITIONAL
      | b # bs \<Rightarrow> Inr (s\<lparr> st_vfExec := bs \<rparr>))"

definition op_verify :: "eval_state \<Rightarrow> eval_result" where
  "op_verify s =
     (case st_stack s of
        vch # st \<Rightarrow> if CastToBool vch then Inr (s\<lparr> st_stack := st \<rparr>) else Inl SCRIPT_ERR_VERIFY
      | _ \<Rightarrow> Inl SCRIPT_ERR_INVALID_STACK_OPERATION)"

definition op_return :: "eval_state \<Rightarrow> eval_result" where
  "op_return s = Inl SCRIPT_ERR_OP_RETURN"

section \<open>Stack operations\<close>

definition op_toaltstack :: "eval_state \<Rightarrow> eval_result" where
  "op_toaltstack s =
     (case st_stack s of
        x # st \<Rightarrow> Inr (s\<lparr> st_stack := st, st_altstack := x # st_altstack s \<rparr>)
      | _ \<Rightarrow> Inl SCRIPT_ERR_INVALID_STACK_OPERATION)"

definition op_fromaltstack :: "eval_state \<Rightarrow> eval_result" where
  "op_fromaltstack s =
     (case st_altstack s of
        x # alt \<Rightarrow> Inr (s\<lparr> st_stack := x # st_stack s, st_altstack := alt \<rparr>)
      | _ \<Rightarrow> Inl SCRIPT_ERR_INVALID_ALTSTACK_OPERATION)"

definition op_2drop :: "eval_state \<Rightarrow> eval_result" where
  "op_2drop s =
     (case st_stack s of
        x2 # x1 # st \<Rightarrow> Inr (s\<lparr> st_stack := st \<rparr>)
      | _ \<Rightarrow> Inl SCRIPT_ERR_INVALID_STACK_OPERATION)"

definition op_2dup :: "eval_state \<Rightarrow> eval_result" where
  "op_2dup s =
     (case st_stack s of
        x2 # x1 # st \<Rightarrow> Inr (s\<lparr> st_stack := x2 # x1 # x2 # x1 # st \<rparr>)
      | _ \<Rightarrow> Inl SCRIPT_ERR_INVALID_STACK_OPERATION)"

definition op_3dup :: "eval_state \<Rightarrow> eval_result" where
  "op_3dup s =
     (case st_stack s of
        x3 # x2 # x1 # st \<Rightarrow> Inr (s\<lparr> st_stack := x3 # x2 # x1 # x3 # x2 # x1 # st \<rparr>)
      | _ \<Rightarrow> Inl SCRIPT_ERR_INVALID_STACK_OPERATION)"

definition op_2over :: "eval_state \<Rightarrow> eval_result" where
  "op_2over s =
     (case st_stack s of
        x4 # x3 # x2 # x1 # st \<Rightarrow> Inr (s\<lparr> st_stack := x2 # x1 # x4 # x3 # x2 # x1 # st \<rparr>)
      | _ \<Rightarrow> Inl SCRIPT_ERR_INVALID_STACK_OPERATION)"

definition op_2rot :: "eval_state \<Rightarrow> eval_result" where
  "op_2rot s =
     (case st_stack s of
        x6 # x5 # x4 # x3 # x2 # x1 # st \<Rightarrow>
          Inr (s\<lparr> st_stack := x2 # x1 # x6 # x5 # x4 # x3 # st \<rparr>)
      | _ \<Rightarrow> Inl SCRIPT_ERR_INVALID_STACK_OPERATION)"

definition op_2swap :: "eval_state \<Rightarrow> eval_result" where
  "op_2swap s =
     (case st_stack s of
        x4 # x3 # x2 # x1 # st \<Rightarrow> Inr (s\<lparr> st_stack := x2 # x1 # x4 # x3 # st \<rparr>)
      | _ \<Rightarrow> Inl SCRIPT_ERR_INVALID_STACK_OPERATION)"

definition op_ifdup :: "eval_state \<Rightarrow> eval_result" where
  "op_ifdup s =
     (case st_stack s of
        x # st \<Rightarrow> Inr (if CastToBool x then s\<lparr> st_stack := x # x # st \<rparr> else s)
      | _ \<Rightarrow> Inl SCRIPT_ERR_INVALID_STACK_OPERATION)"

definition op_depth :: "eval_state \<Rightarrow> eval_result" where
  "op_depth s = Inr (s\<lparr> st_stack := serialize (int (length (st_stack s))) # st_stack s \<rparr>)"

definition op_drop :: "eval_state \<Rightarrow> eval_result" where
  "op_drop s =
     (case st_stack s of
        x # st \<Rightarrow> Inr (s\<lparr> st_stack := st \<rparr>)
      | _ \<Rightarrow> Inl SCRIPT_ERR_INVALID_STACK_OPERATION)"

definition op_dup :: "eval_state \<Rightarrow> eval_result" where
  "op_dup s =
     (case st_stack s of
        x # st \<Rightarrow> Inr (s\<lparr> st_stack := x # x # st \<rparr>)
      | _ \<Rightarrow> Inl SCRIPT_ERR_INVALID_STACK_OPERATION)"

definition op_nip :: "eval_state \<Rightarrow> eval_result" where
  "op_nip s =
     (case st_stack s of
        x2 # x1 # st \<Rightarrow> Inr (s\<lparr> st_stack := x2 # st \<rparr>)
      | _ \<Rightarrow> Inl SCRIPT_ERR_INVALID_STACK_OPERATION)"

definition op_over :: "eval_state \<Rightarrow> eval_result" where
  "op_over s =
     (case st_stack s of
        x2 # x1 # st \<Rightarrow> Inr (s\<lparr> st_stack := x1 # x2 # x1 # st \<rparr>)
      | _ \<Rightarrow> Inl SCRIPT_ERR_INVALID_STACK_OPERATION)"

definition op_pick_roll :: "eval_env \<Rightarrow> byte \<Rightarrow> eval_state \<Rightarrow> eval_result" where
  "op_pick_roll e opcode s =
     (case st_stack s of
        x # y # st0 \<Rightarrow>
          sbind (stack_num e x nDefaultMaxNumSize) (\<lambda>bn.
            let n = getint bn; st = y # st0
            in if n < 0 \<or> n \<ge> int (length st) then Inl SCRIPT_ERR_INVALID_STACK_OPERATION
               else let vch = st ! nat n;
                        rest = (if opcode = OP_ROLL then take (nat n) st @ drop (nat n + 1) st else st)
                    in Inr (s\<lparr> st_stack := vch # rest \<rparr>))
      | _ \<Rightarrow> Inl SCRIPT_ERR_INVALID_STACK_OPERATION)"

definition op_rot :: "eval_state \<Rightarrow> eval_result" where
  "op_rot s =
     (case st_stack s of
        x3 # x2 # x1 # st \<Rightarrow> Inr (s\<lparr> st_stack := x1 # x3 # x2 # st \<rparr>)
      | _ \<Rightarrow> Inl SCRIPT_ERR_INVALID_STACK_OPERATION)"

definition op_swap :: "eval_state \<Rightarrow> eval_result" where
  "op_swap s =
     (case st_stack s of
        x2 # x1 # st \<Rightarrow> Inr (s\<lparr> st_stack := x1 # x2 # st \<rparr>)
      | _ \<Rightarrow> Inl SCRIPT_ERR_INVALID_STACK_OPERATION)"

definition op_tuck :: "eval_state \<Rightarrow> eval_result" where
  "op_tuck s =
     (case st_stack s of
        x2 # x1 # st \<Rightarrow> Inr (s\<lparr> st_stack := x2 # x1 # x2 # st \<rparr>)
      | _ \<Rightarrow> Inl SCRIPT_ERR_INVALID_STACK_OPERATION)"

definition op_size :: "eval_state \<Rightarrow> eval_result" where
  "op_size s =
     (case st_stack s of
        x # st \<Rightarrow> Inr (s\<lparr> st_stack := serialize (int (length x)) # x # st \<rparr>)
      | _ \<Rightarrow> Inl SCRIPT_ERR_INVALID_STACK_OPERATION)"

section \<open>Comparison and arithmetic\<close>

definition op_equal :: "byte \<Rightarrow> eval_state \<Rightarrow> eval_result" where
  "op_equal opcode s =
     (case st_stack s of
        vch2 # vch1 # st \<Rightarrow>
          let fEqual = (vch1 = vch2)
          in if opcode = OP_EQUALVERIFY
             then if fEqual then Inr (s\<lparr> st_stack := st \<rparr>) else Inl SCRIPT_ERR_EQUALVERIFY
             else Inr (s\<lparr> st_stack := script_bool fEqual # st \<rparr>)
      | _ \<Rightarrow> Inl SCRIPT_ERR_INVALID_STACK_OPERATION)"

definition bool_num :: "bool \<Rightarrow> int" where
  "bool_num b = (if b then 1 else 0)"

definition unary_num :: "byte \<Rightarrow> int \<Rightarrow> int" where
  "unary_num opcode bn =
     (if opcode = OP_1ADD then bn + 1
      else if opcode = OP_1SUB then bn - 1
      else if opcode = OP_NEGATE then - bn
      else if opcode = OP_ABS then (if bn < 0 then - bn else bn)
      else if opcode = OP_NOT then bool_num (bn = 0)
      else bool_num (bn \<noteq> 0))"

definition op_unary :: "eval_env \<Rightarrow> byte \<Rightarrow> eval_state \<Rightarrow> eval_result" where
  "op_unary e opcode s =
     (case st_stack s of
        x # st \<Rightarrow>
          sbind (stack_num e x nDefaultMaxNumSize) (\<lambda>bn.
            Inr (s\<lparr> st_stack := serialize (unary_num opcode bn) # st \<rparr>))
      | _ \<Rightarrow> Inl SCRIPT_ERR_INVALID_STACK_OPERATION)"

definition binary_num :: "byte \<Rightarrow> int \<Rightarrow> int \<Rightarrow> int" where
  "binary_num opcode bn1 bn2 =
     (if opcode = OP_ADD then bn1 + bn2
      else if opcode = OP_SUB then bn1 - bn2
      else if opcode = OP_BOOLAND then bool_num (bn1 \<noteq> 0 \<and> bn2 \<noteq> 0)
      else if opcode = OP_BOOLOR then bool_num (bn1 \<noteq> 0 \<or> bn2 \<noteq> 0)
      else if opcode = OP_NUMEQUAL then bool_num (bn1 = bn2)
      else if opcode = OP_NUMEQUALVERIFY then bool_num (bn1 = bn2)
      else if opcode = OP_NUMNOTEQUAL then bool_num (bn1 \<noteq> bn2)
      else if opcode = OP_LESSTHAN then bool_num (bn1 < bn2)
      else if opcode = OP_GREATERTHAN then bool_num (bn1 > bn2)
      else if opcode = OP_LESSTHANOREQUAL then bool_num (bn1 \<le> bn2)
      else if opcode = OP_GREATERTHANOREQUAL then bool_num (bn1 \<ge> bn2)
      else if opcode = OP_MIN then (if bn1 < bn2 then bn1 else bn2)
      else (if bn1 > bn2 then bn1 else bn2))"

definition op_binary :: "eval_env \<Rightarrow> byte \<Rightarrow> eval_state \<Rightarrow> eval_result" where
  "op_binary e opcode s =
     (case st_stack s of
        x2 # x1 # st \<Rightarrow>
          sbind (stack_num e x1 nDefaultMaxNumSize) (\<lambda>bn1.
          sbind (stack_num e x2 nDefaultMaxNumSize) (\<lambda>bn2.
            let vch = serialize (binary_num opcode bn1 bn2)
            in if opcode = OP_NUMEQUALVERIFY
               then if CastToBool vch then Inr (s\<lparr> st_stack := st \<rparr>) else Inl SCRIPT_ERR_NUMEQUALVERIFY
               else Inr (s\<lparr> st_stack := vch # st \<rparr>)))
      | _ \<Rightarrow> Inl SCRIPT_ERR_INVALID_STACK_OPERATION)"

definition op_within :: "eval_env \<Rightarrow> eval_state \<Rightarrow> eval_result" where
  "op_within e s =
     (case st_stack s of
        x3 # x2 # x1 # st \<Rightarrow>
          sbind (stack_num e x1 nDefaultMaxNumSize) (\<lambda>bn1.
          sbind (stack_num e x2 nDefaultMaxNumSize) (\<lambda>bn2.
          sbind (stack_num e x3 nDefaultMaxNumSize) (\<lambda>bn3.
            Inr (s\<lparr> st_stack := script_bool (bn2 \<le> bn1 \<and> bn1 < bn3) # st \<rparr>))))
      | _ \<Rightarrow> Inl SCRIPT_ERR_INVALID_STACK_OPERATION)"

section \<open>Hashes and signatures\<close>

definition script_hash :: "byte \<Rightarrow> bytes \<Rightarrow> bytes" where
  "script_hash opcode vch =
     (if opcode = OP_RIPEMD160 then CRIPEMD160_Finalize (CRIPEMD160_Write (CRIPEMD160_new blank64) vch)
      else if opcode = OP_SHA1 then CSHA1_Finalize (CSHA1_Write (CSHA1_new blank64) vch)
      else if opcode = OP_SHA256 then CSHA256_Finalize (CSHA256_Write (CSHA256_new blank64) vch)
      else if opcode = OP_HASH160
      then CHash160_Finalize blank64 (CSHA256_Write (CSHA256_new blank64) vch)
      else CHash256_Finalize (CSHA256_Write (CSHA256_new blank64) vch))"

definition op_digest :: "byte \<Rightarrow> eval_state \<Rightarrow> eval_result" where
  "op_digest opcode s =
     (case st_stack s of
        vch # st \<Rightarrow> Inr (s\<lparr> st_stack := script_hash opcode vch # st \<rparr>)
      | _ \<Rightarrow> Inl SCRIPT_ERR_INVALID_STACK_OPERATION)"

definition op_codeseparator :: "bytes \<Rightarrow> eval_state \<Rightarrow> eval_result" where
  "op_codeseparator pc s = Inr (s\<lparr> st_codehash := pc \<rparr>)"

text \<open>The two encoding checks before a signature is checked.\<close>

definition check_encodings :: "eval_env \<Rightarrow> bytes \<Rightarrow> bytes \<Rightarrow> ScriptError option" where
  "check_encodings e vchSig vchPubKey =
     (case CheckSignatureEncoding vchSig (ev_flags e) of
        Some err \<Rightarrow> Some err
      | None \<Rightarrow> CheckPubKeyEncoding vchPubKey (ev_flags e) (ev_sigversion e))"

definition drop_signature :: "eval_env \<Rightarrow> bytes \<Rightarrow> bytes \<Rightarrow> bytes" where
  "drop_signature e scriptCode vchSig =
     (if ev_sigversion e = SIGVERSION_BASE then fst (FindAndDelete scriptCode (push_data [] vchSig))
      else scriptCode)"

definition op_checksig :: "eval_env \<Rightarrow> byte \<Rightarrow> eval_state \<Rightarrow> eval_result" where
  "op_checksig e opcode s =
     (case st_stack s of
        vchPubKey # vchSig # st \<Rightarrow>
          let scriptCode = drop_signature e (st_codehash s) vchSig
          in (case check_encodings e vchSig vchPubKey of
                Some err \<Rightarrow> Inl err
              | None \<Rightarrow>
                  let fSuccess = CheckSig (ev_checker e) vchSig vchPubKey scriptCode (ev_sigversion e)
                  in if \<not> fSuccess \<and> ev_flag e SCRIPT_VERIFY_NULLFAIL \<and> length vchSig \<noteq> 0
                     then Inl SCRIPT_ERR_SIG_NULLFAIL
                     else if opcode = OP_CHECKSIGVERIFY
                     then if fSuccess then Inr (s\<lparr> st_stack := st \<rparr>) else Inl SCRIPT_ERR_CHECKSIGVERIFY
                     else Inr (s\<lparr> st_stack := script_bool fSuccess # st \<rparr>))
      | _ \<Rightarrow> Inl SCRIPT_ERR_INVALID_STACK_OPERATION)"

text \<open>
  The loop that matches signatures against keys, on the signatures and the keys that are left;
  \<open>nSigsCount\<close> and \<open>nKeysCount\<close> are their numbers.
\<close>

fun multisig_loop :: "eval_env \<Rightarrow> bytes \<Rightarrow> bytes list \<Rightarrow> bytes list \<Rightarrow> ScriptError + bool" where
  "multisig_loop e scriptCode [] keys = Inr True"
| "multisig_loop e scriptCode (vchSig # sigs) [] = Inr False"
| "multisig_loop e scriptCode (vchSig # sigs) (vchPubKey # keys) =
     (case check_encodings e vchSig vchPubKey of
        Some err \<Rightarrow> Inl err
      | None \<Rightarrow>
          let fOk = CheckSig (ev_checker e) vchSig vchPubKey scriptCode (ev_sigversion e);
              left = (if fOk then sigs else vchSig # sigs)
          in if length left > length keys then Inr False else multisig_loop e scriptCode left keys)"

text \<open>The loop \<open>while (i-- > 1)\<close> that pops the arguments.\<close>

fun multisig_cleanup :: "eval_env \<Rightarrow> bool \<Rightarrow> nat \<Rightarrow> nat \<Rightarrow> bytes list \<Rightarrow> ScriptError + bytes list" where
  "multisig_cleanup e fSuccess ikey2 0 st = Inr st"
| "multisig_cleanup e fSuccess ikey2 (Suc n) st =
     (if \<not> fSuccess \<and> ev_flag e SCRIPT_VERIFY_NULLFAIL \<and> ikey2 = 0 \<and> length (hd st) \<noteq> 0
      then Inl SCRIPT_ERR_SIG_NULLFAIL
      else multisig_cleanup e fSuccess (ikey2 - 1) n (tl st))"

text \<open>What follows the loops: the extra argument, and the result.\<close>

definition multisig_finish :: "eval_env \<Rightarrow> byte \<Rightarrow> bool \<Rightarrow> bytes list \<Rightarrow> eval_state \<Rightarrow> eval_result" where
  "multisig_finish e opcode fSuccess st s =
     (case st of
        [] \<Rightarrow> Inl SCRIPT_ERR_INVALID_STACK_OPERATION
      | dummy # st' \<Rightarrow>
          if ev_flag e SCRIPT_VERIFY_NULLDUMMY \<and> length dummy \<noteq> 0 then Inl SCRIPT_ERR_SIG_NULLDUMMY
          else if opcode = OP_CHECKMULTISIGVERIFY
          then if fSuccess then Inr (s\<lparr> st_stack := st' \<rparr>) else Inl SCRIPT_ERR_CHECKMULTISIGVERIFY
          else Inr (s\<lparr> st_stack := script_bool fSuccess # st' \<rparr>))"

definition op_checkmultisig :: "eval_env \<Rightarrow> byte \<Rightarrow> eval_state \<Rightarrow> eval_result" where
  "op_checkmultisig e opcode s =
     (let st = st_stack s in
      if length st < 1 then Inl SCRIPT_ERR_INVALID_STACK_OPERATION
      else sbind (stack_num e (st ! 0) nDefaultMaxNumSize) (\<lambda>bnKeys.
        let nKeysCount = getint bnKeys in
        if nKeysCount < 0 \<or> nKeysCount > MAX_PUBKEYS_PER_MULTISIG then Inl SCRIPT_ERR_PUBKEY_COUNT
        else if st_nOpCount s + nKeysCount > MAX_OPS_PER_SCRIPT then Inl SCRIPT_ERR_OP_COUNT
        else let nKeys = nat nKeysCount in
        if length st < 2 + nKeys then Inl SCRIPT_ERR_INVALID_STACK_OPERATION
        else sbind (stack_num e (st ! (1 + nKeys)) nDefaultMaxNumSize) (\<lambda>bnSigs.
          let nSigsCount = getint bnSigs in
          if nSigsCount < 0 \<or> nSigsCount > nKeysCount then Inl SCRIPT_ERR_SIG_COUNT
          else let nSigs = nat nSigsCount; i = 3 + nKeys + nSigs in
          if length st < i then Inl SCRIPT_ERR_INVALID_STACK_OPERATION
          else let keys = take nKeys (drop 1 st);
                   sigs = take nSigs (drop (2 + nKeys) st);
                   scriptCode = foldl (drop_signature e) (st_codehash s) sigs
               in sbind (multisig_loop e scriptCode sigs keys) (\<lambda>fSuccess.
                  sbind (multisig_cleanup e fSuccess (nKeys + 2) (i - 1) st) (\<lambda>st'.
                    multisig_finish e opcode fSuccess st'
                      (s\<lparr> st_nOpCount := st_nOpCount s + nKeysCount \<rparr>))))))"

section \<open>The dispatch\<close>

definition exec_opcode :: "eval_env \<Rightarrow> byte \<Rightarrow> bytes \<Rightarrow> bool \<Rightarrow> eval_state \<Rightarrow> eval_result" where
  "exec_opcode e opcode pc fExec s =
     (if opcode = OP_1NEGATE \<or> (OP_1 \<le> opcode \<and> opcode \<le> OP_16) then op_push_number opcode s
      else if opcode = OP_NOP then Inr s
      else if opcode = OP_CHECKLOCKTIMEVERIFY then op_checklocktimeverify e s
      else if opcode = OP_CHECKSEQUENCEVERIFY then op_checksequenceverify e s
      else if opcode = OP_NOP1 \<or> (OP_NOP4 \<le> opcode \<and> opcode \<le> OP_NOP10) then op_upgradable_nop e s
      else if opcode = OP_IF \<or> opcode = OP_NOTIF then op_if e opcode fExec s
      else if opcode = OP_ELSE then op_else s
      else if opcode = OP_ENDIF then op_endif s
      else if opcode = OP_VERIFY then op_verify s
      else if opcode = OP_RETURN then op_return s
      else if opcode = OP_TOALTSTACK then op_toaltstack s
      else if opcode = OP_FROMALTSTACK then op_fromaltstack s
      else if opcode = OP_2DROP then op_2drop s
      else if opcode = OP_2DUP then op_2dup s
      else if opcode = OP_3DUP then op_3dup s
      else if opcode = OP_2OVER then op_2over s
      else if opcode = OP_2ROT then op_2rot s
      else if opcode = OP_2SWAP then op_2swap s
      else if opcode = OP_IFDUP then op_ifdup s
      else if opcode = OP_DEPTH then op_depth s
      else if opcode = OP_DROP then op_drop s
      else if opcode = OP_DUP then op_dup s
      else if opcode = OP_NIP then op_nip s
      else if opcode = OP_OVER then op_over s
      else if opcode = OP_PICK \<or> opcode = OP_ROLL then op_pick_roll e opcode s
      else if opcode = OP_ROT then op_rot s
      else if opcode = OP_SWAP then op_swap s
      else if opcode = OP_TUCK then op_tuck s
      else if opcode = OP_SIZE then op_size s
      else if opcode = OP_EQUAL \<or> opcode = OP_EQUALVERIFY then op_equal opcode s
      else if opcode \<in> {OP_1ADD, OP_1SUB, OP_NEGATE, OP_ABS, OP_NOT, OP_0NOTEQUAL} then op_unary e opcode s
      else if opcode \<in> {OP_ADD, OP_SUB, OP_BOOLAND, OP_BOOLOR, OP_NUMEQUAL, OP_NUMEQUALVERIFY,
                         OP_NUMNOTEQUAL, OP_LESSTHAN, OP_GREATERTHAN, OP_LESSTHANOREQUAL,
                         OP_GREATERTHANOREQUAL, OP_MIN, OP_MAX}
      then op_binary e opcode s
      else if opcode = OP_WITHIN then op_within e s
      else if opcode \<in> {OP_RIPEMD160, OP_SHA1, OP_SHA256, OP_HASH160, OP_HASH256} then op_digest opcode s
      else if opcode = OP_CODESEPARATOR then op_codeseparator pc s
      else if opcode = OP_CHECKSIG \<or> opcode = OP_CHECKSIGVERIFY then op_checksig e opcode s
      else if opcode = OP_CHECKMULTISIG \<or> opcode = OP_CHECKMULTISIGVERIFY then op_checkmultisig e opcode s
      else Inl SCRIPT_ERR_BAD_OPCODE)"

section \<open>Reasoning about instructions\<close>

named_theorems op_defs \<open>definitions of the instructions\<close>

lemmas [op_defs] = op_push_number_def op_checklocktimeverify_def op_checksequenceverify_def op_upgradable_nop_def op_if_def op_else_def op_endif_def op_verify_def op_return_def op_toaltstack_def op_fromaltstack_def op_2drop_def op_2dup_def op_3dup_def op_2over_def op_2rot_def op_2swap_def op_ifdup_def op_depth_def op_drop_def op_dup_def op_nip_def op_over_def op_pick_roll_def op_rot_def op_swap_def op_tuck_def op_size_def op_equal_def op_unary_def op_binary_def op_within_def op_digest_def op_codeseparator_def op_checksig_def op_checkmultisig_def
  Let_def

text \<open>A property of the machine's state that holds unless an instruction fails.\<close>

definition result_all :: "(eval_state \<Rightarrow> bool) \<Rightarrow> eval_result \<Rightarrow> bool" where
  "result_all P r = (case r of Inl _ \<Rightarrow> True | Inr s \<Rightarrow> P s)"

lemma result_all_simps [simp]:
  "result_all P (Inl err)" "result_all P (Inr s) = P s"
  "result_all P (sbind m f) = (\<forall>x. m = Inr x \<longrightarrow> result_all P (f x))"
  by (cases m; simp add: result_all_def)+

lemma result_all_mono: "result_all P r \<Longrightarrow> (\<And>s. P s \<Longrightarrow> Q s) \<Longrightarrow> result_all Q r"
  by (auto simp: result_all_def split: sum.splits)

lemma result_allD: "result_all P r \<Longrightarrow> r = Inr s \<Longrightarrow> P s"
  by simp

text \<open>What holds of the result of every instruction holds of the dispatch.\<close>

lemma exec_opcode_rule:
  assumes "P (op_push_number opcode s)" "P (Inr s)" "P (op_checklocktimeverify e s)"
    "P (op_checksequenceverify e s)" "P (op_upgradable_nop e s)" "P (op_if e opcode fExec s)" "P (op_else s)"
    "P (op_endif s)" "P (op_verify s)" "P (op_return s)" "P (op_toaltstack s)" "P (op_fromaltstack s)"
    "P (op_2drop s)" "P (op_2dup s)" "P (op_3dup s)" "P (op_2over s)" "P (op_2rot s)" "P (op_2swap s)"
    "P (op_ifdup s)" "P (op_depth s)" "P (op_drop s)" "P (op_dup s)" "P (op_nip s)" "P (op_over s)"
    "P (op_pick_roll e opcode s)" "P (op_rot s)" "P (op_swap s)" "P (op_tuck s)" "P (op_size s)"
    "P (op_equal opcode s)" "P (op_unary e opcode s)" "P (op_binary e opcode s)" "P (op_within e s)"
    "P (op_digest opcode s)" "P (op_codeseparator pc s)" "P (op_checksig e opcode s)"
    "P (op_checkmultisig e opcode s)" "P (Inl SCRIPT_ERR_BAD_OPCODE)"
  shows "P (exec_opcode e opcode pc fExec s)"
  unfolding exec_opcode_def using assms by (simp only: if_split simp_thms)

lemma multisig_cleanup_drop: "multisig_cleanup e ok k n st = Inr st' \<Longrightarrow> st' = drop n st"
  by (induction n arbitrary: k st) (auto simp: drop_Suc split: if_splits)

section \<open>The hashes of the machine\<close>

lemma length_concat_le_bytes: "length (concat (map (le_bytes n) xs)) = n * length xs"
  by (induction xs) simp_all

lemma length_sha1_digest [simp]: "length (sha1_digest msg) = 20"
proof -
  have "length (sha1_compress s b) = 5" for s b by (simp add: sha1_compress_def Let_def split: prod.split)
  then show ?thesis
    by (simp add: sha1_digest_def length_concat_be_bytes length_compress_blocks [where k = 5] sha1_Initialize_def)
qed

lemma length_ripemd160_digest [simp]: "length (ripemd160_digest msg) = 20"
proof -
  have "length (rmd_compress s b) = 5" for s b by (simp add: rmd_compress_def Let_def split: prod.split)
  then show ?thesis
    by (simp add: ripemd160_digest_def length_concat_le_bytes length_compress_blocks [where k = 5]
        ripemd160_Initialize_def)
qed

lemma script_hash_eq:
  "script_hash OP_RIPEMD160 v = ripemd160_digest v"
  "script_hash OP_SHA1 v = sha1_digest v"
  "script_hash OP_SHA256 v = fips_sha256 v"
  "script_hash OP_HASH160 v = ripemd160_digest (fips_sha256 v)"
  "script_hash OP_HASH256 v = fips_sha256 (fips_sha256 v)"
proof -
  have b: "length blank64 = 64" by (simp add: blank64_def)
  have sha: "absorbed 64 sha256_block sha256_Initialize (CSHA256_Write (CSHA256_new blank64) v) v"
    using sha256_hasher.write_absorbs [OF new_absorbed_sha256, of v] by simp
  have rmd: "CRIPEMD160_Finalize (CRIPEMD160_Write (CRIPEMD160_new blank64) x) = ripemd160_digest x" for x
    using CRIPEMD160_Finalize_absorbed [OF ripemd160_hasher.write_absorbs [OF new_absorbed_ripemd160 [OF b], of x]]
    by simp
  show "script_hash OP_RIPEMD160 v = ripemd160_digest v" by (simp add: script_hash_def rmd)
  show "script_hash OP_SHA256 v = fips_sha256 v"
    using CSHA256_Finalize_absorbed [OF sha] by (simp add: script_hash_def)
  show "script_hash OP_HASH160 v = ripemd160_digest (fips_sha256 v)"
    using CSHA256_Finalize_absorbed [OF sha] by (simp add: script_hash_def CHash160_Finalize_def rmd)
  show "script_hash OP_HASH256 v = fips_sha256 (fips_sha256 v)"
    using CHash256_Finalize_absorbed [OF sha] by (simp add: script_hash_def)
  have "absorbed 64 sha1_Transform sha1_Initialize (CSHA1_Write (CSHA1_new blank64) v) v"
    using sha1_hasher.write_absorbs [OF sha1_hasher.new_absorbed [OF b], of v] by (simp add: CSHA1_new_def)
  then show "script_hash OP_SHA1 v = sha1_digest v"
    using CSHA1_Finalize_absorbed by (simp add: script_hash_def)
qed

lemma length_script_hash: "length (script_hash opcode vch) \<le> 32"
  using script_hash_eq [of vch] by (simp add: script_hash_def)

end
