(* ===== verification/Interpreter.thy ===== *)
theory Interpreter
  imports ScriptOps
begin

text \<open>
  \<open>EvalScript\<close> of \<open>script/interpreter.cpp\<close>: reading instructions, the limits, conditional execution, and
  what a run of the machine guarantees.
\<close>

section \<open>The machine\<close>

definition disabled_opcode :: "byte \<Rightarrow> bool" where
  "disabled_opcode opcode \<longleftrightarrow> opcode \<in> {OP_CAT, OP_SUBSTR, OP_LEFT, OP_RIGHT, OP_INVERT, OP_AND, OP_OR,
     OP_XOR, OP_2MUL, OP_2DIV, OP_MUL, OP_DIV, OP_MOD, OP_LSHIFT, OP_RSHIFT}"

text \<open>\<open>!count(vfExec.begin(), vfExec.end(), false)\<close>\<close>

definition executing :: "eval_state \<Rightarrow> bool" where
  "executing s = list_all id (st_vfExec s)"

text \<open>One pass through the loop, after the instruction has been read; \<open>pc\<close> is what follows it.\<close>

definition eval_instr :: "eval_env \<Rightarrow> byte \<Rightarrow> bytes \<Rightarrow> bytes \<Rightarrow> eval_state \<Rightarrow> eval_result" where
  "eval_instr e opcode vchPushValue pc s =
     (let fExec = executing s;
          s1 = (if opcode > OP_16 then s\<lparr> st_nOpCount := st_nOpCount s + 1 \<rparr> else s)
      in if length vchPushValue > MAX_SCRIPT_ELEMENT_SIZE then Inl SCRIPT_ERR_PUSH_SIZE
         else if opcode > OP_16 \<and> st_nOpCount s1 > MAX_OPS_PER_SCRIPT then Inl SCRIPT_ERR_OP_COUNT
         else if disabled_opcode opcode then Inl SCRIPT_ERR_DISABLED_OPCODE
         else sbind
           (if fExec \<and> opcode \<le> OP_PUSHDATA4
            then if ev_flag e SCRIPT_VERIFY_MINIMALDATA \<and> \<not> CheckMinimalPush vchPushValue opcode
                 then Inl SCRIPT_ERR_MINIMALDATA
                 else Inr (s1\<lparr> st_stack := vchPushValue # st_stack s1 \<rparr>)
            else if fExec \<or> (OP_IF \<le> opcode \<and> opcode \<le> OP_ENDIF)
            then exec_opcode e opcode pc fExec s1
            else Inr s1)
           (\<lambda>s2. if length (st_stack s2) + length (st_altstack s2) > MAX_STACK_SIZE
                 then Inl SCRIPT_ERR_STACK_SIZE else Inr s2))"

function eval_loop :: "eval_env \<Rightarrow> bytes \<Rightarrow> eval_state \<Rightarrow> eval_result" where
  "eval_loop e pc s =
     (if pc = [] then Inr s
      else case GetOp2 pc of (ok, opcode, vchPushValue, pc') \<Rightarrow>
        if \<not> ok then Inl SCRIPT_ERR_BAD_OPCODE
        else case eval_instr e opcode vchPushValue pc' s of
               Inl err \<Rightarrow> Inl err
             | Inr s' \<Rightarrow> eval_loop e pc' s')"
  by pat_completeness auto
termination
  by (relation "measure (\<lambda>(e, pc, s). length pc)") (auto intro: GetOp2_shrinks_sym)

declare eval_loop.simps [simp del]

definition initial_state :: "bytes list \<Rightarrow> bytes \<Rightarrow> eval_state" where
  "initial_state stack script =
     \<lparr> st_stack = stack, st_altstack = [], st_vfExec = [], st_nOpCount = 0, st_codehash = script \<rparr>"

definition EvalScript :: "eval_env \<Rightarrow> bytes list \<Rightarrow> bytes \<Rightarrow> ScriptError + bytes list" where
  "EvalScript e stack script =
     (if length script > MAX_SCRIPT_SIZE then Inl SCRIPT_ERR_SCRIPT_SIZE
      else sbind (eval_loop e script (initial_state stack script)) (\<lambda>s.
        if st_vfExec s \<noteq> [] then Inl SCRIPT_ERR_UNBALANCED_CONDITIONAL
        else Inr (st_stack s)))"

section \<open>Running the machine step by step\<close>

text \<open>The machine as a transition system on configurations: what is left of the script, and the state.\<close>

inductive eval_step :: "eval_env \<Rightarrow> bytes \<times> eval_state \<Rightarrow> bytes \<times> eval_state \<Rightarrow> bool" for e where
  step: "GetOp2 pc = (True, opcode, vch, pc') \<Longrightarrow> eval_instr e opcode vch pc' s = Inr s' \<Longrightarrow>
     eval_step e (pc, s) (pc', s')"

inductive_cases eval_stepE: "eval_step e (pc, s) c"

lemma eval_loop_steps:
  "eval_loop e pc s = Inr s' \<longleftrightarrow> (eval_step e)\<^sup>*\<^sup>* (pc, s) ([], s')"
proof
  show "eval_loop e pc s = Inr s' \<Longrightarrow> (eval_step e)\<^sup>*\<^sup>* (pc, s) ([], s')"
  proof (induction e pc s rule: eval_loop.induct)
    case (1 e pc s)
    show ?case
    proof (cases "pc = []")
      case True
      with "1.prems" show ?thesis by (simp add: eval_loop.simps)
    next
      case False
      obtain ok opcode vch pc' where op: "GetOp2 pc = (ok, opcode, vch, pc')" by (cases "GetOp2 pc") auto
      with "1.prems" False obtain s1 where ok: "ok" and s1: "eval_instr e opcode vch pc' s = Inr s1"
        and rest: "eval_loop e pc' s1 = Inr s'"
        by (subst (asm) eval_loop.simps) (auto split: if_splits sum.splits)
      have "eval_step e (pc, s) (pc', s1)" using op ok s1 by (auto intro: eval_step.step)
      moreover have "(eval_step e)\<^sup>*\<^sup>* (pc', s1) ([], s')"
        using "1.IH" [OF False op [symmetric] refl refl _ s1 rest] ok by simp
      ultimately show ?thesis by (rule converse_rtranclp_into_rtranclp)
    qed
  qed
next
  assume "(eval_step e)\<^sup>*\<^sup>* (pc, s) ([], s')"
  then show "eval_loop e pc s = Inr s'"
  proof (induction "(pc, s)" arbitrary: pc s rule: converse_rtranclp_induct)
    case base
    then show ?case by (simp add: eval_loop.simps)
  next
    case (step c)
    from step.hyps(1) obtain opcode vch pc' s1 where c: "c = (pc', s1)"
      and op: "GetOp2 pc = (True, opcode, vch, pc')" "eval_instr e opcode vch pc' s = Inr s1"
      by (auto elim: eval_stepE)
    have "eval_loop e pc' s1 = Inr s'" by (rule step.hyps(3)) (rule c)
    moreover have "pc \<noteq> []" using op(1) by (auto simp: GetOp2_def)
    ultimately show ?case using op by (subst eval_loop.simps) simp
  qed
qed

text \<open>An invariant of the steps holds at the end of every successful run.\<close>

lemma eval_loop_invariant:
  assumes "eval_loop e pc s = Inr s'" "P pc s"
    and "\<And>pc opcode vch pc' s s'. GetOp2 pc = (True, opcode, vch, pc') \<Longrightarrow>
           eval_instr e opcode vch pc' s = Inr s' \<Longrightarrow> P pc s \<Longrightarrow> P pc' s'"
  shows "P [] s'"
proof -
  have "(eval_step e)\<^sup>*\<^sup>* (pc, s) ([], s')" using assms(1) eval_loop_steps by blast
  then show ?thesis
    using assms(2)
  proof (induction "(pc, s)" arbitrary: pc s rule: converse_rtranclp_induct)
    case (step c)
    from step.hyps(1) obtain opcode vch pc' s1 where c: "c = (pc', s1)"
      and "GetOp2 pc = (True, opcode, vch, pc')" "eval_instr e opcode vch pc' s = Inr s1"
      by (auto elim: eval_stepE)
    then show ?case using step.hyps(3) [OF c] assms(3) step.prems by blast
  qed
qed

section \<open>Limits the machine keeps\<close>

definition elements_ok :: "eval_state \<Rightarrow> bool" where
  "elements_ok s \<longleftrightarrow>
     (\<forall>x \<in> set (st_stack s) \<union> set (st_altstack s). length x \<le> MAX_SCRIPT_ELEMENT_SIZE)"

lemma length_abs_bytes: "unat w < 256 ^ k \<Longrightarrow> length (abs_bytes w) \<le> k"
proof (induction k arbitrary: w)
  case 0
  then have "w = 0" by (simp add: unat_eq_zero)
  then show ?case by (subst abs_bytes.simps) simp
next
  case (Suc k)
  have "unat (drop_bit 8 w) < 256 ^ k"
    using Suc.prems by (simp add: unat_drop_bit less_mult_imp_div_less mult.commute)
  then show ?case using Suc.IH by (subst abs_bytes.simps) simp
qed

lemma length_serialize: "length (serialize v) \<le> 9"
proof -
  have "length (abs_bytes w) \<le> 8" for w using unat_less_pow [of 64 w] by (intro length_abs_bytes) simp
  then show ?thesis
    by (auto simp: serialize_def Let_def intro: le_SucI order_trans diff_le_self [THEN order_trans])
qed

lemma elements_ok_serialize [simp]: "length (serialize v) \<le> MAX_SCRIPT_ELEMENT_SIZE"
  using length_serialize [of v] by (simp add: MAX_SCRIPT_ELEMENT_SIZE_def)

lemma elements_ok_script_hash [simp]: "length (script_hash opcode vch) \<le> MAX_SCRIPT_ELEMENT_SIZE"
  using length_script_hash [of opcode vch] by (simp add: MAX_SCRIPT_ELEMENT_SIZE_def)

lemma length_script_bool [simp]: "length (script_bool b) \<le> MAX_SCRIPT_ELEMENT_SIZE"
  by (simp add: script_bool_def vchTrue_def vchFalse_def MAX_SCRIPT_ELEMENT_SIZE_def)

lemma op_pick_roll_elements:
  "result_all (\<lambda>s'. set (st_stack s') \<subseteq> set (st_stack s) \<and> st_altstack s' = st_altstack s)
     (op_pick_roll e opcode s)"
proof -
  have "x \<in> set (y # ys)" if "x = (y # ys) ! nat n" "0 \<le> n" "n < 1 + int (length ys)" for x y n and ys :: "bytes list"
    using that by (metis (mono_tags) nth_mem length_Cons nat_less_iff of_nat_Suc)
  then show ?thesis
    by (auto simp: op_pick_roll_def Let_def not_less not_le split: list.split dest: in_set_takeD in_set_dropD)
qed

lemma op_checkmultisig_elements:
  "result_all (\<lambda>s'. set (st_stack s') \<subseteq> {script_bool True, script_bool False} \<union> set (st_stack s)
      \<and> st_altstack s' = st_altstack s) (op_checkmultisig e opcode s)"
proof -
  have sub: "set ys \<subseteq> set st" if "drop n st = y # ys" for y ys n and st :: "bytes list"
    using set_drop_subset [of n st] that by auto
  have "result_all (\<lambda>s'. set (st_stack s') \<subseteq> {script_bool True, script_bool False} \<union> set (st_stack s)
      \<and> st_altstack s' = st_altstack s)
      (multisig_finish e opcode ok (drop n (st_stack s)) (s\<lparr> st_nOpCount := k \<rparr>))" for ok n k
    by (cases ok) (auto simp: multisig_finish_def split: list.split dest!: sub)
  then show ?thesis
    by (auto simp: op_checkmultisig_def Let_def simp del: multisig_cleanup.simps dest!: multisig_cleanup_drop)
qed

lemma exec_opcode_elements:
  assumes "elements_ok s"
  shows "result_all elements_ok (exec_opcode e opcode pc fExec s)"
proof (rule exec_opcode_rule)
  show "result_all elements_ok (op_pick_roll e opcode s)"
    by (rule result_all_mono [OF op_pick_roll_elements]) (use assms in \<open>auto simp: elements_ok_def\<close>)
  show "result_all elements_ok (op_checkmultisig e opcode s)"
    by (rule result_all_mono [OF op_checkmultisig_elements]) (use assms in \<open>auto simp: elements_ok_def\<close>)
qed (use assms in \<open>auto simp: op_defs elements_ok_def split: list.split option.split\<close>)

lemma exec_opcode_count:
  "result_all (\<lambda>s'. st_nOpCount s \<le> st_nOpCount s' \<and>
      (st_nOpCount s \<le> MAX_OPS_PER_SCRIPT \<longrightarrow> st_nOpCount s' \<le> MAX_OPS_PER_SCRIPT))
    (exec_opcode e opcode pc fExec s)"
proof (rule exec_opcode_rule)
  show "result_all (\<lambda>s'. st_nOpCount s \<le> st_nOpCount s' \<and>
      (st_nOpCount s \<le> MAX_OPS_PER_SCRIPT \<longrightarrow> st_nOpCount s' \<le> MAX_OPS_PER_SCRIPT))
    (op_checkmultisig e opcode s)"
    by (auto simp: op_checkmultisig_def multisig_finish_def Let_def simp del: multisig_cleanup.simps
        split: list.split)
qed (auto simp: op_defs split: list.split option.split)

text \<open>The instructions of a script, up to the first that cannot be read.\<close>

function script_ops :: "bytes \<Rightarrow> byte list" where
  "script_ops pc =
     (case GetOp2 pc of (ok, opcode, vch, pc') \<Rightarrow> if ok then opcode # script_ops pc' else [])"
  by pat_completeness auto
termination
  by (relation "measure length") (auto intro: GetOp2_shrinks_sym)

declare script_ops.simps [simp del]

lemma eval_instr_limits:
  assumes "eval_instr e opcode vch pc s = Inr s'"
  shows "\<not> disabled_opcode opcode" and "length (st_stack s') + length (st_altstack s') \<le> MAX_STACK_SIZE"
    and "elements_ok s \<Longrightarrow> elements_ok s'"
    and "st_nOpCount s' \<ge> st_nOpCount s + (if opcode > OP_16 then 1 else 0)"
    and "st_nOpCount s \<le> MAX_OPS_PER_SCRIPT \<Longrightarrow> st_nOpCount s' \<le> MAX_OPS_PER_SCRIPT"
proof -
  define s1 where "s1 = (if opcode > OP_16 then s\<lparr> st_nOpCount := st_nOpCount s + 1 \<rparr> else s)"
  have guards: "\<not> disabled_opcode opcode" "length vch \<le> MAX_SCRIPT_ELEMENT_SIZE"
      "opcode > OP_16 \<Longrightarrow> st_nOpCount s1 \<le> MAX_OPS_PER_SCRIPT"
    and size: "length (st_stack s') + length (st_altstack s') \<le> MAX_STACK_SIZE"
    and res: "s' = s1\<lparr> st_stack := vch # st_stack s1 \<rparr> \<or> exec_opcode e opcode pc (executing s) s1 = Inr s' \<or> s' = s1"
    using assms unfolding eval_instr_def Let_def s1_def [symmetric]
    by (auto split: if_splits simp del: OP_16_def OP_PUSHDATA4_def OP_IF_def OP_ENDIF_def)
  show "\<not> disabled_opcode opcode" "length (st_stack s') + length (st_altstack s') \<le> MAX_STACK_SIZE"
    by (fact guards(1), fact size)
  have s1: "elements_ok s \<Longrightarrow> elements_ok s1" "st_nOpCount s1 = st_nOpCount s + (if opcode > OP_16 then 1 else 0)"
    by (auto simp: s1_def elements_ok_def)
  note exec = result_allD [OF exec_opcode_count [of s1 e opcode pc "executing s"], of s']
    result_allD [OF exec_opcode_elements, of s1 e opcode pc "executing s" s']
  show "elements_ok s'" if "elements_ok s"
    using res exec(2) s1(1) [OF that] guards(2) by (auto simp: elements_ok_def)
  show "st_nOpCount s' \<ge> st_nOpCount s + (if opcode > OP_16 then 1 else 0)"
    using res exec(1) s1(2) by auto
  show "st_nOpCount s' \<le> MAX_OPS_PER_SCRIPT" if "st_nOpCount s \<le> MAX_OPS_PER_SCRIPT"
    using res exec(1) s1(2) guards(3) that by (auto split: if_splits)
qed

definition within_limits :: "bytes \<Rightarrow> bytes \<Rightarrow> eval_state \<Rightarrow> bool" where
  "within_limits script pc s \<longleftrightarrow> elements_ok s
     \<and> length (st_stack s) + length (st_altstack s) \<le> MAX_STACK_SIZE
     \<and> st_nOpCount s \<le> MAX_OPS_PER_SCRIPT \<and> (complete_script pc \<longrightarrow> complete_script script)
     \<and> (\<exists>ops. script_ops script = ops @ script_ops pc \<and> (\<forall>opcode \<in> set ops. \<not> disabled_opcode opcode)
          \<and> int (length (filter (\<lambda>opcode. opcode > OP_16) ops)) \<le> st_nOpCount s)"

lemma within_limits_step:
  assumes "GetOp2 pc = (True, opcode, vch, pc')" "eval_instr e opcode vch pc' s = Inr s'"
    and "within_limits script pc s"
  shows "within_limits script pc' s'"
proof -
  note lim = eval_instr_limits [OF assms(2)]
  from assms(3) obtain ops where ops: "script_ops script = ops @ script_ops pc"
      "\<forall>opcode \<in> set ops. \<not> disabled_opcode opcode"
      "int (length (filter (\<lambda>opcode. opcode > OP_16) ops)) \<le> st_nOpCount s"
    by (auto simp: within_limits_def)
  have "script_ops pc = opcode # script_ops pc'" using assms(1) by (subst script_ops.simps) simp
  then have "script_ops script = (ops @ [opcode]) @ script_ops pc'"
      "\<forall>opcode \<in> set (ops @ [opcode]). \<not> disabled_opcode opcode"
      "int (length (filter (\<lambda>opcode. opcode > OP_16) (ops @ [opcode]))) \<le> st_nOpCount s'"
    using ops lim(1,4) by (auto split: if_splits)
  moreover have "complete_script pc' \<longrightarrow> complete_script pc"
    using assms(1) by (subst (2) complete_script.simps) simp
  ultimately show ?thesis
    using assms(3) lim(2,3,5) unfolding within_limits_def by blast
qed

text \<open>
  C32: a script that runs to its end is at most 10000 bytes long, consists of complete instructions,
  of which at most 201 do more than push a constant and none is disabled, executed or not; run on a
  stack of at most 1000 elements of at most 520 bytes, it leaves such a stack.
\<close>

theorem EvalScript_limits:
  assumes "EvalScript e stack script = Inr stack'"
    and "length stack \<le> MAX_STACK_SIZE" "\<forall>x \<in> set stack. length x \<le> MAX_SCRIPT_ELEMENT_SIZE"
  shows "length stack' \<le> MAX_STACK_SIZE \<and> (\<forall>x \<in> set stack'. length x \<le> MAX_SCRIPT_ELEMENT_SIZE)
    \<and> length script \<le> MAX_SCRIPT_SIZE \<and> complete_script script
    \<and> (\<forall>opcode \<in> set (script_ops script). \<not> disabled_opcode opcode)
    \<and> int (length (filter (\<lambda>opcode. opcode > OP_16) (script_ops script))) \<le> MAX_OPS_PER_SCRIPT"
proof -
  from assms(1) obtain s where len: "length script \<le> MAX_SCRIPT_SIZE"
    and run: "eval_loop e script (initial_state stack script) = Inr s" and res: "stack' = st_stack s"
    by (auto simp: EvalScript_def sbind_eq_Inr split: if_splits)
  have "within_limits script script (initial_state stack script)"
    using assms(2,3) by (simp add: within_limits_def initial_state_def elements_ok_def MAX_OPS_PER_SCRIPT_def)
  then have "within_limits script [] s"
    by (rule eval_loop_invariant [where P = "within_limits script", OF run]) (rule within_limits_step)
  moreover have "complete_script []" "script_ops [] = []"
    by (simp add: complete_script.simps) (subst script_ops.simps, simp)
  ultimately show ?thesis using len res by (auto simp: within_limits_def elements_ok_def)
qed

theorem EvalScript_limits_witness:
  "EvalScript \<lparr> ev_flags = 0, ev_checker = BaseSignatureChecker, ev_sigversion = SIGVERSION_BASE \<rparr> [] [0x52, 0x76, 0x93]
     = Inr [[4]] \<and> complete_script [0x52, 0x76, 0x93]"
proof -
  have "EvalScript \<lparr> ev_flags = 0, ev_checker = BaseSignatureChecker, ev_sigversion = SIGVERSION_BASE \<rparr> []
      [0x52, 0x76, 0x93] = Inr [[4]]"
    by code_simp
  from this EvalScript_limits [OF this] show ?thesis by simp
qed

text \<open>
  C33: an output script that \<open>IsUnspendable\<close> reports can never be satisfied: whatever the stack, the
  flags and the signature checker, evaluating it fails.
\<close>

theorem IsUnspendable_sound:
  "IsUnspendable script \<Longrightarrow> \<exists>err. EvalScript e stack script = Inl err"
proof -
  assume u: "IsUnspendable script"
  show ?thesis
  proof (cases "length script > MAX_SCRIPT_SIZE")
    case True
    then show ?thesis by (simp add: EvalScript_def)
  next
    case False
    with u obtain rest where script: "script = OP_RETURN # rest"
      by (cases script) (auto simp: IsUnspendable_def)
    have "GetOp2 script = (True, OP_RETURN, [], rest)" by (simp add: script GetOp2_def)
    moreover have "\<exists>err. eval_instr e OP_RETURN [] rest (initial_state stack script) = Inl err"
      by (simp add: eval_instr_def initial_state_def executing_def exec_opcode_def op_return_def
          MAX_OPS_PER_SCRIPT_def disabled_opcode_def)
    ultimately have "\<exists>err. eval_loop e script (initial_state stack script) = Inl err"
      by (subst eval_loop.simps) (auto simp: script)
    then show ?thesis using False by (auto simp: EvalScript_def)
  qed
qed

theorem IsUnspendable_sound_witness:
  "\<exists>err. EvalScript \<lparr> ev_flags = 0, ev_checker = BaseSignatureChecker, ev_sigversion = SIGVERSION_BASE \<rparr> [[1]]
     [0x6a, 0x01, 0x07] = Inl err"
  by (rule IsUnspendable_sound) (simp add: IsUnspendable_def)

section \<open>More flags accept less\<close>

text \<open>The same machine with more flags.\<close>

definition stricter :: "eval_env \<Rightarrow> eval_env \<Rightarrow> bool" where
  "stricter e e' \<longleftrightarrow> ev_flags e AND ev_flags e' = ev_flags e \<and> ev_checker e' = ev_checker e
     \<and> ev_sigversion e' = ev_sigversion e
     \<and> \<not> flag_set (ev_flags e) SCRIPT_VERIFY_DISCOURAGE_UPGRADABLE_NOPS"

definition keeps :: "'e + 'a \<Rightarrow> 'e + 'a \<Rightarrow> bool" where
  "keeps r r' \<longleftrightarrow> (\<forall>s. r' = Inr s \<longrightarrow> r = Inr s)"

lemma keeps_refl [simp]: "keeps r r" and keeps_Inl [simp]: "keeps r (Inl err)"
  by (simp_all add: keeps_def)

lemma keeps_sbind: "keeps m m' \<Longrightarrow> (\<And>x. keeps (f x) (f' x)) \<Longrightarrow> keeps (sbind m f) (sbind m' f')"
  by (auto simp: keeps_def sbind_eq_Inr)

lemma stricter_flag: "stricter e e' \<Longrightarrow> ev_flag e f \<Longrightarrow> ev_flag e' f"
  by (auto simp: stricter_def ev_flag_def intro: flag_set_mono)

lemma stricter_sigversion: "stricter e e' \<Longrightarrow> ev_sigversion e' = ev_sigversion e"
  and stricter_checker: "stricter e e' \<Longrightarrow> ev_checker e' = ev_checker e"
  and stricter_nops: "stricter e e' \<Longrightarrow> \<not> ev_flag e SCRIPT_VERIFY_DISCOURAGE_UPGRADABLE_NOPS"
  by (simp_all add: stricter_def ev_flag_def)

lemma stack_num_keeps: "stricter e e' \<Longrightarrow> keeps (stack_num e vch n) (stack_num e' vch n)"
  using stricter_flag [of e e' SCRIPT_VERIFY_MINIMALDATA]
  by (auto simp: keeps_def stack_num_def CScriptNum_def split: if_splits)

lemma check_encodings_keeps:
  assumes "stricter e e'" "check_encodings e' vchSig vchPubKey = None"
  shows "check_encodings e vchSig vchPubKey = None"
proof -
  have mono: "flag_set (ev_flags e) f \<Longrightarrow> flag_set (ev_flags e') f" for f
    using stricter_flag [OF assms(1)] by (simp add: ev_flag_def)
  have "CheckSignatureEncoding vchSig (ev_flags e) = None"
    using assms(2) mono
    by (auto simp: check_encodings_def CheckSignatureEncoding_def simp del: SCRIPT_VERIFY_DERSIG_def
        SCRIPT_VERIFY_LOW_S_def SCRIPT_VERIFY_STRICTENC_def split: if_splits option.splits)
  moreover have "CheckPubKeyEncoding vchPubKey (ev_flags e) (ev_sigversion e) = None"
    using assms(2) mono stricter_sigversion [OF assms(1)]
    by (auto simp: check_encodings_def CheckPubKeyEncoding_def simp del: SCRIPT_VERIFY_STRICTENC_def
        SCRIPT_VERIFY_WITNESS_PUBKEYTYPE_def split: if_splits option.splits)
  ultimately show ?thesis by (simp add: check_encodings_def)
qed

lemma multisig_loop_keeps:
  assumes "stricter e e'"
  shows "keeps (multisig_loop e code sigs keys) (multisig_loop e' code sigs keys)"
  using check_encodings_keeps [OF assms] stricter_sigversion [OF assms] stricter_checker [OF assms]
  by (induction e' code sigs keys rule: multisig_loop.induct)
     (auto simp: keeps_def Let_def split: option.splits if_splits)

lemma multisig_cleanup_keeps:
  assumes "stricter e e'"
  shows "keeps (multisig_cleanup e ok k n st) (multisig_cleanup e' ok k n st)"
  using stricter_flag [OF assms, of SCRIPT_VERIFY_NULLFAIL]
  by (induction n arbitrary: k st) (auto simp: keeps_def simp del: SCRIPT_VERIFY_NULLFAIL_def)

lemma drop_signature_stricter: "stricter e e' \<Longrightarrow> drop_signature e' = drop_signature e"
  by (intro ext) (simp add: drop_signature_def stricter_sigversion)

lemma op_checkmultisig_keeps:
  assumes "stricter e e'"
  shows "keeps (op_checkmultisig e opcode s) (op_checkmultisig e' opcode s)"
proof -
  have fin: "keeps (multisig_finish e opcode ok st t) (multisig_finish e' opcode ok st t)" for ok st t
    using stricter_flag [OF assms, of SCRIPT_VERIFY_NULLDUMMY]
    by (auto simp: keeps_def multisig_finish_def simp del: SCRIPT_VERIFY_NULLDUMMY_def split: list.split)
  have if_keeps: "keeps (if c then Inl err else r) (if c then Inl err else r')" if "keeps r r'"
    for c err and r r' :: eval_result
    using that by simp
  show ?thesis
    unfolding op_checkmultisig_def Let_def drop_signature_stricter [OF assms]
    by (intro if_keeps keeps_sbind stack_num_keeps multisig_loop_keeps multisig_cleanup_keeps fin assms)
qed

lemma exec_opcode_keeps:
  assumes "stricter e e'"
  shows "keeps (exec_opcode e opcode pc fExec s) (exec_opcode e' opcode pc fExec s)"
proof -
  note flags = stricter_flag [OF assms] stricter_nops [OF assms]
  note num = stack_num_keeps [OF assms, unfolded keeps_def]
  have cltv: "keeps (op_checklocktimeverify e s) (op_checklocktimeverify e' s)"
    using flags num stricter_checker [OF assms]
    by (auto simp: keeps_def op_checklocktimeverify_def sbind_eq_Inr split: list.splits if_splits)
  have csv: "keeps (op_checksequenceverify e s) (op_checksequenceverify e' s)"
    using flags num stricter_checker [OF assms]
    by (auto simp: keeps_def op_checksequenceverify_def sbind_eq_Inr split: list.splits if_splits)
  have nop: "keeps (op_upgradable_nop e s) (op_upgradable_nop e' s)"
    using flags by (auto simp: keeps_def op_upgradable_nop_def)
  have cond: "keeps (op_if e opcode fExec s) (op_if e' opcode fExec s)"
    using flags stricter_sigversion [OF assms]
    by (auto simp: keeps_def op_if_def Let_def split: list.splits if_splits)
  have nums: "keeps (op_pick_roll e opcode s) (op_pick_roll e' opcode s)"
      "keeps (op_unary e opcode s) (op_unary e' opcode s)" "keeps (op_binary e opcode s) (op_binary e' opcode s)"
      "keeps (op_within e s) (op_within e' s)"
    unfolding op_pick_roll_def op_unary_def op_binary_def op_within_def
    by (auto intro!: keeps_sbind stack_num_keeps [OF assms] split: list.split)
  have sig: "keeps (op_checksig e opcode s) (op_checksig e' opcode s)"
    using flags check_encodings_keeps [OF assms] stricter_sigversion [OF assms] stricter_checker [OF assms]
      drop_signature_stricter [OF assms]
    by (auto simp: keeps_def op_checksig_def Let_def split: list.splits option.splits if_splits)
  have both: "keeps (if c then r1 else r2) (if c then r1' else r2')" if "keeps r1 r1'" "keeps r2 r2'"
    for c and r1 r2 r1' r2' :: eval_result
    using that by simp
  show ?thesis
    unfolding exec_opcode_def
    by (intro both cltv csv nop cond nums sig op_checkmultisig_keeps [OF assms] keeps_refl)
qed

lemma eval_loop_keeps:
  assumes "stricter e e'"
  shows "keeps (eval_loop e pc s) (eval_loop e' pc s)"
proof -
  have instr: "eval_instr e opcode vch pc s = Inr s'" if "eval_instr e' opcode vch pc s = Inr s'"
    for opcode vch pc s s'
  proof -
    have "keeps (eval_instr e opcode vch pc s) (eval_instr e' opcode vch pc s)"
      using stricter_flag [OF assms, of SCRIPT_VERIFY_MINIMALDATA]
      by (auto simp: eval_instr_def Let_def simp del: SCRIPT_VERIFY_MINIMALDATA_def
          intro!: keeps_sbind exec_opcode_keeps [OF assms])
    with that show ?thesis by (simp add: keeps_def)
  qed
  have "eval_step e c c'" if "eval_step e' c c'" for c c'
    using that by cases (auto intro: eval_step.step instr)
  then have "(eval_step e)\<^sup>*\<^sup>* c c'" if "(eval_step e')\<^sup>*\<^sup>* c c'" for c c'
    using that rtranclp_mono [of "eval_step e'" "eval_step e"] by blast
  then show ?thesis by (simp add: keeps_def eval_loop_steps)
qed

text \<open>
  Verification flags are soft forks of the machine: whatever a script computes under more flags,
  it computes under fewer. The one exception is \<open>DISCOURAGE_UPGRADABLE_NOPS\<close>, which must not be set to
  begin with: there, setting the flag that gives a discouraged instruction a meaning makes scripts valid.
\<close>

lemma EvalScript_softfork:
  assumes "stricter e e'" "EvalScript e' stack script = Inr stack'"
  shows "EvalScript e stack script = Inr stack'"
  using assms eval_loop_keeps [OF assms(1), of script "initial_state stack script"]
  by (auto simp: EvalScript_def sbind_eq_Inr keeps_def split: if_splits)

end
