(* ===== verification/ScriptVerify.thy ===== *)
theory ScriptVerify
  imports Interpreter
begin

text \<open>
  \<open>VerifyScript\<close> of \<open>script/interpreter.cpp\<close> with witness programs and pay-to-script-hash, the checker
  for the input of a transaction, and the count of witness signature operations. A failed assertion
  is \<open>Inl None\<close>, an error \<open>Inl (Some err)\<close>. A witness is a list with the first element first; the stack
  it becomes has its last element on top.
\<close>

section \<open>Verifying a script\<close>

type_synonym 'a verified = "ScriptError option + 'a"

definition lift_error :: "ScriptError + 'a \<Rightarrow> 'a verified" where
  "lift_error r = (case r of Inl err \<Rightarrow> Inl (Some err) | Inr x \<Rightarrow> Inr x)"

definition p2pkh_script :: "bytes \<Rightarrow> bytes" where
  "p2pkh_script program =
     push_opcode (push_opcode (push_data (push_opcode (push_opcode [] OP_DUP) OP_HASH160) program)
       OP_EQUALVERIFY) OP_CHECKSIG"

text \<open>The script and the stack a version-0 program stands for.\<close>

definition witness_v0_program :: "bytes list \<Rightarrow> bytes \<Rightarrow> ScriptError + (bytes \<times> bytes list)" where
  "witness_v0_program witness program =
     (if length program = 32
      then if witness = [] then Inl SCRIPT_ERR_WITNESS_PROGRAM_WITNESS_EMPTY
           else let scriptPubKey = last witness
                in if CSHA256_Finalize (CSHA256_Write (CSHA256_new blank64) scriptPubKey) \<noteq> program
                   then Inl SCRIPT_ERR_WITNESS_PROGRAM_MISMATCH
                   else Inr (scriptPubKey, rev (butlast witness))
      else if length program = 20
      then if length witness \<noteq> 2 then Inl SCRIPT_ERR_WITNESS_PROGRAM_MISMATCH
           else Inr (p2pkh_script program, rev witness)
      else Inl SCRIPT_ERR_WITNESS_PROGRAM_WRONG_LENGTH)"

definition VerifyWitnessProgram ::
  "bytes list \<Rightarrow> int \<Rightarrow> bytes \<Rightarrow> u32 \<Rightarrow> checker \<Rightarrow> ScriptError + unit" where
  "VerifyWitnessProgram witness witversion program flags chk =
     (if witversion = 0
      then sbind (witness_v0_program witness program) (\<lambda>(scriptPubKey, stack).
        if list_ex (\<lambda>x. length x > MAX_SCRIPT_ELEMENT_SIZE) stack then Inl SCRIPT_ERR_PUSH_SIZE
        else sbind (EvalScript \<lparr> ev_flags = flags, ev_checker = chk, ev_sigversion = SIGVERSION_WITNESS_V0 \<rparr>
                      stack scriptPubKey) (\<lambda>stack'.
               if length stack' \<noteq> 1 then Inl SCRIPT_ERR_EVAL_FALSE
               else if \<not> CastToBool (hd stack') then Inl SCRIPT_ERR_EVAL_FALSE
               else Inr ()))
      else if flag_set flags SCRIPT_VERIFY_DISCOURAGE_UPGRADABLE_WITNESS_PROGRAM
      then Inl SCRIPT_ERR_DISCOURAGE_UPGRADABLE_WITNESS_PROGRAM
      else Inr ())"

text \<open>The block on bare witness programs: whether there was one, and the stack.\<close>

definition verify_bare_witness ::
  "bytes \<Rightarrow> bytes \<Rightarrow> bytes list \<Rightarrow> u32 \<Rightarrow> checker \<Rightarrow> bytes list \<Rightarrow> (bool \<times> bytes list) verified" where
  "verify_bare_witness sig_script pub_script witness flags chk stack =
     (if flag_set flags SCRIPT_VERIFY_WITNESS
      then case IsWitnessProgram pub_script of
             None \<Rightarrow> Inr (False, stack)
           | Some (witnessversion, witnessprogram) \<Rightarrow>
               if length sig_script \<noteq> 0 then Inl (Some SCRIPT_ERR_WITNESS_MALLEATED)
               else sbind (lift_error (VerifyWitnessProgram witness witnessversion witnessprogram flags chk))
                      (\<lambda>_. Inr (True, [last stack]))
      else Inr (False, stack))"

text \<open>The block on pay-to-script-hash; \<open>stackCopy\<close> is the stack before the output script ran.\<close>

definition verify_p2sh ::
  "bytes \<Rightarrow> bytes \<Rightarrow> bytes list \<Rightarrow> u32 \<Rightarrow> checker \<Rightarrow> bytes list \<Rightarrow> bool \<Rightarrow> bytes list
     \<Rightarrow> (bool \<times> bytes list) verified" where
  "verify_p2sh sig_script pub_script witness flags chk stackCopy hadWitness stack =
     (if flag_set flags SCRIPT_VERIFY_P2SH \<and> IsPayToScriptHash pub_script
      then if \<not> IsPushOnly sig_script then Inl (Some SCRIPT_ERR_SIG_PUSHONLY)
           else if stackCopy = [] then Inl None
           else let pubKey2 = hd stackCopy in
             sbind (lift_error (EvalScript \<lparr> ev_flags = flags, ev_checker = chk, ev_sigversion = SIGVERSION_BASE \<rparr>
                      (tl stackCopy) pubKey2)) (\<lambda>stack2.
             if stack2 = [] then Inl (Some SCRIPT_ERR_EVAL_FALSE)
             else if \<not> CastToBool (hd stack2) then Inl (Some SCRIPT_ERR_EVAL_FALSE)
             else if flag_set flags SCRIPT_VERIFY_WITNESS
             then case IsWitnessProgram pubKey2 of
                    None \<Rightarrow> Inr (hadWitness, stack2)
                  | Some (witnessversion, witnessprogram) \<Rightarrow>
                      if sig_script \<noteq> push_data [] pubKey2 then Inl (Some SCRIPT_ERR_WITNESS_MALLEATED_P2SH)
                      else sbind (lift_error (VerifyWitnessProgram witness witnessversion witnessprogram flags chk))
                             (\<lambda>_. Inr (True, [last stack2]))
             else Inr (hadWitness, stack2))
      else Inr (hadWitness, stack))"

definition verify_final :: "bytes list \<Rightarrow> u32 \<Rightarrow> bool \<Rightarrow> bytes list \<Rightarrow> unit verified" where
  "verify_final witness flags hadWitness stack =
     (if flag_set flags SCRIPT_VERIFY_CLEANSTACK \<and>
         \<not> (flag_set flags SCRIPT_VERIFY_P2SH \<and> flag_set flags SCRIPT_VERIFY_WITNESS)
      then Inl None
      else if flag_set flags SCRIPT_VERIFY_CLEANSTACK \<and> length stack \<noteq> 1 then Inl (Some SCRIPT_ERR_CLEANSTACK)
      else if flag_set flags SCRIPT_VERIFY_WITNESS \<and> \<not> flag_set flags SCRIPT_VERIFY_P2SH then Inl None
      else if flag_set flags SCRIPT_VERIFY_WITNESS \<and> \<not> hadWitness \<and> witness \<noteq> []
      then Inl (Some SCRIPT_ERR_WITNESS_UNEXPECTED)
      else Inr ())"

definition VerifyScript :: "bytes \<Rightarrow> bytes \<Rightarrow> bytes list \<Rightarrow> u32 \<Rightarrow> checker \<Rightarrow> unit verified" where
  "VerifyScript sig_script pub_script witness flags chk =
     (let e = \<lparr> ev_flags = flags, ev_checker = chk, ev_sigversion = SIGVERSION_BASE \<rparr> in
      if flag_set flags SCRIPT_VERIFY_SIGPUSHONLY \<and> \<not> IsPushOnly sig_script
      then Inl (Some SCRIPT_ERR_SIG_PUSHONLY)
      else sbind (lift_error (EvalScript e [] sig_script)) (\<lambda>stackCopy.
           sbind (lift_error (EvalScript e stackCopy pub_script)) (\<lambda>stack.
           if stack = [] then Inl (Some SCRIPT_ERR_EVAL_FALSE)
           else if \<not> CastToBool (hd stack) then Inl (Some SCRIPT_ERR_EVAL_FALSE)
           else sbind (verify_bare_witness sig_script pub_script witness flags chk stack) (\<lambda>(had, stack1).
                sbind (verify_p2sh sig_script pub_script witness flags chk stackCopy had stack1) (\<lambda>(had2, stack2).
                verify_final witness flags had2 stack2)))))"

section \<open>Checking an input of a transaction\<close>

definition tx_CheckSig ::
  "(bytes \<Rightarrow> 'pk option) \<Rightarrow> (ecdsa_signature \<Rightarrow> uint256 \<Rightarrow> 'pk \<Rightarrow> bool) \<Rightarrow>
     CTransaction \<Rightarrow> nat \<Rightarrow> CAmount \<Rightarrow> PrecomputedTransactionData option \<Rightarrow>
     bytes \<Rightarrow> bytes \<Rightarrow> bytes \<Rightarrow> SigVersion \<Rightarrow> bool" where
  "tx_CheckSig pubkey_parse ecdsa_verify txTo nIn amount txdata vchSigIn vchPubKey scriptCode sigversion =
     (let pubkey = CPubKey_Set (replicate 65 0) vchPubKey
      in if \<not> CPubKey_IsValid pubkey then False
         else if vchSigIn = [] then False
         else let nHashType = ucast (last vchSigIn); vchSig = butlast vchSigIn;
                  sighash = SignatureHash scriptCode txTo nIn nHashType amount sigversion txdata
              in CPubKey_Verify pubkey_parse ecdsa_verify pubkey sighash vchSig)"

definition tx_CheckLockTime :: "CTransaction \<Rightarrow> nat \<Rightarrow> int \<Rightarrow> bool" where
  "tx_CheckLockTime txTo nIn nLock =
     (let txLock = uint (nLockTime txTo)
      in if \<not> ((txLock < LOCKTIME_THRESHOLD \<and> nLock < LOCKTIME_THRESHOLD) \<or>
               (txLock \<ge> LOCKTIME_THRESHOLD \<and> nLock \<ge> LOCKTIME_THRESHOLD))
         then False
         else if nLock > txLock then False
         else if SEQUENCE_FINAL = nSequence (vin txTo ! nIn) then False
         else True)"

definition tx_CheckSequence :: "CTransaction \<Rightarrow> nat \<Rightarrow> int \<Rightarrow> bool" where
  "tx_CheckSequence txTo nIn nSeq =
     (let txToSequence = uint (nSequence (vin txTo ! nIn))
      in if nVersion txTo < 2 then False
         else if txToSequence AND uint SEQUENCE_LOCKTIME_DISABLE_FLAG \<noteq> 0 then False
         else let nLockTimeMask = uint (SEQUENCE_LOCKTIME_TYPE_FLAG OR SEQUENCE_LOCKTIME_MASK);
                  txToSequenceMasked = txToSequence AND nLockTimeMask;
                  nSequenceMasked = nSeq AND nLockTimeMask;
                  typ = uint SEQUENCE_LOCKTIME_TYPE_FLAG
              in if \<not> ((txToSequenceMasked < typ \<and> nSequenceMasked < typ) \<or>
                       (txToSequenceMasked \<ge> typ \<and> nSequenceMasked \<ge> typ))
                 then False
                 else \<not> nSequenceMasked > txToSequenceMasked)"

definition TransactionSignatureChecker ::
  "(bytes \<Rightarrow> 'pk option) \<Rightarrow> (ecdsa_signature \<Rightarrow> uint256 \<Rightarrow> 'pk \<Rightarrow> bool) \<Rightarrow>
     CTransaction \<Rightarrow> nat \<Rightarrow> CAmount \<Rightarrow> PrecomputedTransactionData option \<Rightarrow> checker" where
  "TransactionSignatureChecker pubkey_parse ecdsa_verify txTo nIn amount txdata =
     \<lparr> CheckSig = tx_CheckSig pubkey_parse ecdsa_verify txTo nIn amount txdata,
       CheckLockTime = tx_CheckLockTime txTo nIn,
       CheckSequence = tx_CheckSequence txTo nIn \<rparr>"

section \<open>Witness signature operations\<close>

definition WitnessSigOps :: "int \<Rightarrow> bytes \<Rightarrow> bytes list \<Rightarrow> nat" where
  "WitnessSigOps witversion witprogram witness =
     (if witversion = 0
      then if length witprogram = 20 then 1
           else if length witprogram = 32 \<and> length witness > 0 then GetSigOpCount (last witness) True
           else 0
      else 0)"

lemma GetOp2_consumes: "pc \<noteq> [] \<Longrightarrow> GetOp2 pc = (ok, opcode, vch, pc') \<Longrightarrow> length pc' < length pc"
  by (auto simp: GetOp2_def getop_operand_def split: list.splits if_splits)

text \<open>The loop \<open>while (pc < scriptSig.end()) scriptSig.GetOp(pc, opcode, data)\<close>.\<close>

function last_data :: "bytes \<Rightarrow> bytes \<Rightarrow> bytes" where
  "last_data dat pc =
     (if pc = [] then dat else case GetOp2 pc of (ok, opcode, vch, pc') \<Rightarrow> last_data vch pc')"
  by pat_completeness auto
termination
  by (relation "measure (\<lambda>(dat, pc). length pc)") (auto dest: GetOp2_consumes [OF _ sym])

declare last_data.simps [simp del]

text \<open>\<open>None\<close> is the failed assertion that \<open>WITNESS\<close> comes with \<open>P2SH\<close>.\<close>

definition CountWitnessSigOps :: "bytes \<Rightarrow> bytes \<Rightarrow> bytes list \<Rightarrow> u32 \<Rightarrow> nat option" where
  "CountWitnessSigOps sig_script pub_script witness flags =
     (if \<not> flag_set flags SCRIPT_VERIFY_WITNESS then Some 0
      else if \<not> flag_set flags SCRIPT_VERIFY_P2SH then None
      else case IsWitnessProgram pub_script of
             Some (witnessversion, witnessprogram) \<Rightarrow> Some (WitnessSigOps witnessversion witnessprogram witness)
           | None \<Rightarrow>
               if IsPayToScriptHash pub_script \<and> IsPushOnly sig_script
               then case IsWitnessProgram (last_data [] sig_script) of
                      Some (witnessversion, witnessprogram) \<Rightarrow>
                        Some (WitnessSigOps witnessversion witnessprogram witness)
                    | None \<Rightarrow> Some 0
               else Some 0)"

section \<open>Evaluating an instruction at a time\<close>

lemma eval_loop_Nil [simp]: "eval_loop e [] s = Inr s"
  by (simp add: eval_loop.simps)

lemma eval_loop_GetOp2:
  "GetOp2 pc = (True, opcode, vch, pc') \<Longrightarrow>
     eval_loop e pc s = (case eval_instr e opcode vch pc' s of Inl err \<Rightarrow> Inl err | Inr s' \<Rightarrow> eval_loop e pc' s')"
  by (subst eval_loop.simps) (auto simp: GetOp2_def)

lemma eval_loop_opcode:
  assumes "opcode > OP_16" "\<not> disabled_opcode opcode" "executing s" "st_nOpCount s < MAX_OPS_PER_SCRIPT"
  shows "eval_loop e (opcode # pc) s =
    sbind (exec_opcode e opcode pc True (s\<lparr> st_nOpCount := st_nOpCount s + 1 \<rparr>)) (\<lambda>s2.
      if length (st_stack s2) + length (st_altstack s2) > MAX_STACK_SIZE then Inl SCRIPT_ERR_STACK_SIZE
      else eval_loop e pc s2)"
proof -
  have high: "\<not> opcode \<le> OP_PUSHDATA4" using assms(1) by (simp add: word_less_nat_alt word_le_nat_alt)
  then have op: "GetOp2 (opcode # pc) = (True, opcode, [], pc)" by (simp add: GetOp2_def)
  have "eval_instr e opcode [] pc s =
    sbind (exec_opcode e opcode pc True (s\<lparr> st_nOpCount := st_nOpCount s + 1 \<rparr>)) (\<lambda>s2.
      if length (st_stack s2) + length (st_altstack s2) > MAX_STACK_SIZE then Inl SCRIPT_ERR_STACK_SIZE
      else Inr s2)"
    using assms high unfolding eval_instr_def Let_def
    by (simp add: MAX_SCRIPT_ELEMENT_SIZE_def)
  then show ?thesis
    by (cases "exec_opcode e opcode pc True (s\<lparr> st_nOpCount := st_nOpCount s + 1 \<rparr>)")
       (simp_all add: eval_loop_GetOp2 [OF op])
qed

lemma eval_loop_push:
  assumes "length x \<le> MAX_SCRIPT_ELEMENT_SIZE" "executing s" "\<not> ev_flag e SCRIPT_VERIFY_MINIMALDATA"
    and "length (st_stack s) + length (st_altstack s) < MAX_STACK_SIZE"
  shows "eval_loop e (push_data [] x @ pc) s = eval_loop e pc (s\<lparr> st_stack := x # st_stack s \<rparr>)"
proof -
  have "length x < 2 ^ 32" using assms(1) by (simp add: MAX_SCRIPT_ELEMENT_SIZE_def)
  then obtain opcode where small: "opcode \<le> OP_PUSHDATA4"
    and op: "GetOp2 (push_data [] x @ pc) = (True, opcode, x, pc)"
    using GetOp2_push_data by blast
  have "\<not> opcode > OP_16" using small by (simp add: word_le_nat_alt word_less_nat_alt)
  moreover have "\<not> disabled_opcode opcode"
    using small by (auto simp: disabled_opcode_def word_le_nat_alt)
  ultimately have "eval_instr e opcode x pc s = Inr (s\<lparr> st_stack := x # st_stack s \<rparr>)"
    using assms small unfolding eval_instr_def Let_def by simp
  then show ?thesis by (simp add: eval_loop_GetOp2 [OF op])
qed

section \<open>No assertion fails\<close>

text \<open>The combinations of flags the code's assertions allow.\<close>

definition valid_flags :: "u32 \<Rightarrow> bool" where
  "valid_flags flags \<longleftrightarrow>
     (flag_set flags SCRIPT_VERIFY_CLEANSTACK \<longrightarrow>
        flag_set flags SCRIPT_VERIFY_P2SH \<and> flag_set flags SCRIPT_VERIFY_WITNESS) \<and>
     (flag_set flags SCRIPT_VERIFY_WITNESS \<longrightarrow> flag_set flags SCRIPT_VERIFY_P2SH)"

lemma lift_error_eq [simp]:
  "lift_error r = Inr x \<longleftrightarrow> r = Inr x" "lift_error r \<noteq> Inl None"
  "lift_error (Inr x) = Inr x" "lift_error (Inl err) = Inl (Some err)"
  by (simp_all add: lift_error_def split: sum.split)

lemma sbind_eq_Inl: "sbind m f = Inl e \<longleftrightarrow> m = Inl e \<or> (\<exists>x. m = Inr x \<and> f x = Inl e)"
  by (cases m) simp_all

lemma p2sh_needs_stack:
  assumes "IsPayToScriptHash script"
  shows "\<exists>err. EvalScript e [] script = Inl err"
proof -
  from assms obtain rest where script: "script = OP_HASH160 # rest"
    by (cases script) (simp_all add: IsPayToScriptHash_def)
  have "eval_loop e script (initial_state [] script) = Inl SCRIPT_ERR_INVALID_STACK_OPERATION"
    unfolding script
    by (subst eval_loop_opcode)
       (simp_all add: disabled_opcode_def executing_def initial_state_def MAX_OPS_PER_SCRIPT_def
          exec_opcode_def op_digest_def)
  then show ?thesis by (auto simp: EvalScript_def)
qed

text \<open>
  C31: under the combinations of flags they allow, no assertion of \<open>VerifyScript\<close> can fail: not the ones
  on the flags, and not the one that a pay-to-script-hash output leaves a script on the stack.
\<close>

theorem VerifyScript_no_abort:
  assumes "valid_flags flags"
  shows "VerifyScript sig_script pub_script witness flags chk \<noteq> Inl None"
proof -
  let ?e = "\<lparr> ev_flags = flags, ev_checker = chk, ev_sigversion = SIGVERSION_BASE \<rparr>"
  have "verify_bare_witness sig_script pub_script witness flags chk stack \<noteq> Inl None" for stack
    by (auto simp: verify_bare_witness_def sbind_eq_Inl split: option.splits if_splits)
  moreover have "verify_final witness flags had stack \<noteq> Inl None" for had stack
    using assms by (auto simp: verify_final_def valid_flags_def split: if_splits)
  moreover have "verify_p2sh sig_script pub_script witness flags chk stackCopy had stack1 \<noteq> Inl None"
    if "EvalScript ?e stackCopy pub_script = Inr stack" for stackCopy stack had stack1
  proof -
    have "stackCopy \<noteq> []" if "IsPayToScriptHash pub_script"
      using p2sh_needs_stack [OF that, of ?e] \<open>EvalScript ?e stackCopy pub_script = Inr stack\<close> by auto
    then show ?thesis
      by (auto simp: verify_p2sh_def Let_def sbind_eq_Inl split: option.splits if_splits)
  qed
  ultimately show ?thesis
    by (auto simp: VerifyScript_def Let_def sbind_eq_Inl split: if_splits prod.splits)
qed

theorem VerifyScript_no_abort_witness:
  "VerifyScript [] [0x51] [] (SCRIPT_VERIFY_P2SH OR SCRIPT_VERIFY_WITNESS OR SCRIPT_VERIFY_CLEANSTACK)
     BaseSignatureChecker \<noteq> Inl None"
  by (rule VerifyScript_no_abort) (simp add: valid_flags_def flag_set_def)

section \<open>More flags accept less\<close>

lemma VerifyWitnessProgram_keeps:
  assumes "flags AND flags' = flags" "\<not> flag_set flags SCRIPT_VERIFY_DISCOURAGE_UPGRADABLE_NOPS"
  shows "keeps (VerifyWitnessProgram witness v program flags chk) (VerifyWitnessProgram witness v program flags' chk)"
proof -
  let ?e = "\<lambda>f. \<lparr> ev_flags = f, ev_checker = chk, ev_sigversion = SIGVERSION_WITNESS_V0 \<rparr>"
  have "stricter (?e flags) (?e flags')" using assms by (simp add: stricter_def)
  note eval = EvalScript_softfork [OF this]
  show ?thesis
    using flag_set_mono [OF assms(1), of SCRIPT_VERIFY_DISCOURAGE_UPGRADABLE_WITNESS_PROGRAM]
    by (auto simp: keeps_def VerifyWitnessProgram_def sbind_eq_Inr dest!: eval split: if_splits prod.splits)
qed

lemma verify_bare_witness_keeps:
  assumes "flags AND flags' = flags" "\<not> flag_set flags SCRIPT_VERIFY_DISCOURAGE_UPGRADABLE_NOPS"
    and "verify_bare_witness sig pub witness flags' chk stack = Inr r"
  obtains r' where "verify_bare_witness sig pub witness flags chk stack = Inr r'"
    and "flag_set flags SCRIPT_VERIFY_WITNESS \<longrightarrow> r' = r"
proof (cases "flag_set flags SCRIPT_VERIFY_WITNESS")
  case True
  note prog = VerifyWitnessProgram_keeps [OF assms(1,2), unfolded keeps_def]
  have "verify_bare_witness sig pub witness flags chk stack = Inr r"
    using assms(3) flag_set_mono [OF assms(1) True] True prog
    by (auto simp: verify_bare_witness_def sbind_eq_Inr split: option.splits if_splits)
  then show ?thesis by (rule that) simp
next
  case False
  then show ?thesis by (intro that [of "(False, stack)"]) (auto simp: verify_bare_witness_def)
qed

lemma verify_p2sh_keeps:
  assumes "flags AND flags' = flags" "\<not> flag_set flags SCRIPT_VERIFY_DISCOURAGE_UPGRADABLE_NOPS"
    and "valid_flags flags" "flag_set flags SCRIPT_VERIFY_WITNESS \<longrightarrow> had0 = had \<and> stack0 = stack"
    and "verify_p2sh sig pub witness flags' chk stackCopy had stack = Inr r"
  obtains r' where "verify_p2sh sig pub witness flags chk stackCopy had0 stack0 = Inr r'"
    and "flag_set flags SCRIPT_VERIFY_WITNESS \<longrightarrow> r' = r"
proof (cases "flag_set flags SCRIPT_VERIFY_P2SH")
  case True
  let ?e = "\<lambda>f. \<lparr> ev_flags = f, ev_checker = chk, ev_sigversion = SIGVERSION_BASE \<rparr>"
  have "stricter (?e flags) (?e flags')" using assms(1,2) by (simp add: stricter_def)
  note eval = EvalScript_softfork [OF this]
  note prog = VerifyWitnessProgram_keeps [OF assms(1,2), unfolded keeps_def]
  note mono = flag_set_mono [OF assms(1) True] flag_set_mono [OF assms(1), of SCRIPT_VERIFY_WITNESS]
  have "\<exists>r'. verify_p2sh sig pub witness flags chk stackCopy had0 stack0 = Inr r'
      \<and> (flag_set flags SCRIPT_VERIFY_WITNESS \<longrightarrow> r' = r)"
  proof (cases "IsPayToScriptHash pub")
    case False
    with assms(4,5) show ?thesis by (auto simp: verify_p2sh_def)
  next
    case psh: True
    from assms(5) mono(1) psh obtain stack2 where push: "IsPushOnly sig" "stackCopy \<noteq> []"
      and run: "EvalScript (?e flags') (tl stackCopy) (hd stackCopy) = Inr stack2"
      and top: "stack2 \<noteq> []" "CastToBool (hd stack2)"
      and rest: "(if flag_set flags' SCRIPT_VERIFY_WITNESS
             then case IsWitnessProgram (hd stackCopy) of
                    None \<Rightarrow> Inr (had, stack2)
                  | Some (witnessversion, witnessprogram) \<Rightarrow>
                      if sig \<noteq> push_data [] (hd stackCopy) then Inl (Some SCRIPT_ERR_WITNESS_MALLEATED_P2SH)
                      else sbind (lift_error (VerifyWitnessProgram witness witnessversion witnessprogram flags' chk))
                             (\<lambda>_. Inr (True, [last stack2]))
             else Inr (had, stack2)) = Inr r"
      unfolding verify_p2sh_def Let_def sbind_eq_Inr by (auto simp: sbind_eq_Inr split: if_splits)
    note facts = True psh push eval [OF run] top
    show ?thesis
    proof (cases "flag_set flags SCRIPT_VERIFY_WITNESS")
      case wit: True
      have "verify_p2sh sig pub witness flags chk stackCopy had0 stack0 = Inr r"
        using facts wit rest mono(2) [OF wit] assms(4) prog
        by (auto simp: verify_p2sh_def Let_def sbind_eq_Inr split: option.splits if_splits)
      then show ?thesis by blast
    next
      case False
      with facts show ?thesis by (simp add: verify_p2sh_def Let_def)
    qed
  qed
  then show ?thesis using that by blast
next
  case False
  then have "\<not> flag_set flags SCRIPT_VERIFY_WITNESS" using assms(3) by (auto simp: valid_flags_def)
  with False show ?thesis by (intro that [of "(had0, stack0)"]) (auto simp: verify_p2sh_def)
qed

lemma verify_final_keeps:
  assumes "flags AND flags' = flags" "valid_flags flags"
    and "flag_set flags SCRIPT_VERIFY_WITNESS \<longrightarrow> had0 = had \<and> stack0 = stack"
    and "verify_final witness flags' had stack = Inr ()"
  shows "verify_final witness flags had0 stack0 = Inr ()"
  using assms(2-4) flag_set_mono [OF assms(1), of SCRIPT_VERIFY_WITNESS]
    flag_set_mono [OF assms(1), of SCRIPT_VERIFY_CLEANSTACK]
  by (auto simp: verify_final_def valid_flags_def simp del: SCRIPT_VERIFY_WITNESS_def
      SCRIPT_VERIFY_CLEANSTACK_def SCRIPT_VERIFY_P2SH_def split: if_splits)

text \<open>
  C28: every verification flag is a soft fork: an input that verifies under some flags verifies under
  any allowed subset of them. The one flag this does not hold for is \<open>DISCOURAGE_UPGRADABLE_NOPS\<close>, which
  a rule that gives such an instruction a meaning takes precedence over.
\<close>

theorem VerifyScript_softfork:
  assumes "flags AND flags' = flags" "\<not> flag_set flags SCRIPT_VERIFY_DISCOURAGE_UPGRADABLE_NOPS"
    and "valid_flags flags" "VerifyScript sig_script pub_script witness flags' chk = Inr ()"
  shows "VerifyScript sig_script pub_script witness flags chk = Inr ()"
proof -
  let ?e = "\<lambda>f. \<lparr> ev_flags = f, ev_checker = chk, ev_sigversion = SIGVERSION_BASE \<rparr>"
  from assms(4) obtain stackCopy stack had1 stack1 had2 stack2
    where push: "flag_set flags' SCRIPT_VERIFY_SIGPUSHONLY \<longrightarrow> IsPushOnly sig_script"
      and e1: "EvalScript (?e flags') [] sig_script = Inr stackCopy"
      and e2: "EvalScript (?e flags') stackCopy pub_script = Inr stack"
      and top: "stack \<noteq> []" "CastToBool (hd stack)"
      and bare: "verify_bare_witness sig_script pub_script witness flags' chk stack = Inr (had1, stack1)"
      and p2sh: "verify_p2sh sig_script pub_script witness flags' chk stackCopy had1 stack1 = Inr (had2, stack2)"
      and fin: "verify_final witness flags' had2 stack2 = Inr ()"
    by (auto simp: VerifyScript_def Let_def sbind_eq_Inr split: if_splits prod.splits)
  have "stricter (?e flags) (?e flags')" using assms(1,2) by (simp add: stricter_def)
  note eval = EvalScript_softfork [OF this e1] EvalScript_softfork [OF this e2]
  obtain had1' stack1' where bare': "verify_bare_witness sig_script pub_script witness flags chk stack = Inr (had1', stack1')"
    and eq1: "flag_set flags SCRIPT_VERIFY_WITNESS \<longrightarrow> had1' = had1 \<and> stack1' = stack1"
    by (rule verify_bare_witness_keeps [OF assms(1,2) bare]) auto
  obtain had2' stack2' where p2sh': "verify_p2sh sig_script pub_script witness flags chk stackCopy had1' stack1' = Inr (had2', stack2')"
    and eq2: "flag_set flags SCRIPT_VERIFY_WITNESS \<longrightarrow> had2' = had2 \<and> stack2' = stack2"
    by (rule verify_p2sh_keeps [OF assms(1-3) eq1 p2sh]) auto
  have "verify_final witness flags had2' stack2' = Inr ()"
    by (rule verify_final_keeps [OF assms(1,3) eq2 fin])
  moreover have "flag_set flags SCRIPT_VERIFY_SIGPUSHONLY \<longrightarrow> IsPushOnly sig_script"
    using push flag_set_mono [OF assms(1), of SCRIPT_VERIFY_SIGPUSHONLY] by blast
  ultimately show ?thesis
    using eval top bare' p2sh' by (simp add: VerifyScript_def Let_def)
qed

theorem VerifyScript_softfork_witness:
  "VerifyScript [0x52] [0x52, 0x87] [] 0 BaseSignatureChecker = Inr ()"
proof -
  have "VerifyScript [0x52] [0x52, 0x87] [] (SCRIPT_VERIFY_P2SH OR SCRIPT_VERIFY_WITNESS OR SCRIPT_VERIFY_CLEANSTACK)
      BaseSignatureChecker = Inr ()"
    by code_simp
  from VerifyScript_softfork [OF _ _ _ this, of 0] show ?thesis by (simp add: flag_set_def valid_flags_def)
qed

section \<open>Multiple signatures\<close>

definition signed_by :: "eval_env \<Rightarrow> bytes \<Rightarrow> bytes \<Rightarrow> bytes \<Rightarrow> bool" where
  "signed_by e code sig key = CheckSig (ev_checker e) sig key code (ev_sigversion e)"

text \<open>The signatures can be matched, in order, with some of the keys.\<close>

definition matchable :: "eval_env \<Rightarrow> bytes \<Rightarrow> bytes list \<Rightarrow> bytes list \<Rightarrow> bool" where
  "matchable e code sigs keys \<longleftrightarrow> (\<exists>ks. subseq ks keys \<and> list_all2 (signed_by e code) sigs ks)"

lemma matchable_Nil [simp]: "matchable e code [] keys"
  by (simp add: matchable_def)

lemma matchable_length: "matchable e code sigs keys \<Longrightarrow> length sigs \<le> length keys"
  by (auto simp: matchable_def dest!: list_all2_lengthD list_emb_length)

lemma matchable_hit:
  assumes "signed_by e code sig key"
  shows "matchable e code (sig # sigs) (key # keys) \<longleftrightarrow> matchable e code sigs keys"
proof
  assume "matchable e code (sig # sigs) (key # keys)"
  then obtain k ks where "subseq (k # ks) (key # keys)" "list_all2 (signed_by e code) sigs ks"
    by (auto simp: matchable_def list_all2_Cons1)
  then show "matchable e code sigs keys"
    by (auto simp: matchable_def split: if_splits dest: subseq_Cons')
next
  assume "matchable e code sigs keys"
  then obtain ks where "subseq ks keys" "list_all2 (signed_by e code) sigs ks" by (auto simp: matchable_def)
  then have "subseq (key # ks) (key # keys)" "list_all2 (signed_by e code) (sig # sigs) (key # ks)"
    using assms by simp_all
  then show "matchable e code (sig # sigs) (key # keys)" unfolding matchable_def by blast
qed

lemma matchable_miss:
  assumes "\<not> signed_by e code sig key"
  shows "matchable e code (sig # sigs) (key # keys) \<longleftrightarrow> matchable e code (sig # sigs) keys"
  using assms by (auto simp: matchable_def list_all2_Cons1 split: if_splits)

lemma multisig_loop_eq:
  assumes "\<forall>sig \<in> set sigs. \<forall>key \<in> set keys. check_encodings e sig key = None"
    and "length sigs \<le> length keys"
  shows "multisig_loop e code sigs keys = Inr (matchable e code sigs keys)"
  using assms
proof (induction e code sigs keys rule: multisig_loop.induct)
  case (3 e code sig sigs key keys)
  define left where "left = (if signed_by e code sig key then sigs else sig # sigs)"
  have enc: "check_encodings e sig key = None" using "3.prems" by simp
  have eq: "matchable e code (sig # sigs) (key # keys) \<longleftrightarrow> matchable e code left keys"
    by (simp add: left_def matchable_hit matchable_miss)
  show ?case
  proof (cases "length left > length keys")
    case True
    then have "\<not> matchable e code left keys" using matchable_length by (fastforce simp: not_le)
    with True enc eq show ?thesis by (simp add: left_def signed_by_def)
  next
    case False
    then have "multisig_loop e code left keys = Inr (matchable e code left keys)"
      using "3.IH" [OF enc refl refl] "3.prems" by (auto simp: left_def signed_by_def)
    with False enc eq show ?thesis by (simp add: left_def signed_by_def)
  qed
qed auto

lemma multisig_cleanup_eq:
  "k \<le> n \<Longrightarrow> n \<le> length st \<Longrightarrow> multisig_cleanup e ok k n st =
     (if \<not> ok \<and> ev_flag e SCRIPT_VERIFY_NULLFAIL \<and> (\<exists>x \<in> set (take (n - k) (drop k st)). x \<noteq> [])
      then Inl SCRIPT_ERR_SIG_NULLFAIL else Inr (drop n st))"
proof (induction n arbitrary: k st)
  case (Suc n)
  then obtain x st' where st: "st = x # st'" by (cases st) auto
  show ?case using Suc by (cases k) (auto simp: st)
qed simp



section \<open>Pay to public key hash\<close>

lemma p2pkh_script_eq:
  "p2pkh_script h = OP_DUP # OP_HASH160 # push_data [] h @ [OP_EQUALVERIFY, OP_CHECKSIG]"
  by (simp add: p2pkh_script_def push_opcode_def push_data_def)

lemma CastToBool_script_bool [simp]: "CastToBool (script_bool b) = b"
  by (cases b) (simp_all add: script_bool_def, (code_simp | simp)+)

lemma eval_p2pkh:
  assumes "length h = 20" "length st < 900" "\<not> ev_flag e SCRIPT_VERIFY_MINIMALDATA"
  shows "EvalScript e (key # sig # st) (p2pkh_script h) =
    (if ripemd160_digest (fips_sha256 key) \<noteq> h then Inl SCRIPT_ERR_EQUALVERIFY
     else case check_encodings e sig key of
            Some err \<Rightarrow> Inl err
          | None \<Rightarrow>
              let ok = CheckSig (ev_checker e) sig key (drop_signature e (p2pkh_script h) sig) (ev_sigversion e)
              in if \<not> ok \<and> ev_flag e SCRIPT_VERIFY_NULLFAIL \<and> sig \<noteq> [] then Inl SCRIPT_ERR_SIG_NULLFAIL
                 else Inr (script_bool ok # st))"
proof -
  define s where "s n stack = (initial_state stack (p2pkh_script h))\<lparr> st_nOpCount := n \<rparr>" for n stack
  have run: "executing (s n stack)" "st_nOpCount (s n stack) = n" "st_stack (s n stack) = stack"
    "st_altstack (s n stack) = []" "st_vfExec (s n stack) = []" "st_codehash (s n stack) = p2pkh_script h"
    "(s n stack)\<lparr> st_nOpCount := n' \<rparr> = s n' stack" "(s n stack)\<lparr> st_stack := stack' \<rparr> = s n stack'"
    for n n' stack stack'
    by (simp_all add: s_def initial_state_def executing_def)
  have step: "eval_loop e (opcode # pc) (s n stack) = sbind (exec_opcode e opcode pc True (s (n + 1) stack)) (\<lambda>s2.
      if length (st_stack s2) + length (st_altstack s2) > MAX_STACK_SIZE then Inl SCRIPT_ERR_STACK_SIZE
      else eval_loop e pc s2)"
    if "opcode > OP_16" "\<not> disabled_opcode opcode" "n < 10" for opcode pc n stack
    using eval_loop_opcode [of opcode "s n stack" e pc] that by (simp add: run MAX_OPS_PER_SCRIPT_def)
  have push: "eval_loop e (push_data [] h @ pc) (s n stack) = eval_loop e pc (s n (h # stack))"
    if "length stack < 910" for n stack pc
    using eval_loop_push [of h "s n stack" e pc] assms that
    by (simp add: run MAX_SCRIPT_ELEMENT_SIZE_def MAX_STACK_SIZE_def)
  have "length (p2pkh_script h) \<le> MAX_SCRIPT_SIZE"
    using assms(1) by (simp add: p2pkh_script_eq push_data_def MAX_SCRIPT_SIZE_def)
  moreover have "initial_state (key # sig # st) (p2pkh_script h) = s 0 (key # sig # st)"
    by (simp add: s_def initial_state_def)
  moreover have "eval_loop e (p2pkh_script h) (s 0 (key # sig # st)) =
      (if ripemd160_digest (fips_sha256 key) \<noteq> h then Inl SCRIPT_ERR_EQUALVERIFY
       else sbind (op_checksig e OP_CHECKSIG (s 4 (key # sig # st))) (\<lambda>s2.
              if length (st_stack s2) + length (st_altstack s2) > MAX_STACK_SIZE then Inl SCRIPT_ERR_STACK_SIZE
              else Inr s2))"
    using assms(2) script_hash_eq(4) [of key] unfolding p2pkh_script_eq [of h]
    by (simp add: step push run disabled_opcode_def exec_opcode_def op_dup_def op_digest_def op_equal_def MAX_STACK_SIZE_def
        cong del: if_weak_cong)
  ultimately show ?thesis
    using assms(2)
    by (auto simp: EvalScript_def op_checksig_def run MAX_STACK_SIZE_def Let_def
        split: option.split)
qed


lemma EvalScript_two_pushes:
  assumes "length sig \<le> 520" "length key \<le> 520" "\<not> ev_flag e SCRIPT_VERIFY_MINIMALDATA"
  shows "EvalScript e [] (push_data (push_data [] sig) key) = Inr [key, sig]"
proof -
  have eq: "push_data (push_data [] sig) key = push_data [] sig @ push_data [] key @ []"
    by (simp add: push_data_def)
  have "length (push_data (push_data [] sig) key) \<le> MAX_SCRIPT_SIZE"
    using assms(1,2) by (simp add: push_data_def MAX_SCRIPT_SIZE_def)
  then show ?thesis
    using assms unfolding EvalScript_def
    by (simp add: eq eval_loop_push eval_loop_push [where pc = "[]", simplified] MAX_SCRIPT_ELEMENT_SIZE_def MAX_STACK_SIZE_def initial_state_def executing_def)
qed



end
