(* ===== verification/TxVerify.thy ===== *)
theory TxVerify
  imports CoinsUpdate ScriptVerify
begin

text \<open>
  Checks on transactions (\<open>consensus/tx_verify.cpp\<close>) and what they say of the money in the unspent
  outputs. A rejection is its degree of misbehaviour and its reason.
\<close>

section \<open>Checks without context\<close>

definition COINBASE_MATURITY :: int where "COINBASE_MATURITY = 100"

datatype tx_reject = Reject int string

text \<open>The check that fails, if any, of \<open>nValueOut\<close> over the outputs.\<close>

fun check_outputs :: "CAmount \<Rightarrow> CTxOut list \<Rightarrow> tx_reject option" where
  "check_outputs nValueOut [] = None"
| "check_outputs nValueOut (txout # outs) =
     (if nValue txout < 0 then Some (Reject 100 ''bad-txns-vout-negative'')
      else if nValue txout > MAX_MONEY then Some (Reject 100 ''bad-txns-vout-toolarge'')
      else let nValueOut' = wrap64 (nValueOut + nValue txout)
           in if \<not> MoneyRange nValueOut' then Some (Reject 100 ''bad-txns-txouttotal-toolarge'')
              else check_outputs nValueOut' outs)"

fun has_duplicate :: "COutPoint list \<Rightarrow> CTxIn list \<Rightarrow> bool" where
  "has_duplicate vInOutPoints [] = False"
| "has_duplicate vInOutPoints (txin # ins) =
     (prevout txin \<in> set vInOutPoints \<or> has_duplicate (prevout txin # vInOutPoints) ins)"

text \<open>The size without witnesses; a transaction whose extension data cannot be written does not exist.\<close>

definition GetSerializeSize :: "CTransaction \<Rightarrow> nat" where
  "GetSerializeSize tx = (case SerializeTransaction False tx of Inr bs \<Rightarrow> length bs | Inl _ \<Rightarrow> 0)"

definition CheckTransaction :: "CTransaction \<Rightarrow> bool \<Rightarrow> tx_reject option" where
  "CheckTransaction tx fCheckDuplicateInputs =
     (if vin tx = [] then Some (Reject 10 ''bad-txns-vin-empty'')
      else if vout tx = [] then Some (Reject 10 ''bad-txns-vout-empty'')
      else if GetSerializeSize tx * WITNESS_SCALE_FACTOR > MAX_BLOCK_WEIGHT then Some (Reject 100 ''bad-txns-oversize'')
      else case check_outputs 0 (vout tx) of
        Some r \<Rightarrow> Some r
      | None \<Rightarrow>
          if fCheckDuplicateInputs \<and> has_duplicate [] (vin tx) then Some (Reject 100 ''bad-txns-inputs-duplicate'')
          else if IsCoinBase tx
          then if length (scriptSig (vin tx ! 0)) < 2 \<or> length (scriptSig (vin tx ! 0)) > 100
               then Some (Reject 100 ''bad-cb-length'') else None
          else if list_ex (\<lambda>txin. COutPoint_IsNull (prevout txin)) (vin tx)
               then Some (Reject 10 ''bad-txns-prevout-null'') else None)"

definition IsFinalTx :: "CTransaction \<Rightarrow> int \<Rightarrow> int \<Rightarrow> bool" where
  "IsFinalTx tx nBlockHeight nBlockTime =
     (let lock = uint (nLockTime tx)
      in if lock = 0 then True
         else if lock < (if lock < LOCKTIME_THRESHOLD then nBlockHeight else nBlockTime) then True
         else list_all (\<lambda>txin. nSequence txin = SEQUENCE_FINAL) (vin tx))"

text \<open>
  Relative locks: the loop over the inputs and the heights of the coins they spend. The median time past
  of the ancestor at a height is an argument.
\<close>

definition LOCKTIME_VERIFY_SEQUENCE :: u32 where "LOCKTIME_VERIFY_SEQUENCE = 1"

fun sequence_locks :: "(int \<Rightarrow> int) \<Rightarrow> int \<times> int \<Rightarrow> CTxIn list \<Rightarrow> int list \<Rightarrow> (int \<times> int) \<times> int list" where
  "sequence_locks mtp (nMinHeight, nMinTime) (txin # ins) (nCoinHeight # heights) =
     (if nSequence txin AND SEQUENCE_LOCKTIME_DISABLE_FLAG \<noteq> 0
      then case sequence_locks mtp (nMinHeight, nMinTime) ins heights of (r, hs) \<Rightarrow> (r, 0 # hs)
      else let masked = uint (nSequence txin AND SEQUENCE_LOCKTIME_MASK);
               bound = (if nSequence txin AND SEQUENCE_LOCKTIME_TYPE_FLAG \<noteq> 0
                  then (nMinHeight, max nMinTime (mtp (max (nCoinHeight - 1) 0) +
                          uint (push_bit SEQUENCE_LOCKTIME_GRANULARITY (nSequence txin AND SEQUENCE_LOCKTIME_MASK)) - 1))
                  else (max nMinHeight (nCoinHeight + masked - 1), nMinTime))
           in case sequence_locks mtp bound ins heights of (r, hs) \<Rightarrow> (r, nCoinHeight # hs))"
| "sequence_locks mtp b _ heights = (b, heights)"

text \<open>The pair of locks and the heights as they are left; \<open>None\<close> if the assertion on their number fails.\<close>

definition CalculateSequenceLocks ::
  "(int \<Rightarrow> int) \<Rightarrow> CTransaction \<Rightarrow> u32 \<Rightarrow> int list \<Rightarrow> ((int \<times> int) \<times> int list) option" where
  "CalculateSequenceLocks mtp tx flags prevHeights =
     (if length prevHeights \<noteq> length (vin tx) then None
      else if \<not> (uint (nVersion tx) \<ge> 2 \<and> flags AND LOCKTIME_VERIFY_SEQUENCE \<noteq> 0)
      then Some ((- 1, - 1), prevHeights)
      else Some (sequence_locks mtp (- 1, - 1) (vin tx) prevHeights))"

definition EvaluateSequenceLocks :: "int \<Rightarrow> int \<Rightarrow> int \<times> int \<Rightarrow> bool" where
  "EvaluateSequenceLocks nHeight nBlockTime lockPair =
     (if fst lockPair \<ge> nHeight \<or> snd lockPair \<ge> nBlockTime then False else True)"

definition SequenceLocks :: "(int \<Rightarrow> int) \<Rightarrow> CTransaction \<Rightarrow> u32 \<Rightarrow> int list \<Rightarrow> int \<Rightarrow> int \<Rightarrow> bool option" where
  "SequenceLocks mtp tx flags prevHeights nHeight nBlockTime =
     map_option (\<lambda>(p, _). EvaluateSequenceLocks nHeight nBlockTime p) (CalculateSequenceLocks mtp tx flags prevHeights)"

definition GetLegacySigOpCount :: "CTransaction \<Rightarrow> nat" where
  "GetLegacySigOpCount tx =
     ((\<Sum>txin \<leftarrow> vin tx. GetSigOpCount (scriptSig txin) False) +
      (\<Sum>txout \<leftarrow> vout tx. GetSigOpCount (scriptPubKey txout) False)) mod 2 ^ 32"

section \<open>Checks against the unspent outputs\<close>

text \<open>The queries fill the cache, so each check returns it.\<close>

fun have_all :: "'b CCoinsView \<Rightarrow> CTxIn list \<Rightarrow> 'b CCoinsViewCache \<Rightarrow> bool \<times> 'b CCoinsViewCache" where
  "have_all ops [] c = (True, c)"
| "have_all ops (txin # ins) c =
     (case HaveCoin ops c (prevout txin) of (b, c') \<Rightarrow> if b then have_all ops ins c' else (False, c'))"

definition HaveInputs :: "'b CCoinsView \<Rightarrow> CTransaction \<Rightarrow> 'b CCoinsViewCache \<Rightarrow> bool \<times> 'b CCoinsViewCache" where
  "HaveInputs ops tx c = (if \<not> IsCoinBase tx then have_all ops (vin tx) c else (True, c))"

fun value_in_loop :: "'b CCoinsView \<Rightarrow> CAmount \<Rightarrow> CTxIn list \<Rightarrow> 'b CCoinsViewCache \<Rightarrow> CAmount \<times> 'b CCoinsViewCache" where
  "value_in_loop ops nResult [] c = (nResult, c)"
| "value_in_loop ops nResult (txin # ins) c =
     (case AccessCoin ops c (prevout txin) of (d, c') \<Rightarrow> value_in_loop ops (wrap64 (nResult + nValue (coin_out d))) ins c')"

definition GetValueIn :: "'b CCoinsView \<Rightarrow> CTransaction \<Rightarrow> 'b CCoinsViewCache \<Rightarrow> CAmount \<times> 'b CCoinsViewCache" where
  "GetValueIn ops tx c = (if IsCoinBase tx then (0, c) else value_in_loop ops 0 (vin tx) c)"

text \<open>The loop of \<open>CheckTxInputs\<close>: the total, or a rejection; the outer error is the assertion.\<close>

fun check_inputs ::
  "'b CCoinsView \<Rightarrow> int \<Rightarrow> CAmount \<Rightarrow> CTxIn list \<Rightarrow> 'b CCoinsViewCache
     \<Rightarrow> coins_error + ((tx_reject + CAmount) \<times> 'b CCoinsViewCache)" where
  "check_inputs ops nSpendHeight nValueIn [] c = Inr (Inr nValueIn, c)"
| "check_inputs ops nSpendHeight nValueIn (txin # ins) c =
     (case AccessCoin ops c (prevout txin) of (d, c') \<Rightarrow>
        if IsSpent d then Inl AssertionFailed
        else if fCoinBase d \<and> nSpendHeight - int (coin_nHeight d) < COINBASE_MATURITY
        then Inr (Inl (Reject 0 ''bad-txns-premature-spend-of-coinbase''), c')
        else let nValueIn' = wrap64 (nValueIn + nValue (coin_out d))
             in if \<not> MoneyRange (nValue (coin_out d)) \<or> \<not> MoneyRange nValueIn'
                then Inr (Inl (Reject 100 ''bad-txns-inputvalues-outofrange''), c')
                else check_inputs ops nSpendHeight nValueIn' ins c')"

text \<open>
  \<open>nSpendHeight - coin.nHeight\<close> is computed on \<open>int\<close>, which the 31-bit height is promoted to. An exception
  of \<open>GetValueOut\<close> is not caught here.
\<close>

definition CheckTxInputs ::
  "'b CCoinsView \<Rightarrow> CTransaction \<Rightarrow> int \<Rightarrow> 'b CCoinsViewCache \<Rightarrow> coins_error + (tx_reject option \<times> 'b CCoinsViewCache)" where
  "CheckTxInputs ops tx nSpendHeight c =
     (case HaveInputs ops tx c of (have_inputs, c1) \<Rightarrow>
        if \<not> have_inputs then Inr (Some (Reject 0 ''''), c1)
        else sbind (check_inputs ops nSpendHeight 0 (vin tx) c1) (\<lambda>(r, c2).
          case r of
            Inl reject \<Rightarrow> Inr (Some reject, c2)
          | Inr nValueIn \<Rightarrow>
              (case GetValueOut tx of
                 None \<Rightarrow> Inl LogicError
               | Some nValueOut \<Rightarrow>
                   if nValueIn < nValueOut then Inr (Some (Reject 100 ''bad-txns-in-belowout''), c2)
                   else let nTxFee = nValueIn - nValueOut
                        in if nTxFee < 0 then Inr (Some (Reject 100 ''bad-txns-fee-negative''), c2)
                           else if \<not> MoneyRange nTxFee then Inr (Some (Reject 100 ''bad-txns-fee-outofrange''), c2)
                           else Inr (None, c2))))"

fun p2sh_sigops ::
  "'b CCoinsView \<Rightarrow> nat \<Rightarrow> CTxIn list \<Rightarrow> 'b CCoinsViewCache \<Rightarrow> coins_error + (nat \<times> 'b CCoinsViewCache)" where
  "p2sh_sigops ops nSigOps [] c = Inr (nSigOps, c)"
| "p2sh_sigops ops nSigOps (txin # ins) c =
     (case AccessCoin ops c (prevout txin) of (d, c') \<Rightarrow>
        if IsSpent d then Inl AssertionFailed
        else p2sh_sigops ops
               (if IsPayToScriptHash (scriptPubKey (coin_out d))
                then (nSigOps + GetSigOpCount_P2SH (scriptPubKey (coin_out d)) (scriptSig txin)) mod 2 ^ 32 else nSigOps) ins c')"

definition GetP2SHSigOpCount ::
  "'b CCoinsView \<Rightarrow> CTransaction \<Rightarrow> 'b CCoinsViewCache \<Rightarrow> coins_error + (nat \<times> 'b CCoinsViewCache)" where
  "GetP2SHSigOpCount ops tx c = (if IsCoinBase tx then Inr (0, c) else p2sh_sigops ops 0 (vin tx) c)"

fun witness_sigops ::
  "'b CCoinsView \<Rightarrow> u32 \<Rightarrow> nat \<Rightarrow> CTxIn list \<Rightarrow> 'b CCoinsViewCache \<Rightarrow> coins_error + (nat \<times> 'b CCoinsViewCache)" where
  "witness_sigops ops flags nSigOps [] c = Inr (nSigOps, c)"
| "witness_sigops ops flags nSigOps (txin # ins) c =
     (case AccessCoin ops c (prevout txin) of (d, c') \<Rightarrow>
        if IsSpent d then Inl AssertionFailed
        else case CountWitnessSigOps (scriptSig txin) (scriptPubKey (coin_out d)) (scriptWitness txin) flags of
               None \<Rightarrow> Inl AssertionFailed
             | Some n \<Rightarrow> witness_sigops ops flags (nSigOps + n) ins c')"

definition GetTransactionSigOpCost ::
  "'b CCoinsView \<Rightarrow> CTransaction \<Rightarrow> u32 \<Rightarrow> 'b CCoinsViewCache \<Rightarrow> coins_error + (nat \<times> 'b CCoinsViewCache)" where
  "GetTransactionSigOpCost ops tx flags c =
     (let nSigOps = GetLegacySigOpCount tx * WITNESS_SCALE_FACTOR mod 2 ^ 32
      in if IsCoinBase tx then Inr (nSigOps, c)
         else sbind (if flag_set flags SCRIPT_VERIFY_P2SH then GetP2SHSigOpCount ops tx c else Inr (0, c)) (\<lambda>(n, c').
                witness_sigops ops flags (nSigOps + n * WITNESS_SCALE_FACTOR mod 2 ^ 32) (vin tx) c'))"

section \<open>What the checks mean\<close>

text \<open>The money in a map of coins.\<close>

definition total :: "(COutPoint \<rightharpoonup> Coin) \<Rightarrow> int" where
  "total U = (\<Sum>p \<in> dom U. nValue (coin_out (the (U p))))"

definition value_in :: "(COutPoint \<rightharpoonup> Coin) \<Rightarrow> CTransaction \<Rightarrow> int" where
  "value_in U tx = (\<Sum>txin \<leftarrow> vin tx. nValue (coin_out (the (U (prevout txin)))))"

definition value_out :: "CTransaction \<Rightarrow> int" where
  "value_out tx = (\<Sum>txout \<leftarrow> vout tx. nValue txout)"

lemma total_restrict:
  assumes "finite (dom U)" "S \<subseteq> dom U"
  shows "total (U |` (- S)) = total U - (\<Sum>p \<in> S. nValue (coin_out (the (U p))))"
proof -
  have "dom (U |` (- S)) = dom U - S" by auto
  then have "total (U |` (- S)) = (\<Sum>p \<in> dom U - S. nValue (coin_out (the (U p))))"
    by (simp add: total_def)
  then show ?thesis using assms by (simp add: total_def sum_diff)
qed

lemma total_map_add:
  assumes "finite (dom U)" "finite (dom V)" "dom U \<inter> dom V = {}"
  shows "total (U ++ V) = total U + total V"
proof -
  have "(\<Sum>p \<in> dom U. nValue (coin_out (the ((U ++ V) p)))) = total U" unfolding total_def
    using assms(3) by (intro sum.cong) (auto simp: map_add_def disjoint_iff domIff split: option.splits)
  moreover have "(\<Sum>p \<in> dom V. nValue (coin_out (the ((U ++ V) p)))) = total V" unfolding total_def
    by (intro sum.cong) (auto simp: map_add_dom_app_simps)
  ultimately show ?thesis
    using assms by (simp add: total_def sum.union_disjoint Un_commute Int_commute)
qed

lemma total_update: "finite (dom U) \<Longrightarrow> U p = None \<Longrightarrow> total (U(p \<mapsto> d)) = nValue (coin_out d) + total U"
  using total_map_add [of U "[p \<mapsto> d]"] by (simp add: total_def domIff)

text \<open>Outputs that become coins are worth at most all outputs.\<close>

lemma total_outs:
  assumes "k + length outs \<le> 2 ^ 32" "\<forall>txout \<in> set outs. 0 \<le> nValue txout"
  shows "finite (dom (outs_from txid h cb k outs)) \<and>
    total (outs_from txid h cb k outs) \<le> (\<Sum>txout \<leftarrow> outs. nValue txout)"
  using assms
proof (induction outs arbitrary: k)
  case Nil
  then show ?case by (simp add: total_def)
next
  case (Cons txout outs)
  have k: "k < 2 ^ 32" using Cons.prems(1) by simp
  have IH: "finite (dom (outs_from txid h cb (Suc k) outs))"
    "total (outs_from txid h cb (Suc k) outs) \<le> (\<Sum>txout \<leftarrow> outs. nValue txout)"
    using Cons.IH [of "Suc k"] Cons.prems by simp_all
  moreover have "outs_from txid h cb (Suc k) outs (tx_outpoint txid k) = None"
    using k by (simp add: outs_from_def tx_outpoint_def Let_def unat_of_nat)
  ultimately show ?case
    using Cons.prems(2) by (auto simp: outs_from_Cons [OF k] total_update Coin_new_def)
qed

lemma check_outputs_iff:
  "MoneyRange a \<Longrightarrow> check_outputs a outs = None \<longleftrightarrow>
     (\<forall>txout \<in> set outs. MoneyRange (nValue txout)) \<and> a + (\<Sum>txout \<leftarrow> outs. nValue txout) \<le> MAX_MONEY"
proof (induction outs arbitrary: a)
  case Nil
  then show ?case by (simp add: MoneyRange_def)
next
  case (Cons txout outs)
  show ?case
  proof (cases "MoneyRange (nValue txout)")
    case True
    then have w: "wrap64 (a + nValue txout) = a + nValue txout"
      using Cons.prems by (intro wrap64_id MoneyRange_add_int64)
    have pos: "(\<forall>t \<in> set outs. MoneyRange (nValue t)) \<Longrightarrow> 0 \<le> (\<Sum>t \<leftarrow> outs. nValue t)"
      by (intro sum_list_nonneg) (auto simp: MoneyRange_def)
    show ?thesis
    proof (cases "MoneyRange (a + nValue txout)")
      case in_range: True
      then show ?thesis using True Cons.IH [of "a + nValue txout"] by (auto simp: w Let_def MoneyRange_def)
    next
      case False
      then show ?thesis using True pos Cons.prems by (auto simp: w Let_def MoneyRange_def)
    qed
  qed (auto simp: MoneyRange_def)
qed

lemma has_duplicate_iff: "has_duplicate seen ins \<longleftrightarrow> \<not> distinct (map prevout ins) \<or> set seen \<inter> prevout ` set ins \<noteq> {}"
  by (induction ins arbitrary: seen) auto

context coins_view
begin

lemma have_all_law:
  "utxo_ok c \<Longrightarrow> have_all ops ins c = (b, c') \<Longrightarrow>
     b = (\<forall>txin \<in> set ins. utxo c (prevout txin) \<noteq> None) \<and> utxo c' = utxo c \<and> utxo_ok c' \<and> cache_best B c' = cache_best B c"
proof (induction ins arbitrary: c)
  case (Cons txin ins)
  obtain h c1 where h: "HaveCoin ops c (prevout txin) = (h, c1)" by fastforce
  note q = query_laws(2) [OF Cons.prems(1) h]
  show ?case
  proof (cases h)
    case True
    then show ?thesis using Cons.IH [of c1] Cons.prems(2) q h by auto
  next
    case False
    then show ?thesis using Cons.prems(2) q h by auto
  qed
qed simp

lemma HaveInputs_law:
  "utxo_ok c \<Longrightarrow> HaveInputs ops tx c = (b, c') \<Longrightarrow>
     b = (IsCoinBase tx \<or> (\<forall>txin \<in> set (vin tx). utxo c (prevout txin) \<noteq> None)) \<and> utxo c' = utxo c \<and> utxo_ok c' \<and>
     cache_best B c' = cache_best B c"
  using have_all_law [of c "vin tx" b c'] by (auto simp: HaveInputs_def split: if_splits)

lemma value_in_loop_law:
  "utxo_ok c \<Longrightarrow> MoneyRange a \<Longrightarrow> (\<forall>txin \<in> set ins. \<exists>d. utxo c (prevout txin) = Some d \<and> MoneyRange (nValue (coin_out d))) \<Longrightarrow>
   a + (\<Sum>txin \<leftarrow> ins. nValue (coin_out (the (utxo c (prevout txin))))) \<le> MAX_MONEY \<Longrightarrow>
   \<exists>c'. value_in_loop ops a ins c = (a + (\<Sum>txin \<leftarrow> ins. nValue (coin_out (the (utxo c (prevout txin))))), c') \<and>
     utxo c' = utxo c \<and> utxo_ok c' \<and> cache_best B c' = cache_best B c"
proof (induction ins arbitrary: a c)
  case (Cons txin ins)
  obtain d c1 where d: "AccessCoin ops c (prevout txin) = (d, c1)" by fastforce
  note q = query_laws(3) [OF Cons.prems(1) d]
  obtain d' where d': "utxo c (prevout txin) = Some d'" "MoneyRange (nValue (coin_out d'))" using Cons.prems(3) by auto
  then have "d' = d" using q by (auto simp: coin_opt_def split: if_splits)
  have "0 \<le> (\<Sum>txin \<leftarrow> ins. nValue (coin_out (the (utxo c (prevout txin)))))"
    using Cons.prems(3) by (intro sum_list_nonneg) (auto simp: MoneyRange_def)
  then have range: "MoneyRange (a + nValue (coin_out d))"
    using Cons.prems(2,4) d' \<open>d' = d\<close> by (auto simp: MoneyRange_def)
  have "wrap64 (a + nValue (coin_out d)) = a + nValue (coin_out d)"
    using Cons.prems(2) d' \<open>d' = d\<close> by (intro wrap64_id MoneyRange_add_int64) auto
  then show ?case
    using Cons.IH [OF _ range, of c1] Cons.prems(3,4) q d d'(1) \<open>d' = d\<close> by (auto simp: add.assoc)
qed simp

lemma check_inputs_law:
  "utxo_ok c \<Longrightarrow> MoneyRange a \<Longrightarrow> check_inputs ops h a ins c = Inr (Inr v, c') \<Longrightarrow>
     (\<forall>txin \<in> set ins. \<exists>d. utxo c (prevout txin) = Some d \<and> MoneyRange (nValue (coin_out d)) \<and>
        (fCoinBase d \<longrightarrow> COINBASE_MATURITY \<le> h - int (coin_nHeight d))) \<and>
     v = a + (\<Sum>txin \<leftarrow> ins. nValue (coin_out (the (utxo c (prevout txin))))) \<and> v \<le> MAX_MONEY \<and>
     utxo c' = utxo c \<and> utxo_ok c' \<and> cache_best B c' = cache_best B c"
proof (induction ins arbitrary: a c)
  case Nil
  then show ?case by (auto simp: MoneyRange_def)
next
  case (Cons txin ins)
  obtain d c1 where d: "AccessCoin ops c (prevout txin) = (d, c1)" by fastforce
  note q = query_laws(3) [OF Cons.prems(1) d]
  from Cons.prems(3) d have "\<not> IsSpent d" "fCoinBase d \<longrightarrow> COINBASE_MATURITY \<le> h - int (coin_nHeight d)"
    "MoneyRange (nValue (coin_out d))" "MoneyRange (wrap64 (a + nValue (coin_out d)))"
    "check_inputs ops h (wrap64 (a + nValue (coin_out d))) ins c1 = Inr (Inr v, c')"
    by (auto simp: Let_def split: if_splits)
  moreover from this have "wrap64 (a + nValue (coin_out d)) = a + nValue (coin_out d)"
    using Cons.prems(2) by (intro wrap64_id MoneyRange_add_int64)
  moreover from \<open>\<not> IsSpent d\<close> q have "utxo c (prevout txin) = Some d" by (simp add: coin_opt_def)
  ultimately show ?case
    using Cons.IH [of c1 "a + nValue (coin_out d)"] q by auto
qed

lemma CheckTxInputs_law:
  assumes "utxo_ok c" "CheckTxInputs ops tx h c = Inr (None, c')"
  shows "\<forall>txin \<in> set (vin tx). \<exists>d. utxo c (prevout txin) = Some d \<and> MoneyRange (nValue (coin_out d)) \<and>
      (fCoinBase d \<longrightarrow> COINBASE_MATURITY \<le> h - int (coin_nHeight d))"
    and "value_in (utxo c) tx \<le> MAX_MONEY" "value_out tx \<le> value_in (utxo c) tx" "GetValueOut tx = Some (value_out tx)"
    and "utxo c' = utxo c" "utxo_ok c'" "cache_best B c' = cache_best B c"
proof -
  obtain b c1 where have1: "HaveInputs ops tx c = (b, c1)" by fastforce
  note q = HaveInputs_law [OF assms(1) have1]
  have b using assms(2) have1 by (cases b) (simp_all add: CheckTxInputs_def)
  with assms(2) have1 obtain r c2 where r: "check_inputs ops h 0 (vin tx) c1 = Inr (r, c2)"
    by (cases "check_inputs ops h 0 (vin tx) c1") (auto simp: CheckTxInputs_def)
  with assms(2) have1 \<open>b\<close> obtain v out where v: "r = Inr v" and out: "GetValueOut tx = Some out"
    by (cases r; cases "GetValueOut tx") (auto simp: CheckTxInputs_def)
  with assms(2) have1 \<open>b\<close> r have "out \<le> v" and loop: "check_inputs ops h 0 (vin tx) c1 = Inr (Inr v, c')"
    by (auto simp: CheckTxInputs_def Let_def split: if_splits)
  note out = out this(1)
  have "MoneyRange 0" by (simp add: MoneyRange_def MAX_MONEY_def COIN_def)
  note law = check_inputs_law [OF _ this loop]
  have "out = value_out tx" using out(1) value_out_loop_iff [of 0 "vout tx" out] \<open>MoneyRange 0\<close>
    by (simp add: GetValueOut_def value_out_def)
  then show "\<forall>txin \<in> set (vin tx). \<exists>d. utxo c (prevout txin) = Some d \<and> MoneyRange (nValue (coin_out d)) \<and>
      (fCoinBase d \<longrightarrow> COINBASE_MATURITY \<le> h - int (coin_nHeight d))"
    "value_in (utxo c) tx \<le> MAX_MONEY" "value_out tx \<le> value_in (utxo c) tx" "GetValueOut tx = Some (value_out tx)"
    "utxo c' = utxo c" "utxo_ok c'" "cache_best B c' = cache_best B c"
    using law q out by (auto simp: value_in_def)
qed

text \<open>A transaction that passes the checks and spends no coin twice takes its fee out of the coins.\<close>

lemma transaction_law:
  assumes "utxo_ok c" "\<not> IsCoinBase tx" "distinct (map prevout (vin tx))" "CheckTxInputs ops tx h c = Inr (None, c1)"
    and "finite (dom (utxo c))" "length (vout tx) \<le> 2 ^ 32" "\<forall>txout \<in> set (vout tx). MoneyRange (nValue txout)"
    and fresh: "\<forall>p. outs_from (GetHash tx) h' False 0 (vout tx) p \<noteq> None \<longrightarrow> utxo c p = None"
  shows "tx_applies h' tx (utxo c)" "finite (dom (tx_after h' tx (utxo c)))"
    and "total (tx_after h' tx (utxo c)) + (value_in (utxo c) tx - value_out tx) \<le> total (utxo c)"
proof -
  let ?U = "utxo c" and ?outs = "outs_from (GetHash tx) h' False 0 (vout tx)"
  note law = CheckTxInputs_law [OF assms(1,4)]
  have ins: "\<forall>txin \<in> set (vin tx). ?U (prevout txin) \<noteq> None" using law(1) by fastforce
  have outs: "finite (dom ?outs)" "total ?outs \<le> value_out tx"
    using total_outs [of 0 "vout tx" "GetHash tx" h' False] assms(6,7) by (auto simp: value_out_def MoneyRange_def)
  show "tx_applies h' tx ?U"
    using assms(2,3,6,7) fresh ins by (auto simp: tx_applies_def CTxOut_IsNull_def MoneyRange_def)
  have after: "tx_after h' tx ?U = (?U |` (- (prevout ` set (vin tx)))) ++ ?outs"
    using assms(2) by (simp add: tx_after_def tx_spent_def)
  have "(\<Sum>p \<in> prevout ` set (vin tx). nValue (coin_out (the (?U p)))) = value_in ?U tx"
    using sum.distinct_set_conv_list [OF assms(3), of "\<lambda>p. nValue (coin_out (the (?U p)))"]
    by (simp add: value_in_def comp_def)
  then have rest: "total (?U |` (- (prevout ` set (vin tx)))) = total ?U - value_in ?U tx"
    using total_restrict [OF assms(5), of "prevout ` set (vin tx)"] ins by auto
  have "finite (dom (?U |` (- (prevout ` set (vin tx)))))" using assms(5) by simp
  moreover have "dom (?U |` (- (prevout ` set (vin tx)))) \<inter> dom ?outs = {}" using fresh by auto
  ultimately have "total (tx_after h' tx ?U) = total ?U - value_in ?U tx + total ?outs"
    unfolding after rest [symmetric] using outs(1) by (intro total_map_add)
  with outs(2) show "total (tx_after h' tx ?U) + (value_in ?U tx - value_out tx) \<le> total ?U" by simp
  show "finite (dom (tx_after h' tx ?U))" using assms(5) outs(1) by (simp add: after)
qed

end

lemma CheckTransaction_outputs:
  "CheckTransaction tx fCheckDuplicateInputs = None \<Longrightarrow> \<forall>txout \<in> set (vout tx). MoneyRange (nValue txout)"
  using check_outputs_iff [of 0 "vout tx"]
  by (auto simp: CheckTransaction_def MoneyRange_def MAX_MONEY_def COIN_def split: if_splits option.splits)

lemma CheckTransaction_distinct: "CheckTransaction tx True = None \<Longrightarrow> distinct (map prevout (vin tx))"
  by (auto simp: CheckTransaction_def has_duplicate_iff split: if_splits option.splits)

text \<open>A small example: one coin in the database, and a transaction that names it some number of times.\<close>

abbreviation example_outpoint :: COutPoint where "example_outpoint \<equiv> \<lparr> op_hash = 5, op_n = 1 \<rparr>"

abbreviation example_coin :: Coin where "example_coin \<equiv> Coin_new \<lparr> nValue = 50, scriptPubKey = [0x51] \<rparr> 7 False"

definition example_spend :: "nat \<Rightarrow> CAmount \<Rightarrow> CTransaction" where
  "example_spend n v = CTransaction_default\<lparr>
     vin := replicate n \<lparr> prevout = example_outpoint, scriptSig = [], nSequence = SEQUENCE_FINAL, scriptWitness = [] \<rparr>,
     vout := [\<lparr> nValue = v, scriptPubKey = [0x51] \<rparr>] \<rparr>"

definition example_cache :: "CCoinsViewDB CCoinsViewCache CCoinsViewCache" where
  "example_cache = CCoinsViewCache_new (CCoinsViewCache_new
     \<lparr> db_coins = [example_outpoint \<mapsto> example_coin], db_best = Some 1, db_heads = None \<rparr>)"

definition example_checked :: "CCoinsViewDB CCoinsViewCache CCoinsViewCache" where
  "example_checked =
     (let cached = [(example_outpoint, \<lparr> entry_coin = example_coin, DIRTY = False, FRESH = False \<rparr>)]
      in example_cache\<lparr> cache_base := (cache_base example_cache)\<lparr> cacheCoins := cached \<rparr>, cacheCoins := cached \<rparr>)"

lemma example_not_coinbase: "\<not> IsCoinBase (example_spend n v)"
  by (simp add: example_spend_def IsCoinBase_def COutPoint_IsNull_def CTransaction_default_def)

lemma example_utxo: "cache_abs (cache_abs db_coins) example_cache = [example_outpoint \<mapsto> example_coin]"
  by (simp add: example_cache_def CCoinsViewCache_new_def cache_abs_def)

lemma example_ok: "cache_inv (cache_abs db_coins) (cache_inv db_coins db_inv) example_cache"
  by (simp add: example_cache_def CCoinsViewCache_new_def cache_inv_def db_inv_def entries_ok_def
      IsSpent_def CTxOut_IsNull_def Coin_new_def)

lemma example_size: "n = 1 \<or> n = 2 \<Longrightarrow> GetSerializeSize (example_spend n v) \<le> 200"
  by (auto simp: GetSerializeSize_def SerializeTransaction_def example_spend_def CTransaction_default_def CExtData_default_def
      SerializeExtData_def extdata_type_defs HasWitness_def ser_vector_def ser_txin_def ser_outpoint_def ser_uint256_def
      ser_txout_def ser_bytes_def ser_int64_def ser_writedata8_def ser_writedata32_def ser_writedata64_def
      WriteCompactSize_def length_concat comp_def sum_list_replicate word_less_nat_alt)

lemma example_CheckTransaction:
  "CheckTransaction (example_spend 2 100) False = None" "CheckTransaction (example_spend 1 40) True = None"
  using example_not_coinbase [of 2 100] example_not_coinbase [of 1 40] example_size [of 2 100] example_size [of 1 40]
  by (simp_all add: CheckTransaction_def MAX_BLOCK_WEIGHT_def WITNESS_SCALE_FACTOR_def)
    (simp_all add: example_spend_def CTransaction_default_def numeral_2_eq_2 wrap64_def MoneyRange_def MAX_MONEY_def COIN_def COutPoint_IsNull_def)

lemmas example_access = HaveCoin_def AccessCoin_def FetchCoin_def SpendCoin_def AddCoin_def cache_view_def db_view_def GetCoin_def
  CCoinsViewCache_new_def IsSpent_def CTxOut_IsNull_def Coin_new_def Let_def

lemma example_GetValueOut:
  "GetValueOut (example_spend n 100) = Some 100" "GetValueOut (example_spend n 40) = Some 40"
  by (simp_all add: GetValueOut_def example_spend_def wrap64_def MoneyRange_def MAX_MONEY_def COIN_def)

lemma example_inputs:
  "HaveInputs (cache_view (db_view length 100)) (example_spend 2 100) example_cache = (True, example_checked)"
  "HaveInputs (cache_view (db_view length 100)) (example_spend 1 40) example_cache = (True, example_checked)"
  "check_inputs (cache_view (db_view length 100)) 8 0 (vin (example_spend 2 100)) example_checked = Inr (Inr 100, example_checked)"
  "check_inputs (cache_view (db_view length 100)) 8 0 (vin (example_spend 1 40)) example_checked = Inr (Inr 50, example_checked)"
  using example_not_coinbase [of 2 100] example_not_coinbase [of 1 40]
  by (simp_all add: HaveInputs_def)
    (simp_all add: example_spend_def CTransaction_default_def example_cache_def example_checked_def numeral_2_eq_2 example_access
      wrap64_def MoneyRange_def MAX_MONEY_def COIN_def)

lemma example_CheckTxInputs:
  "CheckTxInputs (cache_view (db_view length 100)) (example_spend 2 100) 8 example_cache = Inr (None, example_checked)"
  "CheckTxInputs (cache_view (db_view length 100)) (example_spend 1 40) 8 example_cache = Inr (None, example_checked)"
  using example_inputs
  by (auto simp: CheckTxInputs_def example_GetValueOut MoneyRange_def MAX_MONEY_def COIN_def)

lemma example_UpdateCoins:
  "\<exists>undo c2. UpdateCoins (cache_view (db_view length 100)) (example_spend 2 100) 8 example_checked = Inr (undo, c2) \<and>
     cache_abs (cache_abs db_coins) c2 = [tx_outpoint (GetHash (example_spend 2 100)) 0 \<mapsto>
       Coin_new \<lparr> nValue = 100, scriptPubKey = [0x51] \<rparr> 8 False]"
proof -
  define txid where "txid = GetHash (example_spend 2 100)"
  define txin where "txin = \<lparr> prevout = example_outpoint, scriptSig = [], nSequence = SEQUENCE_FINAL, scriptWitness = [] \<rparr>"
  have tx: "vin (example_spend 2 100) = [txin, txin]" "vout (example_spend 2 100) = [\<lparr> nValue = 100, scriptPubKey = [0x51] \<rparr>]"
    "prevout txin = example_outpoint" by (simp_all add: example_spend_def txin_def numeral_2_eq_2)
  have spendable: "\<not> IsUnspendable [0x51]" by (simp add: IsUnspendable_def MAX_SCRIPT_SIZE_def)
  show ?thesis
    unfolding UpdateCoins_def AddCoins_def tx(1,2) txid_def [symmetric]
    using example_not_coinbase [of 2 100]
    by (simp add: tx(3) example_cache_def example_checked_def example_access Coin_Clear_def coinEmpty_def tx_outpoint_def spendable)
      (auto simp: cache_abs_def overlay_def coin_opt_def example_access fun_eq_iff)
qed

text \<open>
  C1: a transaction that passes \<open>CheckTransaction\<close> with the check for duplicate inputs and then
  \<open>CheckTxInputs\<close>, and whose outputs are new, is applied by \<open>UpdateCoins\<close> without an exception, and the
  money in the unspent outputs falls by at least its fee, which is not negative.
\<close>

theorem transaction_conserves:
  fixes SizeEstimate :: "db_change list \<Rightarrow> nat" and batch_size :: nat
  defines "ops \<equiv> cache_view (db_view SizeEstimate batch_size)"
  defines "utxo \<equiv> cache_abs (cache_abs db_coins)" and "ok \<equiv> cache_inv (cache_abs db_coins) (cache_inv db_coins db_inv)"
  assumes "ok c" "\<not> IsCoinBase tx" "CheckTransaction tx True = None" "CheckTxInputs ops tx h c = Inr (None, c1)"
    and "finite (dom (utxo c))" "length (vout tx) \<le> 2 ^ 32"
    and "\<forall>p. outs_from (GetHash tx) h False 0 (vout tx) p \<noteq> None \<longrightarrow> utxo c p = None"
  shows "\<exists>undo c2. UpdateCoins ops tx h c1 = Inr (undo, c2) \<and> ok c2 \<and>
    value_out tx \<le> value_in (utxo c) tx \<and> total (utxo c2) + (value_in (utxo c) tx - value_out tx) \<le> total (utxo c)"
proof -
  note facts = assms(4-10) [unfolded ops_def utxo_def ok_def]
  note law = tip.transaction_law [OF facts(1,2) CheckTransaction_distinct [OF facts(3)] facts(4,5,6)
      CheckTransaction_outputs [OF facts(3)] facts(7)]
  note inputs = tip.CheckTxInputs_law [OF facts(1,4)]
  show ?thesis unfolding ops_def utxo_def ok_def
    by (rule tip.UpdateCoins_law [of c1 h tx SizeEstimate batch_size]) (use law inputs in auto)
qed

theorem transaction_conserves_witness:
  "let ops = cache_view (db_view length 100); tx = example_spend 1 40
   in CheckTransaction tx True = None \<and> CheckTxInputs ops tx 8 example_cache = Inr (None, example_checked) \<and>
      (\<exists>undo c2. UpdateCoins ops tx 8 example_checked = Inr (undo, c2) \<and> total (cache_abs (cache_abs db_coins) c2) \<le> 40)"
proof -
  let ?tx = "example_spend 1 40"
  have "outs_from (GetHash ?tx) 8 False 0 (vout ?tx) example_outpoint = None"
    by (simp add: example_spend_def outs_from_def Let_def)
  then have fresh: "\<forall>p. outs_from (GetHash ?tx) 8 False 0 (vout ?tx) p \<noteq> None \<longrightarrow> cache_abs (cache_abs db_coins) example_cache p = None"
    by (auto simp: example_utxo)
  have "finite (dom (cache_abs (cache_abs db_coins) example_cache))" "length (vout ?tx) \<le> 2 ^ 32"
    by (simp_all add: example_utxo) (simp add: example_spend_def)
  from transaction_conserves [OF example_ok example_not_coinbase example_CheckTransaction(2) example_CheckTxInputs(2) this fresh]
  obtain undo c2 where "UpdateCoins (cache_view (db_view length 100)) ?tx 8 example_checked = Inr (undo, c2)"
    "total (cache_abs (cache_abs db_coins) c2) +
       (value_in (cache_abs (cache_abs db_coins) example_cache) ?tx - value_out ?tx) \<le> total (cache_abs (cache_abs db_coins) example_cache)"
    by blast
  moreover have "value_in (cache_abs (cache_abs db_coins) example_cache) ?tx = 50" "value_out ?tx = 40"
    "total (cache_abs (cache_abs db_coins) example_cache) = 50"
    unfolding example_utxo by (simp_all add: value_in_def value_out_def total_def example_spend_def Coin_new_def)
  ultimately show ?thesis using example_CheckTransaction(2) example_CheckTxInputs(2) by (auto simp: Let_def)
qed

text \<open>
  C3: without the check for duplicate inputs, which \<open>CheckBlock\<close> skips, money is created. A transaction that
  names a coin of 50 twice and pays 100 passes \<open>CheckTransaction\<close> and \<open>CheckTxInputs\<close>, \<open>UpdateCoins\<close> fails
  no assertion, because the coin stays in the cache as a spent entry, and the unspent outputs hold 100
  afterwards instead of 50.
\<close>

theorem duplicate_inputs_create_money:
  "let ops = cache_view (db_view length 100); utxo = cache_abs (cache_abs db_coins); tx = example_spend 2 100
   in CheckTransaction tx True \<noteq> None \<and> CheckTransaction tx False = None \<and>
      (\<exists>c1 undo c2. CheckTxInputs ops tx 8 example_cache = Inr (None, c1) \<and> UpdateCoins ops tx 8 c1 = Inr (undo, c2) \<and>
         total (utxo example_cache) = 50 \<and> total (utxo c2) = 100)"
proof -
  let ?tx = "example_spend 2 100"
  have "\<not> distinct (map prevout (vin ?tx))" by (simp add: example_spend_def numeral_2_eq_2)
  then have "CheckTransaction ?tx True \<noteq> None" using CheckTransaction_distinct [of ?tx] by blast
  moreover obtain undo c2 where "UpdateCoins (cache_view (db_view length 100)) ?tx 8 example_checked = Inr (undo, c2)"
    and c2: "cache_abs (cache_abs db_coins) c2 = [tx_outpoint (GetHash ?tx) 0 \<mapsto> Coin_new \<lparr> nValue = 100, scriptPubKey = [0x51] \<rparr> 8 False]"
    using example_UpdateCoins by blast
  moreover have "total (cache_abs (cache_abs db_coins) c2) = 100" "total (cache_abs (cache_abs db_coins) example_cache) = 50"
    unfolding c2 example_utxo by (simp_all add: total_def Coin_new_def)
  ultimately show ?thesis using example_CheckTransaction(1) example_CheckTxInputs(1) by (simp add: Let_def)
qed

end
