(* ===== verification/Compressor.thy ===== *)
theory Compressor
  imports CoinsUpdate PubKey
begin

text \<open>
  The compact formats of the database and of undo files: amounts and scripts (\<open>compressor.h\<close>,
  \<open>compressor.cpp\<close>), coins (\<open>coins.h\<close>) and undo data (\<open>undo.h\<close>). Parsing a public key and writing it in
  its long form belong to secp256k1 and are arguments.
\<close>

section \<open>Amounts\<close>

function strip_zeros :: "u64 \<Rightarrow> nat \<Rightarrow> u64 \<times> nat" where
  "strip_zeros n e = (if n mod 10 = 0 \<and> e < 9 then strip_zeros (n div 10) (e + 1) else (n, e))"
  by pat_completeness auto
termination
  by (relation "measure (\<lambda>(n, e). 9 - e)") auto

declare strip_zeros.simps [simp del]

definition CompressAmount :: "u64 \<Rightarrow> u64" where
  "CompressAmount n =
     (if n = 0 then 0
      else case strip_zeros n 0 of (n, e) \<Rightarrow>
        if e < 9 then let d = n mod 10 in 1 + (n div 10 * 9 + d - 1) * 10 + of_nat e
        else 1 + (n - 1) * 10 + 9)"

primrec times_ten :: "u64 \<Rightarrow> nat \<Rightarrow> u64" where
  "times_ten n 0 = n"
| "times_ten n (Suc e) = times_ten (n * 10) e"

definition DecompressAmount :: "u64 \<Rightarrow> u64" where
  "DecompressAmount x =
     (if x = 0 then 0
      else let x = x - 1; e = unat (x mod 10); x = x div 10
           in times_ten (if e < 9 then let d = x mod 9 + 1 in x div 9 * 10 + d else x + 1) e)"

section \<open>Scripts\<close>

text \<open>The three templates, each with the data it carries.\<close>

definition IsToKeyID :: "bytes \<Rightarrow> bytes option" where
  "IsToKeyID script =
     (if length script = 25 \<and> script ! 0 = OP_DUP \<and> script ! 1 = OP_HASH160 \<and> script ! 2 = 20 \<and>
         script ! 23 = OP_EQUALVERIFY \<and> script ! 24 = OP_CHECKSIG
      then Some (take 20 (drop 3 script)) else None)"

definition IsToScriptID :: "bytes \<Rightarrow> bytes option" where
  "IsToScriptID script =
     (if length script = 23 \<and> script ! 0 = OP_HASH160 \<and> script ! 1 = 20 \<and> script ! 22 = OP_EQUAL
      then Some (take 20 (drop 2 script)) else None)"

text \<open>The key object starts invalid; the bytes of its array that are not set are never read.\<close>

definition CPubKey_new :: CPubKey where
  "CPubKey_new = Invalidate (replicate 65 0)"

definition IsToPubKey :: "(bytes \<Rightarrow> 'pk option) \<Rightarrow> bytes \<Rightarrow> CPubKey option" where
  "IsToPubKey pubkey_parse script =
     (if length script = 35 \<and> script ! 0 = 33 \<and> script ! 34 = OP_CHECKSIG \<and> (script ! 1 = 2 \<or> script ! 1 = 3)
      then Some (CPubKey_Set CPubKey_new (take 33 (drop 1 script)))
      else if length script = 67 \<and> script ! 0 = 65 \<and> script ! 66 = OP_CHECKSIG \<and> script ! 1 = 4
      then let pubkey = CPubKey_Set CPubKey_new (take 65 (drop 1 script))
           in if CPubKey_IsFullyValid pubkey_parse pubkey then Some pubkey else None
      else None)"

definition Compress :: "(bytes \<Rightarrow> 'pk option) \<Rightarrow> bytes \<Rightarrow> bytes option" where
  "Compress pubkey_parse script =
     (case IsToKeyID script of
        Some keyID \<Rightarrow> Some (0 # keyID)
      | None \<Rightarrow>
     (case IsToScriptID script of
        Some scriptID \<Rightarrow> Some (1 # scriptID)
      | None \<Rightarrow>
     (case IsToPubKey pubkey_parse script of
        Some pubkey \<Rightarrow>
          (if pubkey ! 0 = 2 \<or> pubkey ! 0 = 3 then Some (pubkey ! 0 # take 32 (drop 1 pubkey))
           else if pubkey ! 0 = 4 then Some ((4 OR (pubkey ! 64 AND 1)) # take 32 (drop 1 pubkey))
           else None)
      | None \<Rightarrow> None)))"

definition GetSpecialSize :: "nat \<Rightarrow> nat" where
  "GetSpecialSize nSize = (if nSize = 0 \<or> nSize = 1 then 20 else if nSize \<in> {2, 3, 4, 5} then 32 else 0)"

text \<open>The long form of the point with the given coordinates.\<close>

definition pubkey_uncompressed :: "uint256 \<times> uint256 \<Rightarrow> bytes" where
  "pubkey_uncompressed xy = 4 # be_bytes 32 (fst xy) @ be_bytes 32 (snd xy)"

text \<open>\<open>CPubKey::Decompress\<close>; the flag is its result.\<close>

definition CPubKey_Decompress ::
  "(bytes \<Rightarrow> 'pk option) \<Rightarrow> ('pk \<Rightarrow> uint256 \<times> uint256) \<Rightarrow> CPubKey \<Rightarrow> bool \<times> CPubKey" where
  "CPubKey_Decompress pubkey_parse coords vch =
     (if \<not> CPubKey_IsValid vch then (False, vch)
      else case pubkey_parse (CPubKey_bytes vch) of
             None \<Rightarrow> (False, vch)
           | Some pubkey \<Rightarrow> (True, CPubKey_Set vch (pubkey_uncompressed (coords pubkey))))"

text \<open>
  The new script; it keeps the old one when it fails. That the key has 65 bytes is asserted in the code
  and follows from the long form.
\<close>

definition Decompress ::
  "(bytes \<Rightarrow> 'pk option) \<Rightarrow> ('pk \<Rightarrow> uint256 \<times> uint256) \<Rightarrow> nat \<Rightarrow> bytes \<Rightarrow> bytes \<Rightarrow> bool \<times> bytes" where
  "Decompress pubkey_parse coords nSize src script =
     (if nSize = 0 then (True, [OP_DUP, OP_HASH160, 20] @ take 20 src @ [OP_EQUALVERIFY, OP_CHECKSIG])
      else if nSize = 1 then (True, [OP_HASH160, 20] @ take 20 src @ [OP_EQUAL])
      else if nSize = 2 \<or> nSize = 3 then (True, [33, of_nat nSize] @ take 32 src @ [OP_CHECKSIG])
      else if nSize = 4 \<or> nSize = 5
      then case CPubKey_Decompress pubkey_parse coords (CPubKey_Set CPubKey_new (of_nat (nSize - 2) # take 32 src)) of
             (ok, pubkey) \<Rightarrow>
               if \<not> ok then (False, script) else (True, [65] @ take 65 pubkey @ [OP_CHECKSIG])
      else (False, script))"

definition nSpecialScripts :: nat where "nSpecialScripts = 6"

definition ser_compressed_script :: "(bytes \<Rightarrow> 'pk option) \<Rightarrow> bytes \<Rightarrow> bytes" where
  "ser_compressed_script pubkey_parse script =
     (case Compress pubkey_parse script of
        Some compr \<Rightarrow> compr
      | None \<Rightarrow> WriteVarInt (of_nat (length script + nSpecialScripts) :: u32) @ script)"

text \<open>
  Reading into a script object; a size above the limit replaces the script by one that cannot be spent.
  \<open>ignore\<close> fails like a read of as many bytes.
\<close>

definition unser_compressed_script ::
  "(bytes \<Rightarrow> 'pk option) \<Rightarrow> ('pk \<Rightarrow> uint256 \<times> uint256) \<Rightarrow> bytes \<Rightarrow> bytes reader" where
  "unser_compressed_script pubkey_parse coords script =
     rbind (ReadVarInt :: u32 reader) (\<lambda>n.
       let nSize = unat n in
       if nSize < nSpecialScripts
       then rbind (stream_read (GetSpecialSize nSize)) (\<lambda>vch.
              rret (snd (Decompress pubkey_parse coords nSize vch script)))
       else let nSize = nSize - nSpecialScripts in
         if nSize > MAX_SCRIPT_SIZE then rbind (stream_read nSize) (\<lambda>_. rret (script @ [OP_RETURN]))
         else stream_read nSize)"

section \<open>Outputs, coins and undo data\<close>

text \<open>The amount is converted to unsigned before it is compressed and back after it is decompressed.\<close>

definition ser_compressed_txout :: "(bytes \<Rightarrow> 'pk option) \<Rightarrow> CTxOut \<Rightarrow> bytes" where
  "ser_compressed_txout pubkey_parse txout =
     WriteVarInt (CompressAmount (of_int (nValue txout))) @ ser_compressed_script pubkey_parse (scriptPubKey txout)"

definition unser_compressed_txout ::
  "(bytes \<Rightarrow> 'pk option) \<Rightarrow> ('pk \<Rightarrow> uint256 \<times> uint256) \<Rightarrow> CTxOut \<Rightarrow> CTxOut reader" where
  "unser_compressed_txout pubkey_parse coords txout =
     rbind ReadVarInt (\<lambda>nVal. rbind (unser_compressed_script pubkey_parse coords (scriptPubKey txout)) (\<lambda>s.
       rret \<lparr> nValue = sint (DecompressAmount nVal), scriptPubKey = s \<rparr>))"

text \<open>A coin in the database; \<open>None\<close> is the assertion that it is not spent.\<close>

definition ser_coin :: "(bytes \<Rightarrow> 'pk option) \<Rightarrow> Coin \<Rightarrow> bytes option" where
  "ser_coin pubkey_parse coin =
     (if IsSpent coin then None
      else let code = of_nat (coin_nHeight coin * 2 + (if fCoinBase coin then 1 else 0)) :: u32
           in Some (WriteVarInt code @ ser_compressed_txout pubkey_parse (coin_out coin)))"

definition unser_coin :: "(bytes \<Rightarrow> 'pk option) \<Rightarrow> ('pk \<Rightarrow> uint256 \<times> uint256) \<Rightarrow> Coin \<Rightarrow> Coin reader" where
  "unser_coin pubkey_parse coords coin =
     rbind (ReadVarInt :: u32 reader) (\<lambda>code.
     rbind (unser_compressed_txout pubkey_parse coords (coin_out coin)) (\<lambda>txout.
       rret \<lparr> coin_out = txout, fCoinBase = (code AND 1 \<noteq> 0), coin_nHeight = unat (drop_bit 1 code) \<rparr>))"

text \<open>
  In undo data the code is a signed \<open>int\<close>, whose variable-length format is the one of 31-bit numbers as
  long as it is not negative, and a dummy for the version follows a positive height.
\<close>

type_synonym varint_int = "31 word"

definition ser_txin_undo :: "(bytes \<Rightarrow> 'pk option) \<Rightarrow> Coin \<Rightarrow> bytes" where
  "ser_txin_undo pubkey_parse coin =
     WriteVarInt (of_nat (coin_nHeight coin * 2 + (if fCoinBase coin then 1 else 0)) :: varint_int) @
     (if coin_nHeight coin > 0 then ser_writedata8 0 else []) @ ser_compressed_txout pubkey_parse (coin_out coin)"

definition unser_txin_undo :: "(bytes \<Rightarrow> 'pk option) \<Rightarrow> ('pk \<Rightarrow> uint256 \<times> uint256) \<Rightarrow> Coin reader" where
  "unser_txin_undo pubkey_parse coords =
     rbind (ReadVarInt :: u32 reader) (\<lambda>nCode.
     rbind (if unat nCode div 2 > 0 then rbind (ReadVarInt :: varint_int reader) (\<lambda>_. rret ()) else rret ()) (\<lambda>_.
     rbind (unser_compressed_txout pubkey_parse coords (coin_out coinEmpty)) (\<lambda>txout.
       rret \<lparr> coin_out = txout, fCoinBase = (nCode AND 1 \<noteq> 0), coin_nHeight = unat nCode div 2 \<rparr>)))"

definition MIN_TRANSACTION_INPUT_WEIGHT :: nat where
  "MIN_TRANSACTION_INPUT_WEIGHT = WITNESS_SCALE_FACTOR * length (ser_txin \<lparr> prevout = \<lparr> op_hash = 0, op_n = - 1 \<rparr>, scriptSig = [],
     nSequence = SEQUENCE_FINAL, scriptWitness = [] \<rparr>)"

definition MAX_INPUTS_PER_BLOCK :: nat where
  "MAX_INPUTS_PER_BLOCK = MAX_BLOCK_WEIGHT div MIN_TRANSACTION_INPUT_WEIGHT"

definition ser_tx_undo :: "(bytes \<Rightarrow> 'pk option) \<Rightarrow> Coin list \<Rightarrow> bytes" where
  "ser_tx_undo pubkey_parse vprevout =
     WriteCompactSize (of_nat (length vprevout)) @ concat (map (ser_txin_undo pubkey_parse) vprevout)"

definition unser_tx_undo :: "(bytes \<Rightarrow> 'pk option) \<Rightarrow> ('pk \<Rightarrow> uint256 \<times> uint256) \<Rightarrow> Coin list reader" where
  "unser_tx_undo pubkey_parse coords =
     rbind ReadCompactSize (\<lambda>count.
       if unat count > MAX_INPUTS_PER_BLOCK then rfail TooManyUndoRecords
       else read_elems (unser_txin_undo pubkey_parse coords) (unat count) [])"

definition sizeof_CTxUndo :: nat where "sizeof_CTxUndo = 24"

definition ser_block_undo :: "(bytes \<Rightarrow> 'pk option) \<Rightarrow> Coin list list \<Rightarrow> bytes" where
  "ser_block_undo pubkey_parse vtxundo = ser_vector (ser_tx_undo pubkey_parse) vtxundo"

definition unser_block_undo :: "(bytes \<Rightarrow> 'pk option) \<Rightarrow> ('pk \<Rightarrow> uint256 \<times> uint256) \<Rightarrow> Coin list list reader" where
  "unser_block_undo pubkey_parse coords = unser_vector sizeof_CTxUndo (unser_tx_undo pubkey_parse coords)"

section \<open>Amounts: decompressed again\<close>

lemma strip_zeros_spec:
  assumes "strip_zeros n e = (m, k)" "e \<le> 9"
  shows "e \<le> k \<and> k \<le> 9 \<and> unat n = unat m * 10 ^ (k - e) \<and> (k < 9 \<longrightarrow> unat m mod 10 \<noteq> 0)"
  using assms
proof (induction n e rule: strip_zeros.induct)
  case (1 n e)
  have ten: "unat (10 :: u64) = 10" by simp
  show ?case
  proof (cases "n mod 10 = 0 \<and> e < 9")
    case True
    then have "strip_zeros (n div 10) (e + 1) = (m, k)" using 1(2) by (simp add: strip_zeros.simps [of n e])
    then have IH: "e + 1 \<le> k" "k \<le> 9" "unat (n div 10) = unat m * 10 ^ (k - (e + 1))" "k < 9 \<longrightarrow> unat m mod 10 \<noteq> 0"
      using 1(1) [OF True] True by auto
    from True have "unat n mod 10 = 0" by (metis unat_mod_distrib ten unat_0)
    then have "unat n = 10 * unat (n div 10)" by (simp add: unat_div_distrib) presburger
    moreover have "10 * 10 ^ (k - (e + 1)) = (10 :: nat) ^ (k - e)"
      using IH(1) by (metis Suc_diff_le Suc_eq_plus1 diff_Suc_Suc power_Suc)
    ultimately show ?thesis using IH by (simp add: mult.left_commute)
  next
    case False
    then have "n = m" "e = k" using 1(2) by (auto simp: strip_zeros.simps [of n e] split: if_splits)
    moreover have "unat n mod 10 \<noteq> 0" if "e < 9"
    proof -
      have "n mod 10 \<noteq> 0" using False that by simp
      then show ?thesis by (metis unat_mod_distrib ten unat_eq_zero)
    qed
    ultimately show ?thesis using 1(3) by simp
  qed
qed

lemma times_ten_eq: "times_ten n e = n * 10 ^ e"
  by (induction e arbitrary: n) (simp_all add: mult.assoc)

lemma unat_of_nat64: "k < 2 ^ 64 \<Longrightarrow> unat (of_nat k :: u64) = k"
  by (simp add: unat_of_nat take_bit_nat_eq_self)

lemma of_nat_mod64:
  assumes "k < 2 ^ 64"
  shows "(of_nat k :: u64) mod b = of_nat (k mod unat b)"
proof -
  have "k mod unat b < 2 ^ 64" using mod_less_eq_dividend [of k "unat b"] assms by linarith
  then show ?thesis using assms by (simp only: word_unat_eq_iff unat_mod_distrib unat_of_nat64)
qed

lemma of_nat_div64:
  assumes "k < 2 ^ 64"
  shows "(of_nat k :: u64) div b = of_nat (k div unat b)"
proof -
  have "k div unat b < 2 ^ 64" using div_le_dividend [of k "unat b"] assms by linarith
  then show ?thesis using assms by (simp only: word_unat_eq_iff unat_div_distrib unat_of_nat64)
qed

text \<open>What the compressed amount is, as a number.\<close>

lemma CompressAmount_nat:
  assumes "n \<noteq> 0" "strip_zeros n 0 = (m, e)" "unat n < 2 ^ 60"
  shows "CompressAmount n =
      of_nat (Suc (10 * (if e < 9 then 9 * (unat m div 10) + (unat m mod 10 - 1) else unat m - 1) + e))"
    and "Suc (10 * (if e < 9 then 9 * (unat m div 10) + (unat m mod 10 - 1) else unat m - 1) + e) < 2 ^ 64"
proof -
  have spec: "e \<le> 9" "unat n = unat m * 10 ^ e" "e < 9 \<Longrightarrow> unat m mod 10 \<noteq> 0"
    using strip_zeros_spec [OF assms(2)] by auto
  have "unat n \<noteq> 0" using assms(1) by (simp add: unat_eq_zero)
  then have pos: "0 < unat m" using spec(2) by (cases "unat m") auto
  have "unat m \<le> unat n" using spec(2) by simp
  then have m: "unat m < 2 ^ 60" using assms(3) by simp
  then show "Suc (10 * (if e < 9 then 9 * (unat m div 10) + (unat m mod 10 - 1) else unat m - 1) + e) < 2 ^ 64"
    using spec(1) by (auto split: if_splits)
  have words: "m div 10 = of_nat (unat m div 10)" "m mod 10 = of_nat (unat m mod 10)"
    using of_nat_div64 [of "unat m" 10] of_nat_mod64 [of "unat m" 10] m by simp_all
  show "CompressAmount n =
      of_nat (Suc (10 * (if e < 9 then 9 * (unat m div 10) + (unat m mod 10 - 1) else unat m - 1) + e))"
  proof (cases "e < 9")
    case True
    then obtain d where "unat m mod 10 = Suc d" using spec(3) not0_implies_Suc by blast
    with True show ?thesis using assms(1,2) by (simp add: CompressAmount_def words Let_def algebra_simps)
  next
    case False
    then have "e = 9" using spec(1) by simp
    moreover obtain k where k: "unat m = Suc k" using pos gr0_implies_Suc by blast
    moreover have "m = 1 + of_nat k" using arg_cong [OF k, of "of_nat :: nat \<Rightarrow> u64"] by simp
    ultimately show ?thesis using assms(1,2) by (simp add: CompressAmount_def algebra_simps)
  qed
qed

lemma DecompressAmount_nat:
  assumes "Suc (10 * q + e) < 2 ^ 64" "e \<le> 9"
  shows "DecompressAmount (of_nat (Suc (10 * q + e))) =
    (if e < 9 then of_nat (q div 9 * 10 + q mod 9 + 1) else of_nat (q + 1)) * 10 ^ e"
proof -
  have "of_nat (Suc (10 * q + e)) \<noteq> (0 :: u64)"
    using unat_of_nat64 [OF assms(1)] by (metis unat_0 nat.distinct(1))
  moreover have "of_nat (Suc (10 * q + e)) - 1 = (of_nat (10 * q + e) :: u64)" by simp
  moreover have "(of_nat (10 * q + e) :: u64) mod 10 = of_nat ((10 * q + e) mod 10)"
    "(of_nat (10 * q + e) :: u64) div 10 = of_nat ((10 * q + e) div 10)"
    using of_nat_mod64 [of "10 * q + e" 10] of_nat_div64 [of "10 * q + e" 10] assms(1) by simp_all
  moreover have "(10 * q + e) mod 10 = e" "(10 * q + e) div 10 = q" using assms(2) by auto
  moreover have "unat (of_nat e :: u64) = e" "q < 2 ^ 64" using assms by (simp_all add: unat_of_nat64)
  moreover have "(of_nat q :: u64) mod 9 = of_nat (q mod 9)" "(of_nat q :: u64) div 9 = of_nat (q div 9)"
    using of_nat_mod64 [of q 9] of_nat_div64 [of q 9] \<open>q < 2 ^ 64\<close> by simp_all
  ultimately show ?thesis by (simp add: DecompressAmount_def Let_def times_ten_eq del: of_nat_Suc of_nat_add of_nat_mult)
    (simp add: algebra_simps)
qed

lemma Decompress_CompressAmount:
  assumes "unat n < 2 ^ 60"
  shows "DecompressAmount (CompressAmount n) = n"
proof (cases "n = 0")
  case False
  obtain m e where me: "strip_zeros n 0 = (m, e)" by fastforce
  have spec: "e \<le> 9" "unat n = unat m * 10 ^ e" "e < 9 \<Longrightarrow> unat m mod 10 \<noteq> 0"
    using strip_zeros_spec [OF me] by auto
  note nat = CompressAmount_nat [OF False me assms]
  have "unat n \<noteq> 0" using False by (simp add: unat_eq_zero)
  then have pos: "0 < unat m" using spec(2) by (cases "unat m") auto
  have n: "n = m * 10 ^ e"
    using arg_cong [OF spec(2), of "of_nat :: nat \<Rightarrow> u64"] by simp
  show ?thesis
  proof (cases "e < 9")
    case True
    define q where "q = 9 * (unat m div 10) + (unat m mod 10 - 1)"
    have "unat m mod 10 - 1 < 9" using mod_less_divisor [of 10 "unat m"] by linarith
    then have "q div 9 = unat m div 10" "q mod 9 = unat m mod 10 - 1" by (simp_all add: q_def)
    then have "q div 9 * 10 + q mod 9 + 1 = unat m" using spec(3) [OF True] by simp
    moreover have "CompressAmount n = of_nat (Suc (10 * q + e))" "Suc (10 * q + e) < 2 ^ 64"
      using nat True by (simp_all only: q_def if_True)
    ultimately show ?thesis using DecompressAmount_nat [of q e] spec(1) True n by simp
  next
    case False
    then show ?thesis using nat DecompressAmount_nat [of "unat m - 1" e] spec(1) pos by (simp add: n)
  qed
qed (simp add: CompressAmount_def DecompressAmount_def)

section \<open>Scripts: decompressed again\<close>

lemma ReadVarInt_small:
  assumes "n < 128" "8 \<le> LENGTH('a::len)"
  shows "(ReadVarInt :: 'a word reader) (of_nat n # rest) = Inr (of_nat n, rest)"
proof -
  have n: "unat (of_nat n :: 'a word) = n" "unat (of_nat n :: byte) = n"
  proof -
    have "(2 :: nat) ^ 8 \<le> 2 ^ LENGTH('a)" using assms(2) by (intro power_increasing) auto
    then have "n < 2 ^ LENGTH('a)" using assms(1) by simp
    then show "unat (of_nat n :: 'a word) = n" by (simp add: unat_of_nat take_bit_nat_eq_self)
    show "unat (of_nat n :: byte) = n" using assms(1) by (simp add: unat_of_nat take_bit_nat_eq_self)
  qed
  have "(of_nat n :: 'a word) \<le> 0x7F" using n(1) assms(1) by (simp add: word_le_0x7F_iff)
  moreover have "varint_group True (of_nat n :: 'a word) = of_nat n"
  proof -
    have "unat (take_bit 7 (ucast (of_nat n :: 'a word) :: byte)) = n"
      using assms(1) by (simp add: unsigned_take_bit_eq unsigned_ucast_eq n(1) take_bit_nat_eq_self)
    then show ?thesis using n(2) by (simp add: varint_group_def mask_7 take_bit_eq_mask [symmetric] word_unat_eq_iff)
  qed
  ultimately have "WriteVarInt (of_nat n :: 'a word) = [of_nat n]"
    by (simp add: WriteVarInt_def varint_tmp.simps [of True "of_nat n"])
  then show ?thesis using ReadVarInt_Write [of "of_nat n :: 'a word" rest] by simp
qed

lemma split_template: "length s = a + n + b \<Longrightarrow> s = take a s @ take n (drop a s) @ drop (a + n) s"
  by (metis append_take_drop_id add.commute drop_drop)

lemma take_3_nth: "3 \<le> length s \<Longrightarrow> take 3 s = [s ! 0, s ! 1, s ! 2]"
  by (cases s; cases "tl s"; cases "tl (tl s)") (auto simp: numeral_3_eq_3 numeral_2_eq_2)

lemma take_2_nth: "2 \<le> length s \<Longrightarrow> take 2 s = [s ! 0, s ! 1]"
  by (cases s; cases "tl s") (auto simp: numeral_2_eq_2)

lemma IsToKeyID_Some:
  "IsToKeyID s = Some h \<longleftrightarrow> length h = 20 \<and> s = [OP_DUP, OP_HASH160, 20] @ h @ [OP_EQUALVERIFY, OP_CHECKSIG]"
proof
  assume *: "IsToKeyID s = Some h"
  then have len: "length s = 3 + 20 + 2" and h: "h = take 20 (drop 3 s)" by (auto simp: IsToKeyID_def split: if_splits)
  have "take 3 s = [OP_DUP, OP_HASH160, 20]"
    using * len by (subst take_3_nth) (auto simp: IsToKeyID_def split: if_splits)
  moreover have "drop 23 s = [s ! 23, s ! 24]"
    using Cons_nth_drop_Suc [of 23 s] Cons_nth_drop_Suc [of 24 s] len by simp
  ultimately show "length h = 20 \<and> s = [OP_DUP, OP_HASH160, 20] @ h @ [OP_EQUALVERIFY, OP_CHECKSIG]"
    using split_template [OF len] len h * by (auto simp: IsToKeyID_def split: if_splits)
qed (auto simp: IsToKeyID_def nth_append)

lemma IsToScriptID_Some:
  "IsToScriptID s = Some h \<longleftrightarrow> length h = 20 \<and> s = [OP_HASH160, 20] @ h @ [OP_EQUAL]"
proof
  assume *: "IsToScriptID s = Some h"
  then have len: "length s = 2 + 20 + 1" and h: "h = take 20 (drop 2 s)" by (auto simp: IsToScriptID_def split: if_splits)
  have "take 2 s = [OP_HASH160, 20]"
    using * len by (subst take_2_nth) (auto simp: IsToScriptID_def split: if_splits)
  moreover have "drop 22 s = [s ! 22]"
    using Cons_nth_drop_Suc [of 22 s] len by simp
  ultimately show "length h = 20 \<and> s = [OP_HASH160, 20] @ h @ [OP_EQUAL]"
    using split_template [OF len] len h * by (auto simp: IsToScriptID_def split: if_splits)
qed (auto simp: IsToScriptID_def nth_append)

text \<open>A script that pays to a key holds a short key, or a long one that is a point of the curve.\<close>

lemma IsToPubKey_Some:
  assumes "IsToPubKey pubkey_parse s = Some pubkey"
  obtains (short) x b where "length x = 32" "b = 2 \<or> b = 3" "s = [33, b] @ x @ [OP_CHECKSIG]" "take 33 pubkey = b # x"
  | (long) key where "length key = 65" "key ! 0 = 4" "s = [65] @ key @ [OP_CHECKSIG]" "pubkey_parse key \<noteq> None" "pubkey = key"
proof (cases "length s = 35 \<and> s ! 0 = 33 \<and> s ! 34 = OP_CHECKSIG \<and> (s ! 1 = 2 \<or> s ! 1 = 3)")
  case True
  then have len: "length s = 2 + 32 + 1" and pk: "pubkey = CPubKey_Set CPubKey_new (take 33 (drop 1 s))"
    using assms by (auto simp: IsToPubKey_def)
  define x where "x = take 32 (drop 2 s)"
  have "drop 34 s = [s ! 34]" using Cons_nth_drop_Suc [of 34 s] len by simp
  then have s: "s = [33, s ! 1] @ x @ [OP_CHECKSIG]"
    using split_template [OF len] True by (simp add: x_def take_2_nth)
  have x: "length x = 32" using len by (simp add: x_def)
  have "take 33 (drop 1 s) = s ! 1 # x" using x by (subst s) simp
  moreover have "take 33 (CPubKey_Set CPubKey_new (s ! 1 # x)) = s ! 1 # x"
    using True x by (auto simp: CPubKey_Set_def GetLen_def CPubKey_new_def Invalidate_def memcpy_def)
  ultimately show ?thesis using True x s pk by (intro short [of x "s ! 1"]) auto
next
  case False
  then have *: "length s = 67 \<and> s ! 0 = 65 \<and> s ! 66 = OP_CHECKSIG \<and> s ! 1 = 4"
    "CPubKey_IsFullyValid pubkey_parse (CPubKey_Set CPubKey_new (take 65 (drop 1 s)))"
    "pubkey = CPubKey_Set CPubKey_new (take 65 (drop 1 s))"
    using assms by (auto simp: IsToPubKey_def Let_def split: if_splits)
  define key where "key = take 65 (drop 1 s)"
  have len: "length s = 1 + 65 + 1" using * by simp
  have "drop 66 s = [s ! 66]" "take 1 s = [s ! 0]"
    using Cons_nth_drop_Suc [of 66 s] len by (simp_all add: take_Suc_conv_app_nth)
  then have s: "s = [65] @ key @ [OP_CHECKSIG]" using split_template [OF len] * by (simp add: key_def)
  have key: "length key = 65" "key ! 0 = 4" using len * by (simp_all add: key_def)
  then have "CPubKey_Set CPubKey_new key = key"
    by (auto simp: CPubKey_Set_def GetLen_def CPubKey_new_def Invalidate_def memcpy_def)
  then show ?thesis using key s * by (intro long [of key])
    (auto simp: key_def [symmetric] CPubKey_IsFullyValid_def CPubKey_bytes_def CPubKey_size_def GetLen_def split: if_splits)
qed

text \<open>
  What the compact formats need of secp256k1: a long key that parses is the long form of the point that
  its short form, the first coordinate with the parity of the second, parses to.
\<close>

definition curve_law :: "(bytes \<Rightarrow> 'pk option) \<Rightarrow> ('pk \<Rightarrow> uint256 \<times> uint256) \<Rightarrow> bool" where
  "curve_law pubkey_parse coords \<longleftrightarrow>
     (\<forall>x y. length x = 32 \<and> length y = 32 \<and> pubkey_parse (4 # x @ y) \<noteq> None \<longrightarrow>
        (\<exists>P. pubkey_parse ((2 + (last y AND 1)) # x) = Some P \<and> pubkey_uncompressed (coords P) = 4 # x @ y))"

lemma byte_parity_cases: "b AND 1 = 0 \<or> b AND 1 = (1 :: byte)"
  by (simp add: and_one_eq mod_2_eq_odd)

lemma Decompress_long:
  assumes "curve_law pubkey_parse coords" "length key = 65" "key ! 0 = 4" "pubkey_parse key \<noteq> None"
  shows "Decompress pubkey_parse coords (unat (4 OR (key ! 64 AND 1))) (take 32 (drop 1 key)) script = (True, [65] @ key @ [OP_CHECKSIG])"
proof -
  define x y where "x = take 32 (drop 1 key)" and "y = drop 33 key"
  have key: "key = 4 # x @ y" using split_template [of key 1 32 32] assms(2,3) by (simp add: x_def y_def take_Suc_conv_app_nth)
  have len: "length x = 32" "length y = 32" using assms(2) by (simp_all add: x_def y_def)
  then have "last y = key ! 64" by (subst last_conv_nth) (auto simp: key nth_append)
  with assms(1,4) len obtain P where P: "pubkey_parse ((2 + (key ! 64 AND 1)) # x) = Some P" "pubkey_uncompressed (coords P) = key"
    unfolding curve_law_def key by metis
  define b where "b = key ! 64 AND 1"
  have b: "b = 0 \<or> b = 1" unfolding b_def by (rule byte_parity_cases)
  have set: "CPubKey_Set CPubKey_new ((2 + b) # x) = (2 + b) # x @ replicate 32 0"
    using b len by (auto simp: CPubKey_Set_def GetLen_def CPubKey_new_def Invalidate_def memcpy_def)
  have "CPubKey_Set ((2 + b) # x @ replicate 32 0) key = key"
    using assms(2,3) len by (auto simp: CPubKey_Set_def GetLen_def memcpy_def)
  then have "CPubKey_Decompress pubkey_parse coords ((2 + b) # x @ replicate 32 0) = (True, key)"
    using P b len by (auto simp: CPubKey_Decompress_def CPubKey_IsValid_def CPubKey_bytes_def CPubKey_size_def GetLen_def b_def [symmetric])
  then show ?thesis
    unfolding b_def [symmetric] x_def [symmetric] using b set len(1) assms(2) by (auto simp: Decompress_def)
qed

lemma unser_special:
  assumes "k < nSpecialScripts" "length body = GetSpecialSize k"
  shows "unser_compressed_script pubkey_parse coords script (of_nat k # body @ rest) =
    Inr (snd (Decompress pubkey_parse coords k body script), rest)"
proof -
  have "unat (of_nat k :: u32) = k" using assms(1) by (simp add: unat_of_nat take_bit_nat_eq_self nSpecialScripts_def)
  moreover have "ReadVarInt (of_nat k # body @ rest) = Inr (of_nat k :: u32, body @ rest)"
    using assms(1) by (intro ReadVarInt_small) (simp_all add: nSpecialScripts_def)
  ultimately show ?thesis using assms by (simp add: unser_compressed_script_def rbind_def rret_def Let_def)
qed

lemma unser_plain_script:
  assumes "Compress pubkey_parse s = None" "length s + nSpecialScripts < 2 ^ 32"
  shows "unser_compressed_script pubkey_parse coords script (ser_compressed_script pubkey_parse s @ rest) =
    Inr (if length s \<le> MAX_SCRIPT_SIZE then s else script @ [OP_RETURN], rest)"
proof -
  have "unat (of_nat (length s + nSpecialScripts) :: u32) = length s + nSpecialScripts"
    using assms(2) by (simp add: unat_of_nat take_bit_nat_eq_self del: of_nat_add)
  then show ?thesis
    using assms(1)
    by (simp add: unser_compressed_script_def ser_compressed_script_def rbind_def rret_def Let_def ReadVarInt_Write del: of_nat_add)
qed

lemma compressed_script_roundtrip:
  assumes "curve_law pubkey_parse coords" "length s + nSpecialScripts < 2 ^ 32"
  shows "unser_compressed_script pubkey_parse coords script (ser_compressed_script pubkey_parse s @ rest) =
    Inr (if length s \<le> MAX_SCRIPT_SIZE then s else script @ [OP_RETURN], rest)"
proof (cases "IsToKeyID s")
  case key: (Some h)
  then have s: "s = [OP_DUP, OP_HASH160, 20] @ h @ [OP_EQUALVERIFY, OP_CHECKSIG]" "length h = 20" by (simp_all add: IsToKeyID_Some)
  then show ?thesis
    using unser_special [of 0 h pubkey_parse coords script rest] key
    by (simp add: ser_compressed_script_def Compress_def nSpecialScripts_def GetSpecialSize_def Decompress_def MAX_SCRIPT_SIZE_def)
next
  case no_key: None
  show ?thesis
  proof (cases "IsToScriptID s")
    case (Some h)
    then have "s = [OP_HASH160, 20] @ h @ [OP_EQUAL]" "length h = 20" by (simp_all add: IsToScriptID_Some)
    then show ?thesis
      using unser_special [of 1 h pubkey_parse coords script rest] no_key Some
      by (simp add: ser_compressed_script_def Compress_def nSpecialScripts_def GetSpecialSize_def Decompress_def MAX_SCRIPT_SIZE_def)
  next
    case no_script: None
    show ?thesis
    proof (cases "IsToPubKey pubkey_parse s")
      case None
      with no_key no_script show ?thesis by (intro unser_plain_script assms(2)) (simp add: Compress_def)
    next
      case (Some pubkey)
      then show ?thesis
      proof (cases rule: IsToPubKey_Some)
        case (short x b)
        then have b: "unat b = 2 \<or> unat b = 3" "of_nat (unat b) = b" by auto
        have pk: "pubkey ! 0 = b" "take 32 (drop 1 pubkey) = x"
          using arg_cong [OF short(4), of "\<lambda>l. l ! 0"] arg_cong [OF short(4), of "drop 1"] by (simp_all add: drop_take)
        have "Compress pubkey_parse s = Some (b # x)"
          using no_key no_script Some short(2) pk by (auto simp: Compress_def)
        then show ?thesis
          using unser_special [of "unat b" x pubkey_parse coords script rest] b short(1,2,3)
          by (auto simp: ser_compressed_script_def nSpecialScripts_def GetSpecialSize_def Decompress_def MAX_SCRIPT_SIZE_def)
      next
        case (long key)
        have n: "unat (4 OR (key ! 64 AND 1)) \<in> {4, 5}" using byte_parity_cases [of "key ! 64"] by auto
        have "Compress pubkey_parse s = Some ((4 OR (key ! 64 AND 1)) # take 32 (drop 1 key))"
          using no_key no_script Some long by (simp add: Compress_def)
        moreover note Decompress_long [OF assms(1) long(1,2,4), of script]
        ultimately show ?thesis
          using unser_special [of "unat (4 OR (key ! 64 AND 1))" "take 32 (drop 1 key)" pubkey_parse coords script rest] n long(1,3)
          by (auto simp: ser_compressed_script_def nSpecialScripts_def GetSpecialSize_def MAX_SCRIPT_SIZE_def)
      qed
    qed
  qed
qed

section \<open>Coins and undo data: read back\<close>

lemma varint_group_cong:
  fixes a :: "'a::len word" and b :: "'b::len word"
  assumes "unat a = unat b"
  shows "varint_group first a = varint_group first b"
proof -
  have "(ucast a :: byte) = ucast b" using assms by (simp add: word_unat_eq_iff unsigned_ucast_eq)
  then show ?thesis by (simp add: varint_group_def)
qed

text \<open>The format of a number does not depend on the width it is stored in.\<close>

lemma varint_tmp_cong:
  fixes a :: "'a::len word" and b :: "'b::len word"
  shows "unat a = unat b \<Longrightarrow> varint_tmp first a = varint_tmp first b"
proof (induction first a arbitrary: b rule: varint_tmp.induct)
  case (1 first a)
  have le: "a \<le> 0x7F \<longleftrightarrow> b \<le> 0x7F" using 1(2) by (simp add: word_le_0x7F_iff)
  show ?case
  proof (cases "a \<le> 0x7F")
    case False
    then have "unat a div 128 \<noteq> 0" by (simp add: word_le_0x7F_iff)
    then have "drop_bit 7 a \<noteq> 0" "drop_bit 7 b \<noteq> 0"
      using 1(2) by (simp_all flip: unat_eq_zero add: unat_drop_bit)
    then have "unat (drop_bit 7 a - 1) = unat (drop_bit 7 b - 1)"
      using 1(2) by (simp add: unat_minus_one unat_drop_bit)
    then show ?thesis
      using False le varint_group_cong [OF 1(2), of first] 1(1) [OF False]
      by (simp add: varint_tmp.simps [of first a] varint_tmp.simps [of first b])
  qed (use le varint_group_cong [OF 1(2), of first] in \<open>simp add: varint_tmp.simps [of first a] varint_tmp.simps [of first b]\<close>)
qed

definition wf_stored_txout :: "CTxOut \<Rightarrow> bool" where
  "wf_stored_txout txout \<longleftrightarrow> 0 \<le> nValue txout \<and> nValue txout < 2 ^ 60 \<and> length (scriptPubKey txout) \<le> MAX_SCRIPT_SIZE"

lemma compressed_txout_roundtrip:
  assumes "curve_law pubkey_parse coords" "wf_stored_txout txout"
  shows "unser_compressed_txout pubkey_parse coords old (ser_compressed_txout pubkey_parse txout @ rest) = Inr (txout, rest)"
proof -
  define n where "n = (of_int (nValue txout) :: u64)"
  have range: "0 \<le> nValue txout" "nValue txout < 2 ^ 60" and len: "length (scriptPubKey txout) \<le> MAX_SCRIPT_SIZE"
    using assms(2) by (simp_all add: wf_stored_txout_def)
  have "uint n = nValue txout" unfolding n_def using range by (simp add: unsigned_of_int take_bit_int_eq_self)
  then have "unat n < 2 ^ 60" using range(2) by (simp add: unat_eq_nat_uint nat_less_iff)
  then have amount: "DecompressAmount (CompressAmount n) = n" by (rule Decompress_CompressAmount)
  have value_n: "sint n = nValue txout" unfolding n_def using range by (intro sint_of_int64) (simp add: int64_range_def)
  have "length (scriptPubKey txout) + nSpecialScripts < 2 ^ 32"
    using len by (simp add: MAX_SCRIPT_SIZE_def nSpecialScripts_def)
  from compressed_script_roundtrip [OF assms(1) this, of "scriptPubKey old" rest]
  have "unser_compressed_script pubkey_parse coords (scriptPubKey old) (ser_compressed_script pubkey_parse (scriptPubKey txout) @ rest) =
    Inr (scriptPubKey txout, rest)" using len by simp
  then show ?thesis
    unfolding unser_compressed_txout_def ser_compressed_txout_def n_def [symmetric]
    by (simp add: rbind_def rret_def ReadVarInt_Write amount value_n)
qed

text \<open>The height and the coinbase flag, packed and unpacked.\<close>

lemma unat_code:
  assumes "h < 2 ^ 31"
  shows "unat (of_nat (h * 2 + (if cb then 1 else 0)) :: u32) = h * 2 + (if cb then 1 else 0)"
  using assms by (auto simp: unat_of_nat take_bit_nat_eq_self simp del: of_nat_add of_nat_mult)

lemma odd_unat_iff: "even (unat w) \<longleftrightarrow> even (w :: 'a::len word)"
  using bit_unsigned_iff [where ?'a = nat, of w 0] by (simp add: bit_0)

lemma code_flag:
  assumes "h < 2 ^ 31"
  shows "(of_nat (h * 2 + (if cb then 1 else 0)) :: u32) AND 1 \<noteq> 0 \<longleftrightarrow> cb"
proof -
  have "odd (unat (of_nat (h * 2 + (if cb then 1 else 0)) :: u32)) \<longleftrightarrow> cb" unfolding unat_code [OF assms] by simp
  then show ?thesis by (simp add: and_one_eq mod_2_eq_odd odd_unat_iff del: of_nat_add of_nat_mult)
qed

definition wf_stored_coin :: "Coin \<Rightarrow> bool" where
  "wf_stored_coin coin \<longleftrightarrow> wf_stored_txout (coin_out coin) \<and> coin_nHeight coin < 2 ^ 30"

lemma coin_roundtrip:
  assumes "curve_law pubkey_parse coords" "wf_stored_coin coin"
  shows "\<exists>bs. ser_coin pubkey_parse coin = Some bs \<and> unser_coin pubkey_parse coords old (bs @ rest) = Inr (coin, rest)"
proof -
  let ?code = "of_nat (coin_nHeight coin * 2 + (if fCoinBase coin then 1 else 0)) :: u32"
  have txout: "wf_stored_txout (coin_out coin)" and h: "coin_nHeight coin < 2 ^ 31" using assms(2) by (simp_all add: wf_stored_coin_def)
  have "\<not> IsSpent coin" using txout by (auto simp: IsSpent_def CTxOut_IsNull_def wf_stored_txout_def)
  moreover have "unat (drop_bit 1 ?code) = coin_nHeight coin" unfolding unat_drop_bit unat_code [OF h] by simp
  ultimately show ?thesis
    using compressed_txout_roundtrip [OF assms(1) txout] code_flag [OF h, of "fCoinBase coin"]
    by (simp add: ser_coin_def unser_coin_def rbind_def rret_def Let_def ReadVarInt_Write del: of_nat_add of_nat_mult)
qed

lemma txin_undo_roundtrip:
  assumes "curve_law pubkey_parse coords" "wf_stored_coin coin"
  shows "unser_txin_undo pubkey_parse coords (ser_txin_undo pubkey_parse coin @ rest) = Inr (coin, rest)"
proof -
  define k where "k = coin_nHeight coin * 2 + (if fCoinBase coin then 1 else 0)"
  have txout: "wf_stored_txout (coin_out coin)" and h: "coin_nHeight coin < 2 ^ 31" and k31: "k < 2 ^ 31"
    using assms(2) by (auto simp: wf_stored_coin_def k_def)
  have k: "unat (of_nat k :: u32) = k" unfolding k_def by (rule unat_code [OF h])
  have "unat (of_nat k :: varint_int) = k" using k31 by (simp add: unat_of_nat take_bit_nat_eq_self)
  then have "WriteVarInt (of_nat k :: varint_int) = WriteVarInt (of_nat k :: u32)"
    unfolding WriteVarInt_def using k by (simp add: varint_tmp_cong [of "of_nat k :: varint_int" "of_nat k :: u32"])
  moreover have "k div 2 = coin_nHeight coin" by (simp add: k_def)
  moreover have "(of_nat k :: u32) AND 1 \<noteq> 0 \<longleftrightarrow> fCoinBase coin" unfolding k_def by (rule code_flag [OF h])
  moreover have "(ReadVarInt :: varint_int reader) (0 # bs) = Inr (0, bs)" for bs
    using ReadVarInt_small [where ?'a = 31, of 0 bs] by simp
  ultimately show ?thesis
    using compressed_txout_roundtrip [OF assms(1) txout]
    unfolding ser_txin_undo_def unser_txin_undo_def k_def [symmetric]
    by (simp add: rbind_def rret_def ReadVarInt_Write k ser_writedata8_def)
qed

lemma MAX_INPUTS_PER_BLOCK_eq: "MAX_INPUTS_PER_BLOCK = 24390"
  by (simp add: MAX_INPUTS_PER_BLOCK_def MAX_BLOCK_WEIGHT_def MIN_TRANSACTION_INPUT_WEIGHT_def WITNESS_SCALE_FACTOR_def
      ser_txin_def ser_outpoint_def ser_uint256_def ser_bytes_def ser_writedata32_def WriteCompactSize_def ser_writedata8_def)

lemma tx_undo_roundtrip:
  assumes "curve_law pubkey_parse coords" "length us \<le> MAX_INPUTS_PER_BLOCK" "\<forall>coin \<in> set us. wf_stored_coin coin"
  shows "unser_tx_undo pubkey_parse coords (ser_tx_undo pubkey_parse us @ rest) = Inr (us, rest)"
proof -
  have ser: "serializer (ser_txin_undo pubkey_parse) (unser_txin_undo pubkey_parse coords) wf_stored_coin"
    by unfold_locales (rule txin_undo_roundtrip [OF assms(1)])
  have "MAX_INPUTS_PER_BLOCK \<le> MAX_SIZE"
    by (simp add: MAX_INPUTS_PER_BLOCK_eq MAX_SIZE_def)
  then have size: "length us \<le> MAX_SIZE" using assms(2) by simp
  then have "unat (of_nat (length us) :: u64) = length us" by (intro unat_of_nat64) (simp add: MAX_SIZE_def)
  then show ?thesis
    using serializer.read_elems_ser [OF ser assms(3), of "[]" rest] assms(2) size
    by (simp add: unser_tx_undo_def ser_tx_undo_def rbind_def ReadCompactSize_Write)
qed

text \<open>
  C5: the undo data of a block and the coins of the database are read back as they were written, for every
  coin with an amount below \<open>2 ^ 60\<close>, a height below \<open>2 ^ 30\<close> and a script within the size limit, whatever
  template its script matches. What is assumed of secp256k1 is that a long key is the long form of its
  own short form.
\<close>

theorem undo_data_roundtrip:
  assumes "curve_law pubkey_parse coords" "length vtxundo \<le> MAX_SIZE"
    and "\<forall>us \<in> set vtxundo. length us \<le> MAX_INPUTS_PER_BLOCK \<and> (\<forall>coin \<in> set us. wf_stored_coin coin)"
  shows "unser_block_undo pubkey_parse coords (ser_block_undo pubkey_parse vtxundo @ rest) = Inr (vtxundo, rest) \<and>
    (\<forall>us \<in> set vtxundo. \<forall>coin \<in> set us. \<exists>bs. ser_coin pubkey_parse coin = Some bs \<and>
       unser_coin pubkey_parse coords old (bs @ rest) = Inr (coin, rest))"
proof
  have ser: "serializer (ser_tx_undo pubkey_parse) (unser_tx_undo pubkey_parse coords)
      (\<lambda>us. length us \<le> MAX_INPUTS_PER_BLOCK \<and> (\<forall>coin \<in> set us. wf_stored_coin coin))"
    by unfold_locales (rule tx_undo_roundtrip [OF assms(1)], simp_all)
  show "unser_block_undo pubkey_parse coords (ser_block_undo pubkey_parse vtxundo @ rest) = Inr (vtxundo, rest)"
    unfolding unser_block_undo_def ser_block_undo_def by (rule serializer.unser_ser_vector [OF ser assms(2,3)])
  show "\<forall>us \<in> set vtxundo. \<forall>coin \<in> set us. \<exists>bs. ser_coin pubkey_parse coin = Some bs \<and>
      unser_coin pubkey_parse coords old (bs @ rest) = Inr (coin, rest)"
    using assms(3) coin_roundtrip [OF assms(1)] by blast
qed

lemma last_be_bytes: "0 < n \<Longrightarrow> last (be_bytes n w) = ucast w"
  by (cases n) (simp_all add: be_bytes_def)

theorem undo_data_roundtrip_witness:
  "let xy = (1, 2) :: uint256 \<times> uint256;
       parse = (\<lambda>bs. if bs = pubkey_uncompressed xy \<or> bs = 2 # be_bytes 32 (1 :: uint256) then Some xy else None);
       coin = Coin_new \<lparr> nValue = 5000000000, scriptPubKey = [65] @ pubkey_uncompressed xy @ [OP_CHECKSIG] \<rparr> 700 True
   in unser_block_undo parse id (ser_block_undo parse [[coin]] @ [9]) = Inr ([[coin]], [9])"
proof -
  define xy where "xy = ((1, 2) :: uint256 \<times> uint256)"
  define parse where "parse = (\<lambda>bs. if bs = pubkey_uncompressed xy \<or> bs = 2 # be_bytes 32 (1 :: uint256) then Some xy else None)"
  define coin where "coin = Coin_new \<lparr> nValue = 5000000000, scriptPubKey = [65] @ pubkey_uncompressed xy @ [OP_CHECKSIG] \<rparr> 700 True"
  have "curve_law parse id" unfolding curve_law_def
  proof (intro allI impI, elim conjE)
    fix x y assume len: "length x = 32" "length y = 32" and "parse (4 # x @ y) \<noteq> None"
    moreover have "parse (4 # x @ y) = (if 4 # x @ y = pubkey_uncompressed xy then Some xy else None)" by (simp add: parse_def)
    ultimately have "4 # x @ y = pubkey_uncompressed xy" by (simp split: if_splits)
    then have "x = be_bytes 32 (1 :: uint256)" "y = be_bytes 32 (2 :: uint256)"
      using len by (simp_all add: pubkey_uncompressed_def xy_def)
    moreover from this have "last y AND 1 = 0" by (simp add: last_be_bytes)
    ultimately show "\<exists>P. parse ((2 + (last y AND 1)) # x) = Some P \<and> pubkey_uncompressed (id P) = 4 # x @ y"
      by (intro exI [of _ xy]) (simp add: parse_def pubkey_uncompressed_def xy_def)
  qed
  moreover have "wf_stored_coin coin"
    by (simp add: coin_def wf_stored_coin_def wf_stored_txout_def Coin_new_def pubkey_uncompressed_def MAX_SCRIPT_SIZE_def)
  moreover have "1 \<le> MAX_INPUTS_PER_BLOCK" by (simp add: MAX_INPUTS_PER_BLOCK_eq)
  ultimately show ?thesis
    using undo_data_roundtrip [of parse id "[[coin]]" "[9]"]
    unfolding Let_def xy_def [symmetric] parse_def [symmetric] coin_def [symmetric] by (simp add: MAX_SIZE_def)
qed

end
