(* ===== verification/Arith.thy ===== *)
theory Arith
  imports Block
begin

text \<open>
  The 256-bit numbers of \<open>arith_uint256.h\<close> and \<open>arith_uint256.cpp\<close>: eight limbs of 32 bits, least
  significant first, with the loops of the operators over them, and the compact format of targets. The
  operators refine those of a 256-bit word.
\<close>

section \<open>Numbers as limbs\<close>

type_synonym base_uint = "u32 list"

definition WIDTH :: nat where "WIDTH = 256 div 32"

definition base_uint_of :: "u64 \<Rightarrow> base_uint" where
  "base_uint_of b = [ucast b, ucast (drop_bit 32 b)] @ replicate (WIDTH - 2) 0"

definition bu_not :: "base_uint \<Rightarrow> base_uint" where
  "bu_not pn = map (\<lambda>w. NOT w) pn"

text \<open>\<open>operator++\<close>: the loop goes on while the limb wraps to zero.\<close>

fun bu_inc :: "base_uint \<Rightarrow> base_uint" where
  "bu_inc [] = []"
| "bu_inc (w # ws) = (if w + 1 = 0 then (w + 1) # bu_inc ws else (w + 1) # ws)"

fun bu_dec :: "base_uint \<Rightarrow> base_uint" where
  "bu_dec [] = []"
| "bu_dec (w # ws) = (if w - 1 = - 1 then (w - 1) # bu_dec ws else (w - 1) # ws)"

definition bu_neg :: "base_uint \<Rightarrow> base_uint" where
  "bu_neg pn = bu_inc (bu_not pn)"

text \<open>\<open>operator+=\<close>: 64-bit sums of the limbs and the carry.\<close>

fun bu_add_loop :: "u64 \<Rightarrow> base_uint \<Rightarrow> base_uint \<Rightarrow> base_uint" where
  "bu_add_loop carry (x # xs) (y # ys) =
     (let n = carry + ucast x + ucast y in ucast (n AND 0xffffffff) # bu_add_loop (drop_bit 32 n) xs ys)"
| "bu_add_loop carry _ _ = []"

definition bu_add :: "base_uint \<Rightarrow> base_uint \<Rightarrow> base_uint" where
  "bu_add a b = bu_add_loop 0 a b"

definition bu_sub :: "base_uint \<Rightarrow> base_uint \<Rightarrow> base_uint" where
  "bu_sub a b = bu_add a (bu_neg b)"

text \<open>The shifts: each limb of the old value is or-ed into the one or two limbs it falls into.\<close>

definition or_limb :: "nat \<Rightarrow> u32 \<Rightarrow> base_uint \<Rightarrow> base_uint" where
  "or_limb i w pn = pn[i := pn ! i OR w]"

definition shl_step :: "base_uint \<Rightarrow> nat \<Rightarrow> nat \<Rightarrow> nat \<Rightarrow> base_uint \<Rightarrow> base_uint" where
  "shl_step a k shift i pn =
     (let pn1 = (if i + k + 1 < length a \<and> shift \<noteq> 0 then or_limb (i + k + 1) (drop_bit (32 - shift) (a ! i)) pn else pn)
      in if i + k < length a then or_limb (i + k) (push_bit shift (a ! i)) pn1 else pn1)"

definition bu_shl :: "base_uint \<Rightarrow> nat \<Rightarrow> base_uint" where
  "bu_shl a shift = fold (shl_step a (shift div 32) (shift mod 32)) [0..<length a] (replicate (length a) 0)"

definition shr_step :: "base_uint \<Rightarrow> nat \<Rightarrow> nat \<Rightarrow> nat \<Rightarrow> base_uint \<Rightarrow> base_uint" where
  "shr_step a k shift i pn =
     (let pn1 = (if i \<ge> k + 1 \<and> shift \<noteq> 0 then or_limb (i - k - 1) (push_bit (32 - shift) (a ! i)) pn else pn)
      in if i \<ge> k then or_limb (i - k) (drop_bit shift (a ! i)) pn1 else pn1)"

definition bu_shr :: "base_uint \<Rightarrow> nat \<Rightarrow> base_uint" where
  "bu_shr a shift = fold (shr_step a (shift div 32) (shift mod 32)) [0..<length a] (replicate (length a) 0)"

text \<open>The products.\<close>

fun bu_mul32_loop :: "u64 \<Rightarrow> u32 \<Rightarrow> base_uint \<Rightarrow> base_uint" where
  "bu_mul32_loop carry b32 [] = []"
| "bu_mul32_loop carry b32 (x # xs) =
     (let n = carry + ucast b32 * ucast x in ucast (n AND 0xffffffff) # bu_mul32_loop (drop_bit 32 n) b32 xs)"

definition bu_mul32 :: "base_uint \<Rightarrow> u32 \<Rightarrow> base_uint" where
  "bu_mul32 a b32 = bu_mul32_loop 0 b32 a"

text \<open>
  One row of the product: \<open>a.pn[j]\<close> times \<open>b\<close> is added to the limbs of the result from \<open>j\<close> on, which end
  before \<open>b\<close> does.
\<close>

fun bu_mul_row :: "u64 \<Rightarrow> u32 \<Rightarrow> base_uint \<Rightarrow> base_uint \<Rightarrow> base_uint" where
  "bu_mul_row carry aj (p # ps) (b # bs) =
     (let n = carry + ucast p + ucast aj * ucast b
      in ucast (n AND 0xffffffff) # bu_mul_row (drop_bit 32 n) aj ps bs)"
| "bu_mul_row carry aj ps _ = ps"

fun bu_mul_loop :: "base_uint \<Rightarrow> base_uint \<Rightarrow> base_uint \<Rightarrow> base_uint" where
  "bu_mul_loop [] b pn = pn"
| "bu_mul_loop (aj # as) b pn =
     (case bu_mul_row 0 aj pn b of [] \<Rightarrow> [] | p # ps \<Rightarrow> p # bu_mul_loop as b ps)"

definition bu_mul :: "base_uint \<Rightarrow> base_uint \<Rightarrow> base_uint" where
  "bu_mul a b = bu_mul_loop a b (replicate (length a) 0)"

text \<open>Comparisons, from the most significant limb down.\<close>

fun compare_down :: "base_uint \<Rightarrow> base_uint \<Rightarrow> int" where
  "compare_down (x # xs) (y # ys) = (if x < y then - 1 else if x > y then 1 else compare_down xs ys)"
| "compare_down _ _ = 0"

definition CompareTo :: "base_uint \<Rightarrow> base_uint \<Rightarrow> int" where
  "CompareTo a b = compare_down (rev a) (rev b)"

definition EqualTo :: "base_uint \<Rightarrow> u64 \<Rightarrow> bool" where
  "EqualTo a b \<longleftrightarrow>
     (if list_ex (\<lambda>w. w \<noteq> 0) (drop 2 a) then False
      else if ucast (a ! 1) \<noteq> drop_bit 32 b then False
      else ucast (a ! 0) = b AND 0xffffffff)"

text \<open>The position of the highest bit plus one.\<close>

fun top_bit :: "u32 \<Rightarrow> nat \<Rightarrow> nat" where
  "top_bit w 0 = 0"
| "top_bit w (Suc nbits) = (if w AND push_bit (Suc nbits) 1 \<noteq> 0 then Suc nbits else top_bit w nbits)"

fun bits_loop :: "base_uint \<Rightarrow> nat \<Rightarrow> nat" where
  "bits_loop pn 0 = 0"
| "bits_loop pn (Suc pos) = (if pn ! pos \<noteq> 0 then 32 * pos + top_bit (pn ! pos) 31 + 1 else bits_loop pn pos)"

definition bu_bits :: "base_uint \<Rightarrow> nat" where
  "bu_bits pn = bits_loop pn (length pn)"

text \<open>Division: the aligned divisor is shifted back and subtracted where it fits.\<close>

fun div_loop :: "nat \<Rightarrow> base_uint \<Rightarrow> base_uint \<Rightarrow> base_uint \<Rightarrow> base_uint \<times> base_uint" where
  "div_loop shift num d q =
     (let (num1, q1) = (if CompareTo num d \<ge> 0
                        then (bu_sub num d, or_limb (shift div 32) (push_bit (shift mod 32) 1) q) else (num, q))
      in case shift of 0 \<Rightarrow> (q1, num1) | Suc shift' \<Rightarrow> div_loop shift' num1 (bu_shr d 1) q1)"

declare div_loop.simps [simp del]

datatype uint_error = DivisionByZero

definition bu_div :: "base_uint \<Rightarrow> base_uint \<Rightarrow> uint_error + base_uint" where
  "bu_div a b =
     (let num_bits = bu_bits a; div_bits = bu_bits b; zero = replicate (length a) 0
      in if div_bits = 0 then Inl DivisionByZero
         else if div_bits > num_bits then Inr zero
         else let shift = num_bits - div_bits in Inr (fst (div_loop shift a (bu_shl b shift) zero)))"

definition GetLow64 :: "base_uint \<Rightarrow> u64" where
  "GetLow64 pn = ucast (pn ! 0) OR push_bit 32 (ucast (pn ! 1))"

text \<open>\<open>UintToArith256\<close> reads each limb from the little-endian bytes of a \<open>uint256\<close>.\<close>

definition UintToArith256 :: "uint256 \<Rightarrow> base_uint" where
  "UintToArith256 a = map (\<lambda>x. le_word (take 4 (drop (x * 4) (le_bytes 32 a)))) [0..<WIDTH]"

definition ArithToUint256 :: "base_uint \<Rightarrow> uint256" where
  "ArithToUint256 a = le_word (concat (map (le_bytes 4) a))"

section \<open>The compact format\<close>

text \<open>The number, and whether it is negative and whether it overflows.\<close>

definition SetCompact :: "u32 \<Rightarrow> base_uint \<times> bool \<times> bool" where
  "SetCompact nCompact =
     (let nSize = unat (drop_bit 24 nCompact);
          nWord = (if nSize \<le> 3 then drop_bit (8 * (3 - nSize)) (nCompact AND 0x007fffff) else nCompact AND 0x007fffff)
      in ((if nSize \<le> 3 then base_uint_of (ucast nWord) else bu_shl (base_uint_of (ucast nWord)) (8 * (nSize - 3))),
          nWord \<noteq> 0 \<and> nCompact AND 0x00800000 \<noteq> 0,
          nWord \<noteq> 0 \<and> (nSize > 34 \<or> (nWord > 0xff \<and> nSize > 33) \<or> (nWord > 0xffff \<and> nSize > 32))))"

text \<open>\<open>None\<close> if one of the assertions fails.\<close>

definition GetCompact :: "base_uint \<Rightarrow> bool \<Rightarrow> u32 option" where
  "GetCompact pn fNegative =
     (let nSize = (bu_bits pn + 7) div 8;
          nCompact = (if nSize \<le> 3 then ucast (push_bit (8 * (3 - nSize)) (GetLow64 pn))
                      else ucast (GetLow64 (bu_shr pn (8 * (nSize - 3))))) :: u32;
          (nCompact, nSize) = (if nCompact AND 0x00800000 \<noteq> 0 then (drop_bit 8 nCompact, nSize + 1) else (nCompact, nSize))
      in if nCompact AND NOT 0x007fffff \<noteq> 0 \<or> nSize \<ge> 256 then None
         else let n = nCompact OR push_bit 24 (of_nat nSize)
              in Some (n OR (if fNegative \<and> n AND 0x007fffff \<noteq> 0 then 0x00800000 else 0)))"

section \<open>The number that limbs stand for\<close>

primrec limbs_val :: "base_uint \<Rightarrow> nat" where
  "limbs_val [] = 0"
| "limbs_val (w # ws) = unat w + 2 ^ 32 * limbs_val ws"

lemma limbs_val_less: "limbs_val ws < 2 ^ (32 * length ws)"
proof (induction ws)
  case (Cons w ws)
  have "unat w < 2 ^ 32" using unat_less_pow [of 32 w] by simp
  then have "limbs_val (w # ws) < 2 ^ 32 * (limbs_val ws + 1)" by simp
  also have "\<dots> \<le> 2 ^ 32 * 2 ^ (32 * length ws)" using Cons.IH by (intro mult_le_mono2) simp
  finally show ?case by (simp add: power_add)
qed simp

lemma limbs_val_replicate [simp]: "limbs_val (replicate n 0) = 0"
  by (induction n) simp_all

text \<open>A digit and the rest of a number that is reduced: the carry of one step of the loops.\<close>

lemma carry_step: "n mod B + B * ((n div B + A) mod M) = (n + B * A) mod (B * M)" for n B A M :: nat
proof -
  have "(n + B * A) mod (B * M) = B * ((n + B * A) div B mod M) + (n + B * A) mod B" by (rule mod_mult2_eq)
  also have "(n + B * A) div B = (if B = 0 then 0 else n div B + A)" by simp
  finally show ?thesis by (cases "B = 0") (simp_all add: add.commute)
qed

lemma low_limb: "unat (ucast (n AND 0xffffffff :: u64) :: u32) = unat n mod 2 ^ 32"
proof -
  have "n AND 0xffffffff = take_bit 32 n" by (simp add: take_bit_eq_mask mask_eq_decr_exp)
  then show ?thesis by (simp add: unsigned_ucast_eq unsigned_take_bit_eq take_bit_nat_def)
qed

lemma high_limb: "unat (drop_bit 32 (n :: u64)) = unat n div 2 ^ 32"
  by (simp add: unat_drop_bit)

lemma unat_ucast_limb: "unat (ucast (x :: u32) :: u64) = unat x"
  using unat_less_pow [of 32 x] by (simp add: unsigned_ucast_eq take_bit_nat_eq_self)

lemma unat_add64: "unat a + unat b < 2 ^ 64 \<Longrightarrow> unat (a + b :: u64) = unat a + unat b"
  by (simp add: unat_word_ariths)

lemma unat_mult64: "unat a * unat b < 2 ^ 64 \<Longrightarrow> unat (a * b :: u64) = unat a * unat b"
  by (simp add: unat_word_ariths)

lemma limb_less: "unat (x :: u32) \<le> 2 ^ 32 - 1"
  using unat_less_pow [of 32 x] by simp

lemma bu_add_loop_val:
  assumes "length xs = length ys" "unat c < 2 ^ 32"
  shows "limbs_val (bu_add_loop c xs ys) = (unat c + limbs_val xs + limbs_val ys) mod 2 ^ (32 * length xs) \<and>
    length (bu_add_loop c xs ys) = length xs"
  using assms
proof (induction xs ys arbitrary: c rule: list_induct2)
  case (Cons x xs y ys)
  define n where "n = c + ucast x + ucast y"
  have n: "unat n = unat c + unat x + unat y"
    using Cons.prems limb_less [of x] limb_less [of y] unfolding n_def
    by (subst unat_add64; (subst unat_add64)?) (simp_all add: unat_ucast_limb)
  have "unat (drop_bit 32 n) < 2 ^ 32"
    using Cons.prems limb_less [of x] limb_less [of y] unfolding high_limb n by (simp add: less_mult_imp_div_less)
  then have IH: "limbs_val (bu_add_loop (drop_bit 32 n) xs ys) =
      (unat n div 2 ^ 32 + (limbs_val xs + limbs_val ys)) mod 2 ^ (32 * length xs)"
    "length (bu_add_loop (drop_bit 32 n) xs ys) = length xs"
    using Cons.IH [of "drop_bit 32 n"] by (simp_all add: high_limb add.assoc)
  have "limbs_val (bu_add_loop c (x # xs) (y # ys)) =
      unat n mod 2 ^ 32 + 2 ^ 32 * ((unat n div 2 ^ 32 + (limbs_val xs + limbs_val ys)) mod 2 ^ (32 * length xs))"
    by (simp only: bu_add_loop.simps Let_def n_def [symmetric] limbs_val.simps low_limb IH(1))
  also have "\<dots> = (unat n + 2 ^ 32 * (limbs_val xs + limbs_val ys)) mod (2 ^ 32 * 2 ^ (32 * length xs))" by (rule carry_step)
  also have "unat n + 2 ^ 32 * (limbs_val xs + limbs_val ys) = unat c + limbs_val (x # xs) + limbs_val (y # ys)"
    by (simp add: n algebra_simps)
  finally show ?case using IH(2) by (simp add: power_add Let_def n_def)
qed simp

lemma unat_max32: "unat (- 1 :: u32) = 2 ^ 32 - 1"
  by (simp add: unsigned_minus_1_eq_mask mask_eq_exp_minus_1)

lemma bu_not_val: "limbs_val (bu_not ws) = 2 ^ (32 * length ws) - 1 - limbs_val ws"
proof (induction ws)
  case (Cons w ws)
  have w: "unat (NOT w) + unat w = 2 ^ 32 - 1"
  proof -
    have "NOT w = - 1 - w" by (simp add: not_eq_complement)
    then have "unat (NOT w) = unat (- 1 :: u32) - unat w" by (simp add: unat_sub)
    then show ?thesis using limb_less [of w] by (simp add: unat_max32)
  qed
  have IH: "limbs_val (bu_not ws) + limbs_val ws = 2 ^ (32 * length ws) - 1"
    using Cons.IH limbs_val_less [of ws] by simp
  have "limbs_val (bu_not (w # ws)) + limbs_val (w # ws) = (2 ^ 32 - 1) + 2 ^ 32 * (2 ^ (32 * length ws) - 1)"
    unfolding w [symmetric] IH [symmetric] by (simp add: bu_not_def algebra_simps)
  also have "\<dots> = 2 ^ (32 * length (w # ws)) - 1"
    by (simp add: power_add algebra_simps diff_mult_distrib2)
  finally show ?case by simp
qed (simp add: bu_not_def)

lemma length_bu_inc [simp]: "length (bu_inc ws) = length ws" and length_bu_not [simp]: "length (bu_not ws) = length ws"
  by (induction ws rule: bu_inc.induct) (simp_all add: bu_not_def)

lemma bu_inc_val: "limbs_val (bu_inc ws) = (limbs_val ws + 1) mod 2 ^ (32 * length ws)"
proof (induction ws)
  case (Cons w ws)
  show ?case
  proof (cases "w + 1 = 0")
    case True
    then have "w = - 1" by (simp add: eq_neg_iff_add_eq_0)
    then have w: "unat w = 2 ^ 32 - 1" by (simp only: unat_max32)
    have "limbs_val (bu_inc (w # ws)) = 2 ^ 32 * ((limbs_val ws + 1) mod 2 ^ (32 * length ws))"
      using True Cons.IH by simp
    also have "\<dots> = (2 ^ 32 * (limbs_val ws + 1)) mod (2 ^ 32 * 2 ^ (32 * length ws))" by (rule mult_mod_right)
    also have "2 ^ 32 * (limbs_val ws + 1) = limbs_val (w # ws) + 1" using w by simp
    finally show ?thesis by (simp add: power_add)
  next
    case False
    then have "unat (w + 1) \<noteq> 0" by (simp add: unat_eq_zero)
    then have "unat (w + 1) = unat w + 1" using limb_less [of w] by (cases "unat w + 1 = 2 ^ 32") (simp_all add: unat_word_ariths)
    then have "limbs_val (bu_inc (w # ws)) = limbs_val (w # ws) + 1" using False by simp
    moreover have "limbs_val (bu_inc (w # ws)) < 2 ^ (32 * length (w # ws))"
      using limbs_val_less [of "bu_inc (w # ws)"] by (simp only: length_bu_inc)
    ultimately show ?thesis by (simp only: mod_less)
  qed
qed simp

lemma bu_neg_val: "limbs_val (bu_neg ws) = (2 ^ (32 * length ws) - limbs_val ws) mod 2 ^ (32 * length ws)"
  using limbs_val_less [of ws] by (simp add: bu_neg_def bu_inc_val bu_not_val Suc_diff_Suc)

lemma length_bu_neg [simp]: "length (bu_neg ws) = length ws"
  by (simp add: bu_neg_def)

lemma bu_add_val:
  "length a = length b \<Longrightarrow> limbs_val (bu_add a b) = (limbs_val a + limbs_val b) mod 2 ^ (32 * length a)"
  and length_bu_add: "length a = length b \<Longrightarrow> length (bu_add a b) = length a"
  using bu_add_loop_val [of a b 0] by (simp_all add: bu_add_def)

lemma bu_sub_val:
  assumes "length a = length b"
  shows "limbs_val (bu_sub a b) = (limbs_val a + (2 ^ (32 * length a) - limbs_val b)) mod 2 ^ (32 * length a)"
    and "length (bu_sub a b) = length a"
  using assms bu_add_val [of a "bu_neg b"] length_bu_add [of a "bu_neg b"]
  by (simp_all add: bu_sub_def bu_neg_val mod_add_right_eq)

lemma bu_sub_val_le:
  assumes "length a = length b" "limbs_val b \<le> limbs_val a"
  shows "limbs_val (bu_sub a b) = limbs_val a - limbs_val b"
proof -
  have "limbs_val a + (2 ^ (32 * length a) - limbs_val b) = (limbs_val a - limbs_val b) + 2 ^ (32 * length a)"
    using assms limbs_val_less [of b] by simp
  then have "limbs_val (bu_sub a b) = ((limbs_val a - limbs_val b) + 2 ^ (32 * length a)) mod 2 ^ (32 * length a)"
    using bu_sub_val(1) [OF assms(1)] by (simp only:)
  moreover have "limbs_val a - limbs_val b < 2 ^ (32 * length a)" using limbs_val_less [of a] by simp
  ultimately show ?thesis by (simp only: mod_add_self2 mod_less)
qed

lemma unat_mult_limbs: "unat (ucast (a :: u32) * ucast (b :: u32) :: u64) = unat a * unat b"
proof -
  have "unat a * unat b \<le> (2 ^ 32 - 1) * (2 ^ 32 - 1)" by (intro mult_le_mono limb_less)
  then show ?thesis by (subst unat_mult64) (simp_all add: unat_ucast_limb)
qed

lemma limb_product_bound: "unat (a :: u32) * unat (b :: u32) \<le> (2 ^ 32 - 1) * (2 ^ 32 - 1)"
  by (intro mult_le_mono limb_less)

lemma bu_mul32_loop_val:
  "unat c < 2 ^ 32 \<Longrightarrow> limbs_val (bu_mul32_loop c b xs) = (unat c + unat b * limbs_val xs) mod 2 ^ (32 * length xs) \<and>
    length (bu_mul32_loop c b xs) = length xs"
proof (induction xs arbitrary: c)
  case (Cons x xs)
  define n where "n = c + ucast b * ucast x"
  have n: "unat n = unat c + unat b * unat x"
    unfolding n_def using Cons.prems limb_product_bound [of b x] by (subst unat_add64) (simp_all add: unat_mult_limbs)
  have "unat (drop_bit 32 n) < 2 ^ 32"
    using Cons.prems limb_product_bound [of b x] unfolding high_limb n by (simp add: less_mult_imp_div_less)
  then have IH: "limbs_val (bu_mul32_loop (drop_bit 32 n) b xs) = (unat n div 2 ^ 32 + unat b * limbs_val xs) mod 2 ^ (32 * length xs)"
    "length (bu_mul32_loop (drop_bit 32 n) b xs) = length xs"
    using Cons.IH [of "drop_bit 32 n"] by (simp_all add: high_limb)
  have "limbs_val (bu_mul32_loop c b (x # xs)) =
      unat n mod 2 ^ 32 + 2 ^ 32 * ((unat n div 2 ^ 32 + unat b * limbs_val xs) mod 2 ^ (32 * length xs))"
    by (simp only: bu_mul32_loop.simps Let_def n_def [symmetric] limbs_val.simps low_limb IH(1))
  also have "\<dots> = (unat n + 2 ^ 32 * (unat b * limbs_val xs)) mod (2 ^ 32 * 2 ^ (32 * length xs))" by (rule carry_step)
  also have "unat n + 2 ^ 32 * (unat b * limbs_val xs) = unat c + unat b * limbs_val (x # xs)"
    by (simp add: n algebra_simps)
  finally show ?case using IH(2) by (simp add: power_add Let_def n_def)
qed simp

lemma bu_mul_row_val:
  "length ps \<le> length bs \<Longrightarrow> unat c < 2 ^ 32 \<Longrightarrow>
     limbs_val (bu_mul_row c a ps bs) = (unat c + limbs_val ps + unat a * limbs_val bs) mod 2 ^ (32 * length ps) \<and>
     length (bu_mul_row c a ps bs) = length ps"
proof (induction c a ps bs rule: bu_mul_row.induct)
  case (1 c a p ps b bs)
  define n where "n = c + ucast p + ucast a * ucast b"
  have n: "unat n = unat c + unat p + unat a * unat b"
    unfolding n_def using 1(3) limb_product_bound [of a b] limb_less [of p]
    by (subst unat_add64; (subst unat_add64)?) (simp_all add: unat_mult_limbs unat_ucast_limb)
  have "unat (drop_bit 32 n) < 2 ^ 32"
    using 1(3) limb_product_bound [of a b] limb_less [of p] unfolding high_limb n by (simp add: less_mult_imp_div_less)
  then have IH: "limbs_val (bu_mul_row (drop_bit 32 n) a ps bs) =
      (unat n div 2 ^ 32 + (limbs_val ps + unat a * limbs_val bs)) mod 2 ^ (32 * length ps)"
    "length (bu_mul_row (drop_bit 32 n) a ps bs) = length ps"
    using 1(1) [of n] 1(2) by (simp_all add: n_def high_limb add.assoc)
  have "limbs_val (bu_mul_row c a (p # ps) (b # bs)) =
      unat n mod 2 ^ 32 + 2 ^ 32 * ((unat n div 2 ^ 32 + (limbs_val ps + unat a * limbs_val bs)) mod 2 ^ (32 * length ps))"
    by (simp only: bu_mul_row.simps Let_def n_def [symmetric] limbs_val.simps low_limb IH(1))
  also have "\<dots> = (unat n + 2 ^ 32 * (limbs_val ps + unat a * limbs_val bs)) mod (2 ^ 32 * 2 ^ (32 * length ps))" by (rule carry_step)
  also have "unat n + 2 ^ 32 * (limbs_val ps + unat a * limbs_val bs) = unat c + limbs_val (p # ps) + unat a * limbs_val (b # bs)"
    by (simp add: n algebra_simps)
  finally show ?case using IH(2) by (simp add: power_add Let_def n_def)
qed simp_all

lemma bu_mul_loop_val:
  "length as = length pn \<Longrightarrow> length pn \<le> length b \<Longrightarrow>
     limbs_val (bu_mul_loop as b pn) = (limbs_val pn + limbs_val as * limbs_val b) mod 2 ^ (32 * length pn) \<and>
     length (bu_mul_loop as b pn) = length pn"
proof (induction as b pn rule: bu_mul_loop.induct)
  case (2 aj as b pn)
  let ?n = "length as"
  have pn: "length pn = Suc ?n" using 2(2) by simp
  have row: "limbs_val (bu_mul_row 0 aj pn b) = (limbs_val pn + unat aj * limbs_val b) mod 2 ^ (32 * length pn)"
    "length (bu_mul_row 0 aj pn b) = Suc ?n" using bu_mul_row_val [of pn b 0 aj] 2(3) pn by simp_all
  then obtain p ps where ps: "bu_mul_row 0 aj pn b = p # ps" "length ps = ?n" by (cases "bu_mul_row 0 aj pn b") auto
  have IH: "limbs_val (bu_mul_loop as b ps) = (limbs_val ps + limbs_val as * limbs_val b) mod 2 ^ (32 * ?n)"
    "length (bu_mul_loop as b ps) = ?n" using 2(1) [OF ps(1)] 2(3) ps(2) pn by simp_all
  let ?M = "2 ^ 32 * 2 ^ (32 * ?n) :: nat"
  have M: "2 ^ (32 * length pn) = ?M" unfolding pn by (simp add: power_add)
  have p: "unat p div 2 ^ 32 = 0" "unat p mod 2 ^ 32 = unat p" using limb_less [of p] by simp_all
  have "limbs_val (bu_mul_loop (aj # as) b pn) = unat p + 2 ^ 32 * ((limbs_val ps + limbs_val as * limbs_val b) mod 2 ^ (32 * ?n))"
    using ps(1) IH(1) by simp
  also have "\<dots> = (limbs_val (p # ps) + 2 ^ 32 * (limbs_val as * limbs_val b)) mod ?M"
    using carry_step [of "unat p" "2 ^ 32" "limbs_val ps + limbs_val as * limbs_val b" "2 ^ (32 * ?n)"]
    unfolding p by (simp add: algebra_simps)
  also have "\<dots> = ((limbs_val pn + unat aj * limbs_val b) mod ?M + 2 ^ 32 * (limbs_val as * limbs_val b)) mod ?M"
    using row(1) unfolding ps(1) M by simp
  also have "\<dots> = (limbs_val pn + unat aj * limbs_val b + 2 ^ 32 * (limbs_val as * limbs_val b)) mod ?M"
    by (rule mod_add_left_eq)
  also have "limbs_val pn + unat aj * limbs_val b + 2 ^ 32 * (limbs_val as * limbs_val b) = limbs_val pn + limbs_val (aj # as) * limbs_val b"
    by (simp add: algebra_simps)
  finally show ?case using ps(1) IH(2) by (simp add: M pn power_add)
qed simp

section \<open>Shifts\<close>

lemma bit_limb_cons:
  fixes a b :: nat
  assumes "a < 2 ^ n"
  shows "bit (a + 2 ^ n * b) j \<longleftrightarrow> (if j < n then bit a j else bit b (j - n))"
proof -
  have "take_bit n (a + 2 ^ n * b) = a" "drop_bit n (a + 2 ^ n * b) = b"
    using assms by (simp_all add: take_bit_nat_def drop_bit_nat_def)
  then show ?thesis
    using bit_take_bit_iff [of n "a + 2 ^ n * b" j] bit_drop_bit_eq [of n "a + 2 ^ n * b"] by (auto simp: fun_eq_iff)
qed

lemma bit_limbs_val: "bit (limbs_val ws) j \<longleftrightarrow> j < 32 * length ws \<and> bit (ws ! (j div 32)) (j mod 32)"
proof (induction ws arbitrary: j)
  case (Cons w ws)
  have w: "unat w < 2 ^ 32" using unat_less_pow [of 32 w] by simp
  have word: "bit (unat w) i = bit w i" if "i < 32" for i using that by (simp add: bit_unsigned_iff)
  show ?case
  proof (cases "j < 32")
    case True
    then show ?thesis using bit_limb_cons [OF w, of "limbs_val ws" j] word by simp
  next
    case False
    then have "j div 32 = Suc ((j - 32) div 32)" "j mod 32 = (j - 32) mod 32"
      by (simp_all add: le_div_geq le_mod_geq)
    then show ?thesis using False bit_limb_cons [OF w, of "limbs_val ws" j] Cons.IH [of "j - 32"] by auto
  qed
qed simp

text \<open>The limbs after some steps of a left shift: what the steps so far have or-ed in.\<close>

definition shl_limb :: "base_uint \<Rightarrow> nat \<Rightarrow> nat \<Rightarrow> nat \<Rightarrow> nat \<Rightarrow> u32" where
  "shl_limb a k s t m =
     (if k \<le> m \<and> m - k < t then push_bit s (a ! (m - k)) else 0) OR
     (if k + 1 \<le> m \<and> m - k - 1 < t \<and> s \<noteq> 0 then drop_bit (32 - s) (a ! (m - k - 1)) else 0)"

lemma length_or_limb [simp]: "length (or_limb i w pn) = length pn"
  by (simp add: or_limb_def)

lemma nth_or_limb: "i < length pn \<Longrightarrow> m < length pn \<Longrightarrow> or_limb i w pn ! m = (if m = i then pn ! m OR w else pn ! m)"
  by (simp add: or_limb_def nth_list_update)

lemma shl_fold:
  "t \<le> length a \<Longrightarrow> length (fold (shl_step a k s) [0..<t] (replicate (length a) 0)) = length a \<and>
     (\<forall>m < length a. fold (shl_step a k s) [0..<t] (replicate (length a) 0) ! m = shl_limb a k s t m)"
proof (induction t)
  case 0
  then show ?case by (simp add: shl_limb_def)
next
  case (Suc t)
  define pn where "pn = fold (shl_step a k s) [0..<t] (replicate (length a) 0)"
  have pn: "length pn = length a" "\<forall>m < length a. pn ! m = shl_limb a k s t m" using Suc by (simp_all add: pn_def)
  have step: "fold (shl_step a k s) [0..<Suc t] (replicate (length a) 0) = shl_step a k s t pn" by (simp add: pn_def)
  have "shl_step a k s t pn ! m = shl_limb a k s (Suc t) m" if "m < length a" for m
  proof -
    consider "m = t + k" | "m = t + k + 1" | "m \<noteq> t + k" "m \<noteq> t + k + 1" by blast
    then show ?thesis
      using that pn by cases (auto simp: shl_step_def shl_limb_def Let_def nth_or_limb or.assoc or.commute or.left_commute)
  qed
  moreover have "length (shl_step a k s t pn) = length a" using pn by (simp add: shl_step_def Let_def)
  ultimately show ?case unfolding step by simp
qed

lemma limb_index: "x = u + 32 * d \<Longrightarrow> u < 32 \<Longrightarrow> x div 32 = d \<and> x mod 32 = (u :: nat)"
  by simp

lemma bu_shl_val:
  "limbs_val (bu_shl a n) = limbs_val a * 2 ^ n mod 2 ^ (32 * length a)" and length_bu_shl: "length (bu_shl a n) = length a"
proof -
  define k s where "k = n div 32" and "s = n mod 32"
  have n: "n = 32 * k + s" "s < 32" by (simp_all add: k_def s_def)
  have fold: "length (bu_shl a n) = length a" "\<And>m. m < length a \<Longrightarrow> bu_shl a n ! m = shl_limb a k s (length a) m"
    using shl_fold [of "length a" a k s] by (simp_all add: bu_shl_def k_def s_def)
  then show "length (bu_shl a n) = length a" by simp
  have "bit (limbs_val (bu_shl a n)) j \<longleftrightarrow> bit (take_bit (32 * length a) (push_bit n (limbs_val a))) j" for j
  proof (cases "j < 32 * length a")
    case True
    define m t where "m = j div 32" and "t = j mod 32"
    have j: "j = 32 * m + t" "t < 32" by (simp_all add: m_def t_def)
    have m: "m < length a" using True by (simp add: m_def less_mult_imp_div_less mult.commute)
    have "bit (limbs_val (bu_shl a n)) j \<longleftrightarrow> bit (shl_limb a k s (length a) m) t"
      using True fold m by (simp add: bit_limbs_val m_def t_def)
    also have "\<dots> \<longleftrightarrow> n \<le> j \<and> bit (limbs_val a) (j - n)"
    proof (cases "s \<le> t")
      case True
      have "j - n = (t - s) + 32 * (m - k)" if "k \<le> m" using that True j n by (simp add: algebra_simps)
      from limb_index [OF this] have "k \<le> m \<Longrightarrow> (j - n) div 32 = m - k \<and> (j - n) mod 32 = t - s" using j by simp
      moreover have "n \<le> j \<longleftrightarrow> k \<le> m" using j n True by auto
      ultimately show ?thesis using True j n m
        by (auto simp: shl_limb_def bit_or_iff bit_push_bit_iff bit_drop_bit_eq bit_limbs_val dest: bit_imp_le_length)
    next
      case False
      have "j - n = (32 - s + t) + 32 * (m - k - 1)" if "k + 1 \<le> m" using that False j n by (simp add: algebra_simps)
      from limb_index [OF this] have "k + 1 \<le> m \<Longrightarrow> (j - n) div 32 = m - k - 1 \<and> (j - n) mod 32 = 32 - s + t" using n False by simp
      moreover have "n \<le> j \<longleftrightarrow> k + 1 \<le> m" using j n False by auto
      ultimately show ?thesis using False j n m
        by (auto simp: shl_limb_def bit_or_iff bit_push_bit_iff bit_drop_bit_eq bit_limbs_val)
    qed
    finally show ?thesis using True by (simp add: bit_take_bit_iff bit_push_bit_iff)
  qed (simp add: bit_limbs_val fold(1) bit_take_bit_iff)
  then have "limbs_val (bu_shl a n) = take_bit (32 * length a) (push_bit n (limbs_val a))" by (intro bit_eqI) blast
  then show "limbs_val (bu_shl a n) = limbs_val a * 2 ^ n mod 2 ^ (32 * length a)"
    by (simp add: take_bit_nat_def push_bit_nat_def)
qed

definition shr_limb :: "base_uint \<Rightarrow> nat \<Rightarrow> nat \<Rightarrow> nat \<Rightarrow> nat \<Rightarrow> u32" where
  "shr_limb a k s t m =
     (if m + k < t then drop_bit s (a ! (m + k)) else 0) OR
     (if m + k + 1 < t \<and> s \<noteq> 0 then push_bit (32 - s) (a ! (m + k + 1)) else 0)"

lemma shr_fold:
  "t \<le> length a \<Longrightarrow> length (fold (shr_step a k s) [0..<t] (replicate (length a) 0)) = length a \<and>
     (\<forall>m < length a. fold (shr_step a k s) [0..<t] (replicate (length a) 0) ! m = shr_limb a k s t m)"
proof (induction t)
  case 0
  then show ?case by (simp add: shr_limb_def)
next
  case (Suc t)
  define pn where "pn = fold (shr_step a k s) [0..<t] (replicate (length a) 0)"
  have pn: "length pn = length a" "\<forall>m < length a. pn ! m = shr_limb a k s t m" using Suc by (simp_all add: pn_def)
  have step: "fold (shr_step a k s) [0..<Suc t] (replicate (length a) 0) = shr_step a k s t pn" by (simp add: pn_def)
  have "shr_step a k s t pn ! m = shr_limb a k s (Suc t) m" if "m < length a" for m
  proof -
    consider "t = m + k" | "t = m + k + 1" | "t \<noteq> m + k" "t \<noteq> m + k + 1" by blast
    then show ?thesis
      using that pn Suc.prems
      by cases (auto simp: shr_step_def shr_limb_def Let_def nth_or_limb or.assoc or.commute or.left_commute)
  qed
  moreover have "length (shr_step a k s t pn) = length a" using pn by (simp add: shr_step_def Let_def)
  ultimately show ?case unfolding step by simp
qed

lemma bu_shr_val: "limbs_val (bu_shr a n) = limbs_val a div 2 ^ n" and length_bu_shr: "length (bu_shr a n) = length a"
proof -
  define k s where "k = n div 32" and "s = n mod 32"
  have n: "n = 32 * k + s" "s < 32" by (simp_all add: k_def s_def)
  have fold: "length (bu_shr a n) = length a" "\<And>m. m < length a \<Longrightarrow> bu_shr a n ! m = shr_limb a k s (length a) m"
    using shr_fold [of "length a" a k s] by (simp_all add: bu_shr_def k_def s_def)
  then show "length (bu_shr a n) = length a" by simp
  have "bit (limbs_val (bu_shr a n)) j \<longleftrightarrow> bit (drop_bit n (limbs_val a)) j" for j
  proof (cases "j < 32 * length a")
    case True
    define m t where "m = j div 32" and "t = j mod 32"
    have j: "j = 32 * m + t" "t < 32" by (simp_all add: m_def t_def)
    have m: "m < length a" using True by (simp add: m_def less_mult_imp_div_less mult.commute)
    have "bit (limbs_val (bu_shr a n)) j \<longleftrightarrow> bit (shr_limb a k s (length a) m) t"
      using True fold m by (simp add: bit_limbs_val m_def t_def)
    also have "\<dots> \<longleftrightarrow> bit (limbs_val a) (n + j)"
    proof (cases "s + t < 32")
      case True
      have "n + j = (s + t) + 32 * (m + k)" using j n by simp
      from limb_index [OF this True] show ?thesis using True j n
        by (auto simp: shr_limb_def bit_or_iff bit_push_bit_iff bit_drop_bit_eq bit_limbs_val)
    next
      case False
      then have "n + j = (s + t - 32) + 32 * (m + k + 1)" "s + t - 32 < 32" using j n by simp_all
      from limb_index [OF this] show ?thesis using False j n
        by (auto simp: shr_limb_def bit_or_iff bit_push_bit_iff bit_drop_bit_eq bit_limbs_val add.commute [of t s] dest: bit_imp_le_length)
    qed
    finally show ?thesis by (simp add: bit_drop_bit_eq)
  qed (simp add: bit_limbs_val fold(1) bit_drop_bit_eq)
  then have "limbs_val (bu_shr a n) = drop_bit n (limbs_val a)" by (intro bit_eqI) blast
  then show "limbs_val (bu_shr a n) = limbs_val a div 2 ^ n" by (simp add: drop_bit_nat_def)
qed

section \<open>Comparison and size\<close>

lemma limbs_val_append: "limbs_val (xs @ ys) = limbs_val xs + 2 ^ (32 * length xs) * limbs_val ys"
  by (induction xs) (simp_all add: power_add algebra_simps)

lemma compare_limbs: "p < B \<Longrightarrow> q < B \<Longrightarrow> x < y \<Longrightarrow> p + B * x < q + B * y" for p q B x y :: nat
proof -
  assume *: "p < B" "q < B" "x < y"
  then have "p + B * x < B * (x + 1)" by simp
  also have "\<dots> \<le> B * y" using * by (intro mult_le_mono2) simp
  finally show ?thesis by simp
qed

lemma CompareTo_val:
  "length a = length b \<Longrightarrow> CompareTo a b =
     (if limbs_val a < limbs_val b then - 1 else if limbs_val a > limbs_val b then 1 else 0)"
proof (induction a arbitrary: b rule: rev_induct)
  case (snoc x a)
  then obtain y b' where b: "b = b' @ [y]" "length a = length b'" by (cases b rule: rev_cases) auto
  let ?B = "2 ^ (32 * length a) :: nat"
  have less: "limbs_val a < ?B" "limbs_val b' < ?B" using limbs_val_less [of a] limbs_val_less [of b'] b by simp_all
  have vals: "limbs_val (a @ [x]) = limbs_val a + ?B * unat x" "limbs_val b = limbs_val b' + ?B * unat y"
    by (simp_all add: limbs_val_append b)
  have "CompareTo (a @ [x]) b = (if x < y then - 1 else if x > y then 1 else CompareTo a b')"
    by (simp add: CompareTo_def b)
  moreover have "x < y \<Longrightarrow> limbs_val (a @ [x]) < limbs_val b" "y < x \<Longrightarrow> limbs_val b < limbs_val (a @ [x])"
    unfolding vals using compare_limbs [OF less] compare_limbs [OF less(2,1)] by (simp_all add: word_less_nat_alt)
  ultimately show ?case using snoc.IH [OF b(2)] by (auto simp: vals)
qed (simp add: CompareTo_def)

lemma top_bit_spec: "w \<noteq> 0 \<Longrightarrow> unat w < 2 ^ Suc n \<Longrightarrow> n < 32 \<Longrightarrow> 2 ^ top_bit w n \<le> unat w \<and> unat w < 2 ^ Suc (top_bit w n)"
proof (induction w n rule: top_bit.induct)
  case (1 w)
  then show ?case by (simp add: word_gt_0_no) (metis One_nat_def Suc_leI unat_gt_0)
next
  case (2 w n)
  have bit: "w AND push_bit (Suc n) 1 \<noteq> 0 \<longleftrightarrow> bit w (Suc n)"
    by (simp add: push_bit_of_1 and_exp_eq_0_iff_not_bit del: power_Suc)
  show ?case
  proof (cases "bit w (Suc n)")
    case True
    then have "bit (unat w) (Suc n)" using 2(4) by (simp add: bit_unsigned_iff)
    then have "2 ^ Suc n \<le> unat w" by (metis bit_take_bit_iff less_irrefl not_le take_bit_nat_eq_self)
    then show ?thesis using True 2(3) bit by simp
  next
    case False
    then have "\<not> bit (unat w) (Suc n)" by (simp add: bit_unsigned_iff)
    moreover have "take_bit (Suc (Suc n)) (unat w) = unat w" using 2(3) by (rule take_bit_nat_eq_self)
    ultimately have "take_bit (Suc n) (unat w) = unat w" by (simp add: take_bit_Suc_from_most [of "Suc n"] del: power_Suc)
    then have "unat w < 2 ^ Suc n" by (metis take_bit_nat_less_exp)
    then show ?thesis using 2 False bit by simp
  qed
qed

lemma bits_loop_spec:
  "k \<le> length pn \<Longrightarrow> (if limbs_val (take k pn) = 0 then bits_loop pn k = 0
     else 0 < bits_loop pn k \<and> 2 ^ (bits_loop pn k - 1) \<le> limbs_val (take k pn) \<and> limbs_val (take k pn) < 2 ^ bits_loop pn k)"
proof (induction k)
  case (Suc k)
  let ?B = "2 ^ (32 * k) :: nat" and ?w = "pn ! k"
  have split: "limbs_val (take (Suc k) pn) = limbs_val (take k pn) + ?B * unat ?w"
    using Suc.prems by (simp add: take_Suc_conv_app_nth limbs_val_append min_absorb2)
  show ?case
  proof (cases "?w = 0")
    case True
    then show ?thesis using Suc split by (auto split: if_splits)
  next
    case False
    define t where "t = top_bit ?w 31"
    have t: "2 ^ t \<le> unat ?w" "unat ?w < 2 ^ Suc t"
      using top_bit_spec [OF False, of 31] unat_less_pow [of 32 ?w] by (simp_all add: t_def)
    have less: "limbs_val (take k pn) < ?B" using limbs_val_less [of "take k pn"] Suc.prems by (simp add: min_absorb2)
    have "2 ^ (32 * k + t) \<le> limbs_val (take (Suc k) pn)"
      unfolding split power_add by (intro trans_le_add2 mult_le_mono2 t(1))
    moreover have "limbs_val (take (Suc k) pn) < 2 ^ (32 * k + t + 1)"
    proof -
      have "limbs_val (take (Suc k) pn) < ?B * (unat ?w + 1)" using less by (simp add: split)
      also have "\<dots> \<le> ?B * 2 ^ Suc t" using t(2) by (intro mult_le_mono2) simp
      finally show ?thesis by (simp add: power_add)
    qed
    moreover have "bits_loop pn (Suc k) = 32 * k + t + 1" using False by (simp add: t_def)
    ultimately show ?thesis by auto
  qed
qed simp

lemma bu_bits_spec:
  "if limbs_val pn = 0 then bu_bits pn = 0
   else 0 < bu_bits pn \<and> 2 ^ (bu_bits pn - 1) \<le> limbs_val pn \<and> limbs_val pn < 2 ^ bu_bits pn"
  using bits_loop_spec [of "length pn" pn] by (auto simp: bu_bits_def split: if_splits)

section \<open>Division\<close>

lemma or_limb_val:
  assumes "i < 32 * length q" "\<not> bit (limbs_val q) i"
  shows "limbs_val (or_limb (i div 32) (push_bit (i mod 32) 1) q) = limbs_val q + 2 ^ i"
proof -
  let ?w = "push_bit (i mod 32) 1 :: u32"
  have len: "i div 32 < length q" using assms(1) by (simp add: less_mult_imp_div_less mult.commute)
  have "bit (limbs_val (or_limb (i div 32) ?w q)) j \<longleftrightarrow> bit (limbs_val q OR 2 ^ i) j" for j
  proof -
    have "j div 32 = i div 32 \<and> j mod 32 = i mod 32 \<longleftrightarrow> j = i" by (metis div_mult_mod_eq)
    then show ?thesis
      using len assms(1) by (auto simp: bit_limbs_val bit_or_iff bit_exp_iff nth_or_limb push_bit_of_1
          less_mult_imp_div_less mult.commute split: if_splits)
  qed
  then have "limbs_val (or_limb (i div 32) ?w q) = limbs_val q OR 2 ^ i" by (intro bit_eqI) blast
  also have "\<dots> = limbs_val q + 2 ^ i"
    using assms(2) by (intro disjunctive_add [symmetric]) (auto simp: bit_exp_iff)
  finally show ?thesis .
qed

lemma exp_dvd_not_bit: "2 ^ Suc i dvd v \<Longrightarrow> \<not> bit (v :: nat) i"
  by (auto simp: bit_iff_odd elim!: dvdE)

lemma div_loop_val:
  assumes "0 < V" "length num = n" "length d = n" "length q = n" "shift < 32 * n"
    and "limbs_val d = V * 2 ^ shift" "limbs_val num < V * 2 ^ Suc shift" "2 ^ Suc shift dvd limbs_val q"
  shows "limbs_val (fst (div_loop shift num d q)) = limbs_val q + limbs_val num div V \<and>
    length (fst (div_loop shift num d q)) = n"
  using assms(2-)
proof (induction shift arbitrary: num d q)
  case 0
  have bit: "\<not> bit (limbs_val q) 0" using 0(7) by (simp add: bit_0)
  have or: "limbs_val (or_limb 0 1 q) = limbs_val q + 1" using or_limb_val [of 0 q] bit 0 by simp
  show ?case
  proof (cases "limbs_val d \<le> limbs_val num")
    case True
    then have "limbs_val num div V = 1" using 0 assms(1) by (intro div_nat_eqI) simp_all
    then show ?thesis using True or 0 CompareTo_val [of num d] by (simp add: div_loop.simps)
  next
    case False
    then have "limbs_val num div V = 0" using 0 by simp
    then show ?thesis using False 0 CompareTo_val [of num d] by (simp add: div_loop.simps)
  qed
next
  case (Suc s)
  let ?q1 = "or_limb (Suc s div 32) (push_bit (Suc s mod 32) 1) q"
  have d: "limbs_val (bu_shr d 1) = V * 2 ^ s" "length (bu_shr d 1) = n"
    using Suc.prems by (simp_all add: bu_shr_val length_bu_shr)
  have bit: "\<not> bit (limbs_val q) (Suc s)" by (rule exp_dvd_not_bit [OF Suc.prems(7)])
  have or: "limbs_val ?q1 = limbs_val q + 2 ^ Suc s" by (rule or_limb_val) (use bit Suc.prems in simp_all)
  show ?case
  proof (cases "limbs_val d \<le> limbs_val num")
    case True
    let ?num1 = "bu_sub num d"
    have num1: "limbs_val ?num1 = limbs_val num - V * 2 ^ Suc s" "length ?num1 = n"
      using True Suc.prems bu_sub_val_le [of num d] bu_sub_val(2) [of num d] by simp_all
    have less: "limbs_val ?num1 < V * 2 ^ Suc s" using Suc.prems(6) num1 by simp
    have "2 ^ Suc s dvd limbs_val ?q1" using Suc.prems(7) unfolding or by (metis dvd_add dvd_refl dvd_trans le_imp_power_dvd lessI less_imp_le)
    then have "limbs_val (fst (div_loop s ?num1 (bu_shr d 1) ?q1)) = limbs_val ?q1 + limbs_val ?num1 div V \<and>
        length (fst (div_loop s ?num1 (bu_shr d 1) ?q1)) = n"
      using Suc.prems num1 less d by (intro Suc.IH) simp_all
    moreover have "limbs_val num div V = 2 ^ Suc s + limbs_val ?num1 div V"
    proof -
      have "limbs_val num = 2 ^ Suc s * V + limbs_val ?num1" using True num1 Suc.prems(5) by simp
      then show ?thesis using assms(1) by (simp only: div_mult_self3)
    qed
    ultimately show ?thesis using True Suc.prems CompareTo_val [of num d] or by (simp add: div_loop.simps [of "Suc s"])
  next
    case False
    then have less: "limbs_val num < V * 2 ^ Suc s" using Suc.prems by simp
    have "2 ^ Suc s dvd limbs_val q" using Suc.prems(7) by (metis dvd_trans le_imp_power_dvd lessI less_imp_le)
    then have "limbs_val (fst (div_loop s num (bu_shr d 1) q)) = limbs_val q + limbs_val num div V \<and>
        length (fst (div_loop s num (bu_shr d 1) q)) = n"
      using Suc.prems less d by (intro Suc.IH) simp_all
    then show ?thesis using False Suc.prems CompareTo_val [of num d] by (simp add: div_loop.simps [of "Suc s"])
  qed
qed

lemma bu_div_val:
  assumes "length a = length b"
  shows "if limbs_val b = 0 then bu_div a b = Inl DivisionByZero
    else \<exists>q. bu_div a b = Inr q \<and> limbs_val q = limbs_val a div limbs_val b \<and> length q = length a"
proof (cases "limbs_val b = 0")
  case True
  then show ?thesis using bu_bits_spec [of b] by (simp add: bu_div_def)
next
  case False
  let ?V = "limbs_val b"
  have V: "0 < bu_bits b" "2 ^ (bu_bits b - 1) \<le> ?V" "?V < 2 ^ bu_bits b" using bu_bits_spec [of b] False by simp_all
  have a: "limbs_val a < 2 ^ bu_bits a" using bu_bits_spec [of a] by (auto split: if_splits)
  show ?thesis
  proof (cases "bu_bits b > bu_bits a")
    case True
    then have "(2 :: nat) ^ bu_bits a \<le> 2 ^ (bu_bits b - 1)" by (intro power_increasing) simp_all
    then have "limbs_val a < ?V" using a V(2) by linarith
    then have "limbs_val a div ?V = 0" by simp
    then show ?thesis using True False V by (simp add: bu_div_def Let_def)
  next
    case le: False
    define shift where "shift = bu_bits a - bu_bits b"
    have pos: "0 < bu_bits a" using le V by simp
    then have nz: "2 ^ (bu_bits a - 1) \<le> limbs_val a" using bu_bits_spec [of a] by (auto split: if_splits)
    have "(2 :: nat) ^ (bu_bits a - 1) < 2 ^ (32 * length a)" by (rule order.strict_trans1 [OF nz limbs_val_less])
    then have "bu_bits a - 1 < 32 * length a" by (simp add: power_strict_increasing_iff)
    then have bits: "bu_bits a \<le> 32 * length a" "shift < 32 * length a" using pos V by (simp_all add: shift_def)
    have "?V * 2 ^ shift < 2 ^ bu_bits b * 2 ^ shift" using V by simp
    also have "\<dots> = 2 ^ bu_bits a" using le by (simp add: shift_def flip: power_add)
    also have "\<dots> \<le> 2 ^ (32 * length a)" using bits by (intro power_increasing) simp_all
    finally have d: "limbs_val (bu_shl b shift) = ?V * 2 ^ shift" using assms by (simp add: bu_shl_val)
    have "limbs_val a < 2 ^ bu_bits a" by (rule a)
    also have "\<dots> = 2 ^ (bu_bits b - 1) * 2 ^ Suc shift" using le V by (simp add: shift_def flip: power_Suc power_add)
    also have "\<dots> \<le> ?V * 2 ^ Suc shift" using V by (intro mult_le_mono1)
    finally have "limbs_val a < ?V * 2 ^ Suc shift" .
    then have "limbs_val (fst (div_loop shift a (bu_shl b shift) (replicate (length a) 0))) = limbs_val a div ?V \<and>
        length (fst (div_loop shift a (bu_shl b shift) (replicate (length a) 0))) = length a"
      using div_loop_val [of ?V a "length a" "bu_shl b shift" "replicate (length a) 0" shift] False d bits assms
      by (simp add: length_bu_shl)
    then show ?thesis using False V le by (simp add: bu_div_def Let_def shift_def)
  qed
qed

section \<open>Refinement of 256-bit words\<close>

definition arith_word :: "base_uint \<Rightarrow> 256 word" where
  "arith_word pn = of_nat (limbs_val pn)"

lemma of_nat_mod256: "(of_nat (n mod 2 ^ 256) :: 256 word) = of_nat n"
  by (simp add: word_unat_eq_iff unat_of_nat take_bit_nat_def)

lemma unat_arith_word: "length pn = WIDTH \<Longrightarrow> unat (arith_word pn) = limbs_val pn"
  using limbs_val_less [of pn] by (simp add: arith_word_def WIDTH_def unat_of_nat take_bit_nat_eq_self)

lemma limbs_val_inject: "length a = length b \<Longrightarrow> limbs_val a = limbs_val b \<longleftrightarrow> a = b"
proof (induction a b rule: list_induct2)
  case (Cons x a y b)
  have "limbs_val (x # a) = limbs_val (y # b) \<Longrightarrow> unat x = unat y \<and> limbs_val a = limbs_val b"
  proof
    assume eq: "limbs_val (x # a) = limbs_val (y # b)"
    have "limbs_val (x # a) mod 2 ^ 32 = unat x" "limbs_val (y # b) mod 2 ^ 32 = unat y"
      using limb_less [of x] limb_less [of y] by simp_all
    then show "unat x = unat y" using eq by metis
    then show "limbs_val a = limbs_val b" using eq by simp
  qed
  then show ?case using Cons.IH by (auto simp: word_unat_eq_iff)
qed simp

lemma arith_word_inject: "length a = WIDTH \<Longrightarrow> length b = WIDTH \<Longrightarrow> arith_word a = arith_word b \<longleftrightarrow> a = b"
  by (metis limbs_val_inject unat_arith_word)

lemma bu_not_word: "length a = WIDTH \<Longrightarrow> arith_word (bu_not a) = NOT (arith_word a)"
proof -
  assume len: "length a = WIDTH"
  have "of_nat (2 ^ 256 - 1 - limbs_val a) = (of_nat (2 ^ 256 - 1) :: 256 word) - of_nat (limbs_val a)"
    using limbs_val_less [of a] len by (intro of_nat_diff) (simp add: WIDTH_def)
  also have "(of_nat (2 ^ 256 - 1) :: 256 word) = - 1" by simp
  finally show ?thesis using len by (simp add: arith_word_def bu_not_val WIDTH_def not_eq_complement)
qed

lemma bu_arith_word:
  assumes "length a = WIDTH" "length b = WIDTH"
  shows "arith_word (bu_add a b) = arith_word a + arith_word b" "arith_word (bu_sub a b) = arith_word a - arith_word b"
    and "arith_word (bu_mul a b) = arith_word a * arith_word b" "arith_word (bu_mul32 a c) = arith_word a * ucast c"
    and "arith_word (bu_shl a n) = push_bit n (arith_word a)" "arith_word (bu_shr a n) = drop_bit n (arith_word a)"
proof -
  have w: "32 * length a = 256" "limbs_val b \<le> 2 ^ 256" using assms limbs_val_less [of b] by (simp_all add: WIDTH_def)
  show "arith_word (bu_add a b) = arith_word a + arith_word b"
    using assms bu_add_val [of a b] unfolding arith_word_def w by (simp only: of_nat_mod256 of_nat_add)
  have "of_nat (2 ^ 256 - limbs_val b) = - (of_nat (limbs_val b) :: 256 word)"
    using w(2) by (subst of_nat_diff) simp_all
  then show "arith_word (bu_sub a b) = arith_word a - arith_word b"
    using assms bu_sub_val(1) [of a b] unfolding arith_word_def w by (simp only: of_nat_mod256 of_nat_add) simp
  have "limbs_val (bu_mul a b) = limbs_val a * limbs_val b mod 2 ^ 256"
    using assms bu_mul_loop_val [of a "replicate (length a) 0" b] by (simp add: bu_mul_def WIDTH_def)
  then show "arith_word (bu_mul a b) = arith_word a * arith_word b"
    unfolding arith_word_def by (simp only: of_nat_mod256 of_nat_mult)
  have "limbs_val (bu_mul32 a c) = unat c * limbs_val a mod 2 ^ 256"
    using bu_mul32_loop_val [of 0 c a] by (simp add: bu_mul32_def w)
  then have "arith_word (bu_mul32 a c) = of_nat (unat c) * of_nat (limbs_val a)"
    unfolding arith_word_def by (simp only: of_nat_mod256 of_nat_mult)
  then show "arith_word (bu_mul32 a c) = arith_word a * ucast c" by (simp add: arith_word_def mult.commute)
  show "arith_word (bu_shl a n) = push_bit n (arith_word a)"
    unfolding arith_word_def bu_shl_val w of_nat_mod256 by (simp add: push_bit_eq_mult)
  have "limbs_val a < 2 ^ 256" using limbs_val_less [of a] w(1) by simp
  then show "arith_word (bu_shr a n) = drop_bit n (arith_word a)"
    unfolding arith_word_def bu_shr_val
    by (simp add: word_unat_eq_iff unat_drop_bit unat_of_nat take_bit_nat_eq_self order.strict_trans1 [OF div_le_dividend])
qed

lemma bu_div_word:
  assumes "length a = WIDTH" "length b = WIDTH"
  shows "if arith_word b = 0 then bu_div a b = Inl DivisionByZero
    else \<exists>q. bu_div a b = Inr q \<and> arith_word q = arith_word a div arith_word b \<and> length q = WIDTH"
proof (cases "limbs_val b = 0")
  case True
  then show ?thesis using bu_div_val [of a b] assms by (simp add: arith_word_def)
next
  case False
  then have nz: "arith_word b \<noteq> 0" using unat_arith_word [OF assms(2)] by (metis unat_0)
  from False bu_div_val [of a b] assms obtain q where
    q: "bu_div a b = Inr q" "limbs_val q = limbs_val a div limbs_val b" "length q = WIDTH" by auto
  have "unat (arith_word q) = unat (arith_word a div arith_word b)"
    using assms q by (simp only: unat_div_distrib unat_arith_word)
  with q nz show ?thesis by (simp add: word_unat_eq_iff)
qed

lemma CompareTo_word:
  assumes "length a = WIDTH" "length b = WIDTH"
  shows "CompareTo a b = (if arith_word a < arith_word b then - 1 else if arith_word a > arith_word b then 1 else 0)"
  using CompareTo_val [of a b] assms by (simp add: word_less_nat_alt unat_arith_word)

lemma length_ops:
  assumes "length a = WIDTH" "length b = WIDTH"
  shows "length (bu_add a b) = WIDTH" "length (bu_sub a b) = WIDTH" "length (bu_mul a b) = WIDTH" "length (bu_mul32 a c) = WIDTH"
    "length (bu_shl a n) = WIDTH" "length (bu_shr a n) = WIDTH" "length (bu_not a) = WIDTH" "length (bu_neg a) = WIDTH"
  using assms length_bu_add [of a b] bu_sub_val(2) [of a b] bu_mul_loop_val [of a "replicate (length a) 0" b]
    bu_mul32_loop_val [of 0 c a]
  by (simp_all add: bu_mul_def bu_mul32_def length_bu_shl length_bu_shr)

text \<open>
  C6: the operators on 256-bit numbers, computed limb by limb with carries, shifts across limbs and
  division by repeated subtraction, are those of unsigned arithmetic modulo \<open>2 ^ 256\<close>. Division fails
  exactly for a divisor of zero, comparison orders the numbers, and \<open>bits\<close> is the length of the binary
  number.
\<close>

theorem arith_uint256_refines:
  assumes "length a = WIDTH" "length b = WIDTH"
  shows "arith_word (bu_add a b) = arith_word a + arith_word b \<and> arith_word (bu_sub a b) = arith_word a - arith_word b \<and>
    arith_word (bu_mul a b) = arith_word a * arith_word b \<and> arith_word (bu_mul32 a c) = arith_word a * ucast c \<and>
    arith_word (bu_shl a n) = push_bit n (arith_word a) \<and> arith_word (bu_shr a n) = drop_bit n (arith_word a) \<and>
    arith_word (bu_not a) = NOT (arith_word a) \<and>
    (if arith_word b = 0 then bu_div a b = Inl DivisionByZero
     else \<exists>q. bu_div a b = Inr q \<and> arith_word q = arith_word a div arith_word b) \<and>
    CompareTo a b = (if arith_word a < arith_word b then - 1 else if arith_word a > arith_word b then 1 else 0) \<and>
    (if arith_word a = 0 then bu_bits a = 0
     else 0 < bu_bits a \<and> 2 ^ (bu_bits a - 1) \<le> unat (arith_word a) \<and> unat (arith_word a) < 2 ^ bu_bits a)"
proof -
  have "arith_word a = 0 \<longleftrightarrow> limbs_val a = 0"
    using unat_arith_word [OF assms(1)] by (metis unat_0 unat_eq_zero)
  then show ?thesis
    using bu_arith_word [OF assms] bu_not_word [OF assms(1)] bu_div_word [OF assms] CompareTo_word [OF assms] bu_bits_spec [of a]
    by (auto simp: unat_arith_word [OF assms(1)] split: if_splits)
qed

theorem arith_uint256_refines_witness:
  "arith_word (bu_mul (base_uint_of 0x100000001) (base_uint_of 0x200000003)) = 0x20000000500000003"
proof -
  have len: "length (base_uint_of w) = WIDTH" for w by (simp add: base_uint_of_def WIDTH_def)
  have "arith_word (base_uint_of 0x100000001) = 0x100000001" "arith_word (base_uint_of 0x200000003) = 0x200000003"
    by (simp_all add: arith_word_def base_uint_of_def WIDTH_def)
  then show ?thesis using arith_uint256_refines [OF len len, of "0x100000001" "0x200000003"] by simp
qed

end
