(* ===== verification/Chain.thy ===== *)
theory Chain
  imports Arith
begin

text \<open>
  The index of blocks (\<open>chain.h\<close>, \<open>chain.cpp\<close>): entries in a store, reached by pointers, with the skip
  pointers and the walks that use them, the active chain and the amount of work.
\<close>

section \<open>Index entries\<close>

type_synonym block_ptr = nat

record CBlockIndex =
  phashBlock :: uint256
  pprev :: "block_ptr option"
  pskip :: "block_ptr option"
  bi_nHeight :: nat
  nChainWork :: base_uint
  bi_nVersion :: u32
  bi_nTime :: u32
  bi_nBits :: u32
  nTimeMax :: u32

type_synonym block_store = "block_ptr \<rightharpoonup> CBlockIndex"

text \<open>Following a pointer that is not one of an entry, and a failed assertion.\<close>

datatype index_error = BadPointer | IndexAssertion

definition deref :: "block_store \<Rightarrow> block_ptr \<Rightarrow> index_error + CBlockIndex" where
  "deref m p = (case m p of None \<Rightarrow> Inl BadPointer | Some b \<Rightarrow> Inr b)"

definition bi_GetBlockTime :: "CBlockIndex \<Rightarrow> int" where
  "bi_GetBlockTime b = uint (bi_nTime b)"

section \<open>Ancestors\<close>

definition InvertLowestOne :: "nat \<Rightarrow> nat" where
  "InvertLowestOne n = n AND (n - 1)"

definition GetSkipHeight :: "nat \<Rightarrow> nat" where
  "GetSkipHeight height =
     (if height < 2 then 0
      else if height AND 1 \<noteq> 0 then InvertLowestOne (InvertLowestOne (height - 1)) + 1
      else InvertLowestOne height)"

lemma and_nat_le: "m AND n \<le> (n :: nat)"
proof -
  have "int (m AND n) \<le> int n" unfolding of_nat_and_eq by (rule AND_upper2) simp
  then show ?thesis by simp
qed

lemma InvertLowestOne_less: "0 < n \<Longrightarrow> InvertLowestOne n < n"
  using and_nat_le [of n "n - 1"] by (simp add: InvertLowestOne_def)

lemma GetSkipHeight_less: "0 < height \<Longrightarrow> GetSkipHeight height < height"
proof -
  assume h: "0 < height"
  have "InvertLowestOne k \<le> k" for k using InvertLowestOne_less [of k] by (cases "k = 0") (simp_all add: InvertLowestOne_def)
  then have "InvertLowestOne (InvertLowestOne (height - 1)) \<le> InvertLowestOne (height - 1)" .
  moreover have "2 \<le> height \<Longrightarrow> InvertLowestOne (height - 1) < height - 1" by (rule InvertLowestOne_less) simp
  ultimately show ?thesis using h InvertLowestOne_less [OF h] by (auto simp: GetSkipHeight_def)
qed

text \<open>The loop of \<open>GetAncestor\<close>; it ends because either pointer leads to a smaller height.\<close>

function ancestor_walk :: "block_store \<Rightarrow> nat \<Rightarrow> block_ptr \<Rightarrow> nat \<Rightarrow> index_error + block_ptr" where
  "ancestor_walk m height p heightWalk =
     (if heightWalk > height
      then let heightSkip = GetSkipHeight heightWalk; heightSkipPrev = GetSkipHeight (heightWalk - 1) in
        case deref m p of
          Inl e \<Rightarrow> Inl e
        | Inr b \<Rightarrow>
           (case pskip b of
              Some skip \<Rightarrow>
                if heightSkip = height \<or>
                   (heightSkip > height \<and> \<not> (heightSkipPrev + 2 < heightSkip \<and> heightSkipPrev \<ge> height))
                then ancestor_walk m height skip heightSkip
                else (case pprev b of None \<Rightarrow> Inl IndexAssertion | Some q \<Rightarrow> ancestor_walk m height q (heightWalk - 1))
            | None \<Rightarrow> (case pprev b of None \<Rightarrow> Inl IndexAssertion | Some q \<Rightarrow> ancestor_walk m height q (heightWalk - 1)))
      else Inr p)"
  by pat_completeness auto
termination
  by (relation "measure (\<lambda>(m, height, p, heightWalk). heightWalk)") (auto simp: GetSkipHeight_less)

declare ancestor_walk.simps [simp del]

text \<open>\<open>None\<close> is the null pointer.\<close>

definition GetAncestor :: "block_store \<Rightarrow> block_ptr \<Rightarrow> int \<Rightarrow> index_error + block_ptr option" where
  "GetAncestor m p height =
     sbind (deref m p) (\<lambda>b.
       if height > int (bi_nHeight b) \<or> height < 0 then Inr None
       else sbind (ancestor_walk m (nat height) p (bi_nHeight b)) (\<lambda>q. Inr (Some q)))"

definition BuildSkip :: "block_store \<Rightarrow> block_ptr \<Rightarrow> index_error + block_store" where
  "BuildSkip m p =
     sbind (deref m p) (\<lambda>b.
       case pprev b of
         None \<Rightarrow> Inr m
       | Some q \<Rightarrow> sbind (GetAncestor m q (int (GetSkipHeight (bi_nHeight b)))) (\<lambda>s. Inr (m(p \<mapsto> b\<lparr> pskip := s \<rparr>))))"

text \<open>The median of the times of up to eleven blocks, from this one back.\<close>

definition nMedianTimeSpan :: nat where "nMedianTimeSpan = 11"

fun past_times :: "nat \<Rightarrow> block_store \<Rightarrow> block_ptr option \<Rightarrow> index_error + int list" where
  "past_times 0 m p = Inr []"
| "past_times (Suc n) m None = Inr []"
| "past_times (Suc n) m (Some p) =
     sbind (deref m p) (\<lambda>b. sbind (past_times n m (pprev b)) (\<lambda>ts. Inr (bi_GetBlockTime b # ts)))"

definition GetMedianTimePast :: "block_store \<Rightarrow> block_ptr \<Rightarrow> index_error + int" where
  "GetMedianTimePast m p = sbind (past_times nMedianTimeSpan m (Some p)) (\<lambda>ts. Inr (sort ts ! (length ts div 2)))"

section \<open>Work\<close>

definition GetBlockProof :: "CBlockIndex \<Rightarrow> uint_error + base_uint" where
  "GetBlockProof b =
     (case SetCompact (bi_nBits b) of (bnTarget, fNegative, fOverflow) \<Rightarrow>
        if fNegative \<or> fOverflow \<or> EqualTo bnTarget 0 then Inr (base_uint_of 0)
        else sbind (bu_div (bu_not bnTarget) (bu_add bnTarget (base_uint_of 1))) (\<lambda>q. Inr (bu_add q (base_uint_of 1))))"

definition GetBlockProofEquivalentTime :: "CBlockIndex \<Rightarrow> CBlockIndex \<Rightarrow> CBlockIndex \<Rightarrow> u64 \<Rightarrow> uint_error + int" where
  "GetBlockProofEquivalentTime to from_b tip nPowTargetSpacing =
     (let (r, sign) = (if CompareTo (nChainWork to) (nChainWork from_b) > 0
                       then (bu_sub (nChainWork to) (nChainWork from_b), 1) else (bu_sub (nChainWork from_b) (nChainWork to), - 1))
      in sbind (GetBlockProof tip) (\<lambda>proof.
         sbind (bu_div (bu_mul r (base_uint_of nPowTargetSpacing)) proof) (\<lambda>r.
           Inr (if bu_bits r > 63 then sign * (2 ^ 63 - 1) else sign * uint (GetLow64 r)))))"

section \<open>The active chain\<close>

type_synonym CChain = "block_ptr option list"

fun set_tip_loop :: "block_store \<Rightarrow> nat \<Rightarrow> block_ptr option \<Rightarrow> CChain \<Rightarrow> index_error + CChain" where
  "set_tip_loop m fuel None v = Inr v"
| "set_tip_loop m 0 (Some p) v = Inl IndexAssertion"
| "set_tip_loop m (Suc fuel) (Some p) v =
     sbind (deref m p) (\<lambda>b.
       if v ! bi_nHeight b = Some p then Inr v
       else set_tip_loop m fuel (pprev b) (v[bi_nHeight b := Some p]))"

definition SetTip :: "block_store \<Rightarrow> block_ptr option \<Rightarrow> CChain \<Rightarrow> index_error + CChain" where
  "SetTip m pindex v =
     (case pindex of
        None \<Rightarrow> Inr []
      | Some p \<Rightarrow> sbind (deref m p) (\<lambda>b.
          let n = bi_nHeight b + 1 in
          set_tip_loop m (n + 1) (Some p) (take n v @ replicate (n - length v) None)))"

definition CChain_nth :: "CChain \<Rightarrow> int \<Rightarrow> block_ptr option" where
  "CChain_nth v nHeight = (if nHeight < 0 \<or> nHeight \<ge> int (length v) then None else v ! nat nHeight)"

definition CChain_Height :: "CChain \<Rightarrow> int" where
  "CChain_Height v = int (length v) - 1"

definition CChain_Contains :: "block_store \<Rightarrow> CChain \<Rightarrow> block_ptr \<Rightarrow> index_error + bool" where
  "CChain_Contains m v p = sbind (deref m p) (\<lambda>b. Inr (CChain_nth v (int (bi_nHeight b)) = Some p))"

definition CChain_Next :: "block_store \<Rightarrow> CChain \<Rightarrow> block_ptr \<Rightarrow> index_error + block_ptr option" where
  "CChain_Next m v p =
     sbind (deref m p) (\<lambda>b. sbind (CChain_Contains m v p) (\<lambda>c.
       Inr (if c then CChain_nth v (int (bi_nHeight b) + 1) else None)))"

text \<open>The loops of \<open>FindFork\<close> and \<open>LastCommonAncestor\<close>, with the heights as their bound.\<close>

fun fork_loop :: "block_store \<Rightarrow> CChain \<Rightarrow> nat \<Rightarrow> block_ptr option \<Rightarrow> index_error + block_ptr option" where
  "fork_loop m v fuel None = Inr None"
| "fork_loop m v 0 (Some p) = Inl IndexAssertion"
| "fork_loop m v (Suc fuel) (Some p) =
     sbind (CChain_Contains m v p) (\<lambda>c.
       if c then Inr (Some p) else sbind (deref m p) (\<lambda>b. fork_loop m v fuel (pprev b)))"

definition FindFork :: "block_store \<Rightarrow> CChain \<Rightarrow> block_ptr option \<Rightarrow> index_error + block_ptr option" where
  "FindFork m v pindex =
     (case pindex of
        None \<Rightarrow> Inr None
      | Some p \<Rightarrow> sbind (deref m p) (\<lambda>b.
          sbind (if int (bi_nHeight b) > CChain_Height v then GetAncestor m p (CChain_Height v) else Inr (Some p)) (\<lambda>q.
            fork_loop m v (bi_nHeight b + 2) q)))"

fun common_loop :: "block_store \<Rightarrow> nat \<Rightarrow> block_ptr option \<Rightarrow> block_ptr option \<Rightarrow> index_error + block_ptr option" where
  "common_loop m fuel (Some p) (Some q) =
     (if p = q then Inr (Some p)
      else case fuel of
             0 \<Rightarrow> Inl IndexAssertion
           | Suc fuel' \<Rightarrow> sbind (deref m p) (\<lambda>b. sbind (deref m q) (\<lambda>c. common_loop m fuel' (pprev b) (pprev c))))"
| "common_loop m fuel None None = Inr None"
| "common_loop m fuel _ _ = Inl IndexAssertion"

definition LastCommonAncestor :: "block_store \<Rightarrow> block_ptr \<Rightarrow> block_ptr \<Rightarrow> index_error + block_ptr option" where
  "LastCommonAncestor m pa pb =
     sbind (deref m pa) (\<lambda>a. sbind (deref m pb) (\<lambda>b.
       sbind (if bi_nHeight a > bi_nHeight b
              then sbind (GetAncestor m pa (int (bi_nHeight b))) (\<lambda>pa'. Inr (pa', Some pb))
              else if bi_nHeight b > bi_nHeight a
              then sbind (GetAncestor m pb (int (bi_nHeight a))) (\<lambda>pb'. Inr (Some pa, pb'))
              else Inr (Some pa, Some pb)) (\<lambda>(pa', pb').
         common_loop m (bi_nHeight a + 1) pa' pb')))"

section \<open>Well-formed indexes\<close>

text \<open>The entry some number of steps back along the predecessors.\<close>

primrec up :: "block_store \<Rightarrow> nat \<Rightarrow> block_ptr \<Rightarrow> block_ptr option" where
  "up m 0 p = Some p"
| "up m (Suc n) p = (case m p of None \<Rightarrow> None | Some b \<Rightarrow> (case pprev b of None \<Rightarrow> None | Some q \<Rightarrow> up m n q))"

definition wf_entry :: "block_store \<Rightarrow> block_ptr \<Rightarrow> CBlockIndex \<Rightarrow> bool" where
  "wf_entry m p b \<longleftrightarrow>
     (case pprev b of None \<Rightarrow> bi_nHeight b = 0 | Some q \<Rightarrow> \<exists>c. m q = Some c \<and> bi_nHeight b = Suc (bi_nHeight c)) \<and>
     (\<forall>s. pskip b = Some s \<longrightarrow> up m (bi_nHeight b - GetSkipHeight (bi_nHeight b)) p = Some s)"

definition wf_index :: "block_store \<Rightarrow> bool" where
  "wf_index m \<longleftrightarrow> (\<forall>p b. m p = Some b \<longrightarrow> wf_entry m p b)"

lemma up_add: "up m (i + j) p = (case up m i p of None \<Rightarrow> None | Some q \<Rightarrow> up m j q)"
  by (induction i arbitrary: p) (auto split: option.split)

text \<open>In a well-formed index every step back reaches an entry of the height it should.\<close>

lemma up_exists:
  assumes "wf_index m"
  shows "m p = Some b \<Longrightarrow> n \<le> bi_nHeight b \<Longrightarrow> \<exists>q c. up m n p = Some q \<and> m q = Some c \<and> bi_nHeight c = bi_nHeight b - n"
proof (induction n arbitrary: p b)
  case (Suc n)
  have "wf_entry m p b" using assms Suc.prems(1) by (simp add: wf_index_def)
  with Suc.prems(2) obtain q c where q: "pprev b = Some q" "m q = Some c" "bi_nHeight b = Suc (bi_nHeight c)"
    by (auto simp: wf_entry_def split: option.splits)
  with Suc.IH [OF q(2)] Suc.prems show ?case by auto
qed simp

lemma ancestor_walk_up:
  assumes "wf_index m"
  shows "m p = Some b \<Longrightarrow> bi_nHeight b = hw \<Longrightarrow> h \<le> hw \<Longrightarrow> \<exists>q. ancestor_walk m h p hw = Inr q \<and> up m (hw - h) p = Some q"
proof (induction hw arbitrary: p b rule: less_induct)
  case (less hw)
  show ?case
  proof (cases "h < hw")
    case False
    then show ?thesis using less.prems by (simp add: ancestor_walk.simps)
  next
    case True
    have wf: "wf_entry m p b" using assms less.prems(1) by (simp add: wf_index_def)
    then obtain q c where q: "pprev b = Some q" "m q = Some c" "hw = Suc (bi_nHeight c)"
      using True less.prems(2) by (auto simp: wf_entry_def split: option.splits)
    have by_prev: "\<exists>r. ancestor_walk m h q (hw - 1) = Inr r \<and> up m (hw - h) p = Some r"
    proof -
      have "hw - 1 < hw" "bi_nHeight c = hw - 1" "h \<le> hw - 1" using True q(3) by simp_all
      from less.IH [OF this(1) q(2) this(2,3)] obtain r where "ancestor_walk m h q (hw - 1) = Inr r" "up m (hw - 1 - h) q = Some r" by blast
      moreover have "hw - h = Suc (hw - 1 - h)" using True by simp
      ultimately show ?thesis using less.prems(1) q(1) by simp
    qed
    let ?hs = "GetSkipHeight hw" and ?hp = "GetSkipHeight (hw - 1)"
    have skip: "?hs < hw" using GetSkipHeight_less [of hw] True by simp
    show ?thesis
    proof (cases "\<exists>s. pskip b = Some s \<and> (?hs = h \<or> (?hs > h \<and> \<not> (?hp + 2 < ?hs \<and> ?hp \<ge> h)))")
      case taken: True
      then obtain s where s: "pskip b = Some s" "?hs = h \<or> (?hs > h \<and> \<not> (?hp + 2 < ?hs \<and> ?hp \<ge> h))" by blast
      then have ups: "up m (hw - ?hs) p = Some s" using wf less.prems(2) by (simp add: wf_entry_def)
      then obtain d where d: "m s = Some d" "bi_nHeight d = ?hs"
        using up_exists [OF assms less.prems(1), of "hw - ?hs"] less.prems(2) skip by auto
      have "h \<le> ?hs" using s(2) by auto
      from less.IH [OF skip d this] obtain r where r: "ancestor_walk m h s ?hs = Inr r" "up m (?hs - h) s = Some r" by blast
      have "hw - h = (hw - ?hs) + (?hs - h)" using s(2) skip by auto
      then have "up m (hw - h) p = Some r" using ups r(2) by (simp add: up_add)
      then show ?thesis using True less.prems(1) s r(1) by (subst ancestor_walk.simps) (simp add: deref_def Let_def)
    next
      case False
      then show ?thesis using True less.prems(1) q(1) by_prev
        by (subst ancestor_walk.simps) (auto simp: deref_def Let_def split: option.split)
    qed
  qed
qed

lemma GetAncestor_up:
  assumes "wf_index m" "m p = Some b"
  shows "GetAncestor m p h = Inr (if h < 0 \<or> h > int (bi_nHeight b) then None else up m (bi_nHeight b - nat h) p)"
proof (cases "h < 0 \<or> h > int (bi_nHeight b)")
  case False
  then have "nat h \<le> bi_nHeight b" by (simp add: nat_le_iff)
  then obtain q where "ancestor_walk m (nat h) p (bi_nHeight b) = Inr q" "up m (bi_nHeight b - nat h) p = Some q"
    using ancestor_walk_up [OF assms, of "bi_nHeight b" "nat h"] by auto
  with False assms(2) show ?thesis by (simp add: GetAncestor_def deref_def)
qed (use assms(2) in \<open>auto simp: GetAncestor_def deref_def\<close>)

section \<open>Adding a block\<close>

lemma up_upd:
  assumes "wf_index m" "m p = None" "m q = Some b" "n \<le> bi_nHeight b"
  shows "up (m(p \<mapsto> d)) n q = up m n q"
  using assms(3,4)
proof (induction n arbitrary: q b)
  case (Suc n)
  have "q \<noteq> p" using Suc.prems assms(2) by auto
  have "wf_entry m q b" using assms(1) Suc.prems(1) by (simp add: wf_index_def)
  with Suc.prems obtain r c where "pprev b = Some r" "m r = Some c" "bi_nHeight b = Suc (bi_nHeight c)"
    by (auto simp: wf_entry_def split: option.splits)
  with Suc \<open>q \<noteq> p\<close> show ?case by simp
qed simp

text \<open>A new entry on top of another, with the skip pointer that \<open>BuildSkip\<close> sets, keeps the index well-formed.\<close>

lemma BuildSkip_wf:
  assumes "wf_index m" "m p = None" "m q = Some c" "pprev b = Some q" "pskip b = None" "bi_nHeight b = Suc (bi_nHeight c)"
  obtains m' where "BuildSkip (m(p \<mapsto> b)) p = Inr m'" "wf_index m'" "\<forall>r. r \<noteq> p \<longrightarrow> m' r = m r"
    "m' p = Some (b\<lparr> pskip := up m (bi_nHeight c - GetSkipHeight (bi_nHeight b)) q \<rparr>)"
proof -
  let ?h = "GetSkipHeight (bi_nHeight b)" and ?m = "m(p \<mapsto> b)"
  have "q \<noteq> p" using assms(2,3) by auto
  have hs: "?h \<le> bi_nHeight c" using GetSkipHeight_less [of "bi_nHeight b"] assms(6) by simp
  have wf0: "wf_index ?m"
  proof -
    have "wf_entry ?m r d" if "?m r = Some d" for r d
    proof (cases "r = p")
      case True
      then show ?thesis using that assms(3-6) \<open>q \<noteq> p\<close> by (auto simp: wf_entry_def)
    next
      case False
      then have old: "m r = Some d" "wf_entry m r d" using that assms(1) by (simp_all add: wf_index_def)
      then have "up ?m n r = up m n r" if "n \<le> bi_nHeight d" for n using up_upd [OF assms(1,2) old(1) that] by simp
      then show ?thesis using old(2) assms(2) by (auto simp: wf_entry_def split: option.splits)
    qed
    then show ?thesis by (simp add: wf_index_def)
  qed
  define s where "s = up m (bi_nHeight c - ?h) q"
  define m' where "m' = m(p \<mapsto> b\<lparr> pskip := s \<rparr>)"
  have "GetAncestor ?m q (int ?h) = Inr s"
    using GetAncestor_up [OF wf0, of q c "int ?h"] up_upd [OF assms(1-3), of "bi_nHeight c - ?h" b] assms(3) \<open>q \<noteq> p\<close> hs
    by (simp add: s_def)
  then have "BuildSkip ?m p = Inr m'" using assms(4) by (simp add: BuildSkip_def deref_def m'_def)
  moreover have "wf_index m'"
  proof -
    have "wf_entry m' r d" if "m' r = Some d" for r d
    proof (cases "r = p")
      case True
      have "bi_nHeight b - ?h = Suc (bi_nHeight c - ?h)" using hs assms(6) by simp
      then have "up m' (bi_nHeight b - ?h) p = s"
        using up_upd [OF assms(1-3), of "bi_nHeight c - ?h" "b\<lparr> pskip := s \<rparr>"] assms(4) by (simp add: m'_def s_def)
      moreover have "d = b\<lparr> pskip := s \<rparr>" using True that by (simp add: m'_def)
      moreover have "m' q = Some c" using assms(3) \<open>q \<noteq> p\<close> by (simp add: m'_def)
      ultimately show ?thesis using True assms(4,6) by (simp add: wf_entry_def)
    next
      case False
      then have old: "m r = Some d" "wf_entry m r d" using that assms(1) by (simp_all add: wf_index_def m'_def)
      then have "up m' n r = up m n r" if "n \<le> bi_nHeight d" for n
        unfolding m'_def using up_upd [OF assms(1,2) old(1) that] by simp
      then show ?thesis using old(2) assms(2) by (auto simp: wf_entry_def m'_def split: option.splits)
    qed
    then show ?thesis by (simp add: wf_index_def)
  qed
  ultimately show ?thesis by (intro that [of m']) (simp_all add: m'_def s_def)
qed

section \<open>The active chain and common ancestors\<close>

definition chain_ok :: "block_store \<Rightarrow> CChain \<Rightarrow> bool" where
  "chain_ok m v \<longleftrightarrow> (\<forall>i < length v. \<exists>q b. v ! i = Some q \<and> m q = Some b \<and> bi_nHeight b = i \<and> (0 < i \<longrightarrow> pprev b = v ! (i - 1)))"

lemma chain_ok_up:
  assumes "chain_ok m v"
  shows "i + n < length v \<Longrightarrow> v ! (i + n) = Some q \<Longrightarrow> v ! i = up m n q"
proof (induction n arbitrary: q)
  case (Suc n)
  from assms Suc.prems obtain b where "m q = Some b" "pprev b = v ! (i + n)"
    by (fastforce simp: chain_ok_def)
  moreover obtain r where "v ! (i + n) = Some r"
    using assms [unfolded chain_ok_def, rule_format, of "i + n"] Suc.prems(1) by auto
  ultimately show ?case using Suc by simp
qed simp

lemma set_tip_loop_up:
  assumes "wf_index m" "chain_ok m v0" "m p = Some b" "bi_nHeight b < length v" "bi_nHeight b < fuel"
    and "\<forall>i \<le> bi_nHeight b. v ! i = (if i < length v0 then v0 ! i else None)"
  shows "\<exists>v'. set_tip_loop m fuel (Some p) v = Inr v' \<and> length v' = length v \<and>
    (\<forall>i < length v. v' ! i = (if i \<le> bi_nHeight b then up m (bi_nHeight b - i) p else v ! i))"
  using assms(3-)
proof (induction fuel arbitrary: p b v)
  case (Suc fuel)
  let ?h = "bi_nHeight b"
  show ?case
  proof (cases "v ! ?h = Some p")
    case True
    then have h: "?h < length v0" "v0 ! ?h = Some p" using Suc.prems(4) by (auto split: if_splits)
    then have "v ! i = up m (?h - i) p" if "i \<le> ?h" for i
      using chain_ok_up [OF assms(2), of i "?h - i" p] Suc.prems(4) that by simp
    with True Suc.prems(1) show ?thesis by (auto simp: deref_def)
  next
    case False
    let ?v = "v[?h := Some p]"
    have loop: "set_tip_loop m (Suc fuel) (Some p) v = set_tip_loop m fuel (pprev b) ?v"
      using False Suc.prems(1) by (simp add: deref_def)
    have "wf_entry m p b" using assms(1) Suc.prems(1) by (simp add: wf_index_def)
    then consider "pprev b = None" "?h = 0" | q c where "pprev b = Some q" "m q = Some c" "?h = Suc (bi_nHeight c)"
      by (auto simp: wf_entry_def split: option.splits)
    then show ?thesis
    proof cases
      case 1
      then show ?thesis using loop Suc.prems by (auto simp: nth_list_update)
    next
      case (2 q c)
      then obtain v' where v': "set_tip_loop m fuel (Some q) ?v = Inr v'" "length v' = length v"
        "\<forall>i < length v. v' ! i = (if i \<le> bi_nHeight c then up m (bi_nHeight c - i) q else ?v ! i)"
        using Suc.IH [of q c ?v] Suc.prems by auto
      have "v' ! i = (if i \<le> ?h then up m (?h - i) p else v ! i)" if "i < length v" for i
        using v'(3) that 2 Suc.prems(1) by (auto simp: Suc_diff_le nth_list_update le_Suc_eq)
      then show ?thesis using loop 2(1) v' by auto
    qed
  qed
qed simp

lemma SetTip_up:
  assumes "wf_index m" "chain_ok m v" "m p = Some b"
  obtains v' where "SetTip m (Some p) v = Inr v'" "length v' = Suc (bi_nHeight b)"
    "\<forall>i \<le> bi_nHeight b. v' ! i = up m (bi_nHeight b - i) p" "chain_ok m v'"
proof -
  let ?n = "bi_nHeight b + 1"
  let ?v = "take ?n v @ replicate (?n - length v) None"
  have "length ?v = ?n" by simp
  moreover have "\<forall>i \<le> bi_nHeight b. ?v ! i = (if i < length v then v ! i else None)" by (auto simp: nth_append)
  ultimately obtain v' where v': "set_tip_loop m (?n + 1) (Some p) ?v = Inr v'" "length v' = ?n"
    "\<forall>i \<le> bi_nHeight b. v' ! i = up m (bi_nHeight b - i) p"
    using set_tip_loop_up [OF assms, of ?v "?n + 1"] by auto
  have "chain_ok m v'" unfolding chain_ok_def
  proof (intro allI impI)
    fix i assume i: "i < length v'"
    then have le: "i \<le> bi_nHeight b" using v'(2) by simp
    then obtain q c where q: "up m (bi_nHeight b - i) p = Some q" "m q = Some c" "bi_nHeight c = i"
      using up_exists [OF assms(1,3), of "bi_nHeight b - i"] by auto
    have "pprev c = v' ! (i - 1)" if pos: "0 < i"
    proof -
      have "wf_entry m q c" using assms(1) q(2) by (simp add: wf_index_def)
      then obtain r where r: "pprev c = Some r" using pos q(3) by (auto simp: wf_entry_def split: option.splits)
      have "bi_nHeight b - (i - 1) = (bi_nHeight b - i) + 1" using that le by simp
      then have "up m (bi_nHeight b - (i - 1)) p = Some r" using q(1,2) r by (simp only: up_add) simp
      then show ?thesis using v'(3) le r that by simp
    qed
    then show "\<exists>q b. v' ! i = Some q \<and> m q = Some b \<and> bi_nHeight b = i \<and> (0 < i \<longrightarrow> pprev b = v' ! (i - 1))"
      using q v'(3) le by auto
  qed
  then show ?thesis using assms(3) v' by (intro that [of v']) (simp_all add: SetTip_def deref_def Let_def)
qed

lemma common_loop_up:
  assumes "wf_index m"
  shows "m p = Some b \<Longrightarrow> m q = Some c \<Longrightarrow> bi_nHeight b = h \<Longrightarrow> bi_nHeight c = h \<Longrightarrow> h < fuel \<Longrightarrow>
    \<exists>r. common_loop m fuel (Some p) (Some q) = Inr r \<and>
      (case r of
         Some a \<Rightarrow> \<exists>n \<le> h. up m n p = Some a \<and> up m n q = Some a \<and> (\<forall>k < n. up m k p \<noteq> up m k q)
       | None \<Rightarrow> \<forall>k \<le> h. up m k p \<noteq> up m k q)"
proof (induction h arbitrary: p q b c fuel)
  case 0
  then have wf: "wf_entry m p b" "wf_entry m q c" using assms by (simp_all add: wf_index_def)
  obtain fuel' where "fuel = Suc fuel'" using 0 by (cases fuel) auto
  moreover have "pprev b = None" "pprev c = None" using wf 0(3,4) by (auto simp: wf_entry_def split: option.splits)
  ultimately show ?case using 0(1,2) by (cases "p = q") (auto simp: deref_def)
next
  case (Suc h)
  have "wf_entry m p b" "wf_entry m q c" using assms Suc.prems by (simp_all add: wf_index_def)
  then obtain p' q' b' c' where pq: "pprev b = Some p'" "m p' = Some b'" "bi_nHeight b' = h"
    "pprev c = Some q'" "m q' = Some c'" "bi_nHeight c' = h"
    using Suc.prems(3,4) by (auto simp: wf_entry_def split: option.splits)
  obtain fuel' where fuel: "fuel = Suc fuel'" "h < fuel'" using Suc.prems(5) by (cases fuel) auto
  show ?case
  proof (cases "p = q")
    case True
    then show ?thesis by (auto intro!: exI [of _ 0])
  next
    case False
    from Suc.IH [OF pq(2,5,3,6) fuel(2)] obtain r where r: "common_loop m fuel' (Some p') (Some q') = Inr r"
      "case r of Some a \<Rightarrow> \<exists>n \<le> h. up m n p' = Some a \<and> up m n q' = Some a \<and> (\<forall>k < n. up m k p' \<noteq> up m k q')
       | None \<Rightarrow> \<forall>k \<le> h. up m k p' \<noteq> up m k q'" by blast
    have step: "up m (Suc k) p = up m k p'" "up m (Suc k) q = up m k q'" for k using Suc.prems(1,2) pq(1,4) by simp_all
    have "common_loop m fuel (Some p) (Some q) = Inr r" using False fuel(1) r(1) Suc.prems(1,2) pq(1,4) by (simp add: deref_def)
    moreover have "case r of Some a \<Rightarrow> \<exists>n \<le> Suc h. up m n p = Some a \<and> up m n q = Some a \<and> (\<forall>k < n. up m k p \<noteq> up m k q)
       | None \<Rightarrow> \<forall>k \<le> Suc h. up m k p \<noteq> up m k q"
    proof (cases r)
      case None
      then have "up m k p \<noteq> up m k q" if "k \<le> Suc h" for k
        using r(2) False that step by (cases k) auto
      then show ?thesis using None by simp
    next
      case (Some a)
      then obtain n where n: "n \<le> h" "up m n p' = Some a" "up m n q' = Some a" "\<forall>k < n. up m k p' \<noteq> up m k q'" using r(2) by auto
      then have "up m k p \<noteq> up m k q" if "k < Suc n" for k using False that step by (cases k) auto
      then show ?thesis using Some n step by (auto intro!: exI [of _ "Suc n"])
    qed
    ultimately show ?thesis by blast
  qed
qed

lemma up_Some:
  assumes "wf_index m"
  shows "m p = Some b \<Longrightarrow> up m n p = Some q \<Longrightarrow> n \<le> bi_nHeight b \<and> (\<exists>c. m q = Some c \<and> bi_nHeight c = bi_nHeight b - n)"
proof (induction n arbitrary: p b)
  case (Suc n)
  from Suc.prems obtain r where r: "pprev b = Some r" "up m n r = Some q" by (auto split: option.splits)
  have "wf_entry m p b" using assms Suc.prems(1) by (simp add: wf_index_def)
  with r obtain d where "m r = Some d" "bi_nHeight b = Suc (bi_nHeight d)" by (auto simp: wf_entry_def)
  with Suc.IH r show ?case by auto
qed simp

text \<open>The common ancestors of two entries of one height are the ancestors of what the loop finds.\<close>

lemma common_loop_ancestors:
  assumes "wf_index m" "m p = Some b" "m q = Some c" "bi_nHeight b = bi_nHeight c" "bi_nHeight b < fuel"
  obtains r where "common_loop m fuel (Some p) (Some q) = Inr r"
    "\<forall>a. (\<exists>i j. up m i p = Some a \<and> up m j q = Some a) \<longleftrightarrow> (\<exists>x k. r = Some x \<and> up m k x = Some a)"
proof -
  let ?h = "bi_nHeight b"
  obtain r where r: "common_loop m fuel (Some p) (Some q) = Inr r"
    "case r of Some x \<Rightarrow> \<exists>n \<le> ?h. up m n p = Some x \<and> up m n q = Some x \<and> (\<forall>k < n. up m k p \<noteq> up m k q)
     | None \<Rightarrow> \<forall>k \<le> ?h. up m k p \<noteq> up m k q"
    using common_loop_up [OF assms(1-3) refl _ assms(5)] assms(4) by auto
  have same: "i = j \<and> i \<le> ?h" if "up m i p = Some a" "up m j q = Some a" for i j a
    using up_Some [OF assms(1,2) that(1)] up_Some [OF assms(1,3) that(2)] assms(4) by auto
  have "(\<exists>i j. up m i p = Some a \<and> up m j q = Some a) \<longleftrightarrow> (\<exists>x k. r = Some x \<and> up m k x = Some a)" for a
  proof (cases r)
    case None
    then show ?thesis using r(2) same by fastforce
  next
    case (Some x)
    then obtain n where n: "up m n p = Some x" "up m n q = Some x" "\<forall>k < n. up m k p \<noteq> up m k q" using r(2) by auto
    show ?thesis
    proof
      assume "\<exists>i j. up m i p = Some a \<and> up m j q = Some a"
      then obtain i where i: "up m i p = Some a" "up m i q = Some a" using same by blast
      then have "n \<le> i" using n(3) by (metis not_le)
      then have "up m (i - n) x = Some a" using i(1) n(1) up_add [of m n "i - n" p] by simp
      then show "\<exists>x k. r = Some x \<and> up m k x = Some a" using Some by blast
    next
      assume "\<exists>x k. r = Some x \<and> up m k x = Some a"
      then obtain k where "up m k x = Some a" using Some by auto
      then show "\<exists>i j. up m i p = Some a \<and> up m j q = Some a"
        using n up_add [of m n k p] up_add [of m n k q] by (intro exI [of _ "n + k"]) simp
    qed
  qed
  with r(1) show ?thesis by (intro that [of r]) auto
qed

text \<open>The ancestor at a height that the other entry has is passed by every common ancestor.\<close>

lemma up_below:
  assumes "wf_index m" "m p = Some b" "m q = Some c" "up m n p = Some p'" "bi_nHeight b = bi_nHeight c + n"
    and "up m j q = Some a"
  shows "(\<exists>i. up m i p = Some a) \<longleftrightarrow> (\<exists>i. up m i p' = Some a)"
proof
  assume "\<exists>i. up m i p = Some a"
  then obtain i where i: "up m i p = Some a" ..
  then have "n \<le> i" using up_Some [OF assms(1,2) i] up_Some [OF assms(1,3,6)] assms(5) by auto
  then have "up m (i - n) p' = Some a" using i assms(4) up_add [of m n "i - n" p] by simp
  then show "\<exists>i. up m i p' = Some a" ..
next
  assume "\<exists>i. up m i p' = Some a"
  then obtain i where "up m i p' = Some a" ..
  then have "up m (n + i) p = Some a" using assms(4) by (simp add: up_add)
  then show "\<exists>i. up m i p = Some a" ..
qed

lemma LastCommonAncestor_law:
  assumes "wf_index m" "m pa = Some a" "m pb = Some b"
  obtains r where "LastCommonAncestor m pa pb = Inr r"
    "\<forall>x. (\<exists>i j. up m i pa = Some x \<and> up m j pb = Some x) \<longleftrightarrow> (\<exists>c k. r = Some c \<and> up m k c = Some x)"
proof -
  consider "bi_nHeight a > bi_nHeight b" | "bi_nHeight b > bi_nHeight a" | "bi_nHeight a = bi_nHeight b" by linarith
  then show ?thesis
  proof cases
    case 1
    define n where "n = bi_nHeight a - bi_nHeight b"
    obtain pa' a' where pa': "up m n pa = Some pa'" "m pa' = Some a'" "bi_nHeight a' = bi_nHeight b"
      using up_exists [OF assms(1,2), of n] 1 by (auto simp: n_def)
    have "GetAncestor m pa (int (bi_nHeight b)) = Inr (Some pa')"
      using GetAncestor_up [OF assms(1,2), of "int (bi_nHeight b)"] 1 pa'(1) by (simp add: n_def)
    moreover obtain r where "common_loop m (bi_nHeight a + 1) (Some pa') (Some pb) = Inr r"
      "\<forall>x. (\<exists>i j. up m i pa' = Some x \<and> up m j pb = Some x) \<longleftrightarrow> (\<exists>c k. r = Some c \<and> up m k c = Some x)"
      using common_loop_ancestors [OF assms(1) pa'(2) assms(3) pa'(3), of "bi_nHeight a + 1"] 1 pa'(3) by auto
    moreover have "(\<exists>i j. up m i pa = Some x \<and> up m j pb = Some x) \<longleftrightarrow> (\<exists>i j. up m i pa' = Some x \<and> up m j pb = Some x)" for x
      using up_below [OF assms pa'(1)] 1 by (auto simp: n_def)
    ultimately show ?thesis using 1 assms(2,3) by (intro that [of r]) (simp_all add: LastCommonAncestor_def deref_def)
  next
    case 2
    define n where "n = bi_nHeight b - bi_nHeight a"
    obtain pb' b' where pb': "up m n pb = Some pb'" "m pb' = Some b'" "bi_nHeight b' = bi_nHeight a"
      using up_exists [OF assms(1,3), of n] 2 by (auto simp: n_def)
    have "GetAncestor m pb (int (bi_nHeight a)) = Inr (Some pb')"
      using GetAncestor_up [OF assms(1,3), of "int (bi_nHeight a)"] 2 pb'(1) by (simp add: n_def)
    moreover obtain r where "common_loop m (bi_nHeight a + 1) (Some pa) (Some pb') = Inr r"
      "\<forall>x. (\<exists>i j. up m i pa = Some x \<and> up m j pb' = Some x) \<longleftrightarrow> (\<exists>c k. r = Some c \<and> up m k c = Some x)"
      using common_loop_ancestors [OF assms(1,2) pb'(2) pb'(3) [symmetric], of "bi_nHeight a + 1"] by auto
    moreover have "(\<exists>i j. up m i pa = Some x \<and> up m j pb = Some x) \<longleftrightarrow> (\<exists>i j. up m i pa = Some x \<and> up m j pb' = Some x)" for x
      using up_below [OF assms(1,3,2) pb'(1)] 2 by (auto simp: n_def)
    ultimately show ?thesis using 2 assms(2,3) by (intro that [of r]) (simp_all add: LastCommonAncestor_def deref_def)
  next
    case 3
    obtain r where "common_loop m (bi_nHeight a + 1) (Some pa) (Some pb) = Inr r"
      "\<forall>x. (\<exists>i j. up m i pa = Some x \<and> up m j pb = Some x) \<longleftrightarrow> (\<exists>c k. r = Some c \<and> up m k c = Some x)"
      using common_loop_ancestors [OF assms 3, of "bi_nHeight a + 1"] by auto
    then show ?thesis using 3 assms(2,3) by (intro that [of r]) (simp_all add: LastCommonAncestor_def deref_def)
  qed
qed

text \<open>An example: three blocks on a genesis block, and a rival of the last.\<close>

definition example_entry :: "block_ptr option \<Rightarrow> block_ptr option \<Rightarrow> nat \<Rightarrow> CBlockIndex" where
  "example_entry prev skip h = \<lparr> phashBlock = of_nat h, pprev = prev, pskip = skip, bi_nHeight = h,
     nChainWork = base_uint_of 0, bi_nVersion = 0x20000000, bi_nTime = of_nat (600 * h), bi_nBits = 0x207fffff, nTimeMax = of_nat (600 * h) \<rparr>"

definition example_index :: block_store where
  "example_index = [0 \<mapsto> example_entry None None 0, 1 \<mapsto> example_entry (Some 0) (Some 0) 1, 2 \<mapsto> example_entry (Some 1) (Some 0) 2,
     3 \<mapsto> example_entry (Some 2) (Some 1) 3, 4 \<mapsto> example_entry (Some 2) (Some 1) 3]"

lemma example_index_wf: "wf_index example_index"
proof -
  have skip: "GetSkipHeight 0 = 0" "GetSkipHeight 1 = 0" "GetSkipHeight 2 = 0" "GetSkipHeight 3 = 1" by code_simp+
  show ?thesis
    by (auto simp: wf_index_def example_index_def wf_entry_def example_entry_def skip numeral_2_eq_2 numeral_3_eq_3 split: if_splits)
      (use skip in \<open>auto simp: numeral_2_eq_2 numeral_3_eq_3\<close>)
qed

text \<open>
  C7: \<open>GetAncestor\<close> ends and returns what following the predecessors would. In a well-formed index it
  returns the null pointer for a height below zero or above the block's, and otherwise the entry that
  many steps back, which exists and has that height, although it takes the skip pointers; it never
  follows a bad pointer and its assertion never fails.
\<close>

theorem GetAncestor_terminates:
  assumes "wf_index m" "m p = Some b"
  shows "GetAncestor m p h = Inr (if h < 0 \<or> h > int (bi_nHeight b) then None else up m (bi_nHeight b - nat h) p) \<and>
    (0 \<le> h \<and> h \<le> int (bi_nHeight b) \<longrightarrow> (\<exists>q c. GetAncestor m p h = Inr (Some q) \<and> m q = Some c \<and> int (bi_nHeight c) = h))"
  using GetAncestor_up [OF assms, of h] up_exists [OF assms, of "bi_nHeight b - nat h"] by (auto simp: not_less)

theorem GetAncestor_terminates_witness:
  "wf_index example_index \<and> GetAncestor example_index 3 1 = Inr (Some 1) \<and> GetAncestor example_index 3 4 = Inr None"
proof -
  have "example_index 3 = Some (example_entry (Some 2) (Some 1) 3)" by (simp add: example_index_def)
  moreover have h: "bi_nHeight (example_entry (Some 2) (Some 1) 3) = 3" by (simp add: example_entry_def)
  moreover have "up example_index 2 3 = Some 1" by (simp add: example_index_def example_entry_def numeral_2_eq_2)
  ultimately show ?thesis
    using GetAncestor_terminates [OF example_index_wf, of 3 _ 1] GetAncestor_terminates [OF example_index_wf, of 3 _ 4] example_index_wf
    by auto
qed

text \<open>
  C8: adding a block keeps the index and the active chain well-formed. After \<open>BuildSkip\<close> on a new entry
  above an existing one the index is well-formed again, and \<open>SetTip\<close> to the new entry, from any active
  chain, ends with the chain of its ancestors, each at its height.
\<close>

theorem chain_index_invariant:
  assumes "wf_index m" "chain_ok m v" "m p = None" "m q = Some c"
    and "pprev b = Some q" "pskip b = None" "bi_nHeight b = Suc (bi_nHeight c)"
  shows "\<exists>m' v'. BuildSkip (m(p \<mapsto> b)) p = Inr m' \<and> wf_index m' \<and> SetTip m' (Some p) v = Inr v' \<and> chain_ok m' v' \<and>
    length v' = Suc (bi_nHeight b) \<and> (\<forall>i \<le> bi_nHeight b. v' ! i = up m' (bi_nHeight b - i) p)"
proof -
  obtain m' where m': "BuildSkip (m(p \<mapsto> b)) p = Inr m'" "wf_index m'" "\<forall>r. r \<noteq> p \<longrightarrow> m' r = m r"
    "m' p = Some (b\<lparr> pskip := up m (bi_nHeight c - GetSkipHeight (bi_nHeight b)) q \<rparr>)"
    by (rule BuildSkip_wf [OF assms(1,3-7)])
  have "chain_ok m' v" unfolding chain_ok_def
  proof (intro allI impI)
    fix i assume "i < length v"
    then obtain r d where "v ! i = Some r" "m r = Some d" "bi_nHeight d = i" "0 < i \<longrightarrow> pprev d = v ! (i - 1)"
      using assms(2) by (auto simp: chain_ok_def)
    moreover from this have "m' r = Some d" using m'(3) assms(3) by (metis option.distinct(1))
    ultimately show "\<exists>r d. v ! i = Some r \<and> m' r = Some d \<and> bi_nHeight d = i \<and> (0 < i \<longrightarrow> pprev d = v ! (i - 1))"
      by (intro exI [of _ r] exI [of _ d]) simp
  qed
  from SetTip_up [OF m'(2) this m'(4)] obtain v' where "SetTip m' (Some p) v = Inr v'" "length v' = Suc (bi_nHeight b)"
    "\<forall>i \<le> bi_nHeight b. v' ! i = up m' (bi_nHeight b - i) p" "chain_ok m' v'" by auto
  with m' show ?thesis by blast
qed

theorem chain_index_invariant_witness:
  "\<exists>m' v'. BuildSkip (example_index(5 \<mapsto> example_entry (Some 3) None 4)) 5 = Inr m' \<and> SetTip m' (Some 5) [] = Inr v' \<and>
     length v' = 5 \<and> chain_ok m' v'"
proof -
  let ?b = "example_entry (Some 3) None 4"
  have "chain_ok example_index []" by (simp add: chain_ok_def)
  moreover have "example_index 5 = None" "example_index 3 = Some (example_entry (Some 2) (Some 1) 3)" by (simp_all add: example_index_def)
  moreover have "pprev ?b = Some 3" "pskip ?b = None" "bi_nHeight ?b = Suc (bi_nHeight (example_entry (Some 2) (Some 1) 3))"
    by (simp_all add: example_entry_def)
  ultimately show ?thesis using chain_index_invariant [OF example_index_wf, of "[]" 5 3 _ ?b] by (fastforce simp: example_entry_def)
qed

text \<open>
  C9: \<open>LastCommonAncestor\<close> ends and finds the last block two blocks share: what it returns is such that the
  common ancestors of the two blocks are exactly the blocks it descends from, and none are shared when
  it returns the null pointer.
\<close>

theorem LastCommonAncestor_highest:
  assumes "wf_index m" "m pa = Some a" "m pb = Some b"
  shows "\<exists>r. LastCommonAncestor m pa pb = Inr r \<and>
    (\<forall>x. (\<exists>i j. up m i pa = Some x \<and> up m j pb = Some x) \<longleftrightarrow> (\<exists>c k. r = Some c \<and> up m k c = Some x))"
  by (rule LastCommonAncestor_law [OF assms]) blast

theorem LastCommonAncestor_highest_witness:
  "\<exists>c k. LastCommonAncestor example_index 3 4 = Inr (Some c) \<and> up example_index k c = Some 2"
proof -
  have "example_index 3 = Some (example_entry (Some 2) (Some 1) 3)" "example_index 4 = Some (example_entry (Some 2) (Some 1) 3)"
    by (simp_all add: example_index_def)
  from LastCommonAncestor_highest [OF example_index_wf this] obtain r where "LastCommonAncestor example_index 3 4 = Inr r"
    "(\<exists>i j. up example_index i 3 = Some 2 \<and> up example_index j 4 = Some 2) \<longleftrightarrow> (\<exists>c k. r = Some c \<and> up example_index k c = Some 2)" by auto
  moreover have "up example_index 1 3 = Some 2" "up example_index 1 4 = Some 2" by (simp_all add: example_index_def example_entry_def)
  ultimately show ?thesis by blast
qed

end
