(* ===== verification/Spec2Isabelle.thy ===== *)
theory Spec2Isabelle
  imports TxVerify Compressor Chain
begin

text \<open>
  Verification of the lightchain node.
\<close>

end
